(* ===== verification/Prelude.thy ===== *)
theory Prelude
  imports Main "HOL-Library.AList" "HOL-Library.Char_ord" "HOL-Library.List_Lexorder"
    "HOL-Library.Word"
begin

text \<open>
  The vocabulary shared by every component: the JavaScript collections the client packages are
  written against (\<open>Map\<close> and \<open>Set\<close>, both insertion ordered), slicing of arrays
  into blocks, and the two generic arguments the components reuse, invariants of a machine that
  consumes events and convergence of last-writer-wins replicas.  The two named collections
  \<open>js_simps\<close> and \<open>inv_intros\<close> are what the component theories pass to
  the simplifier and the classical reasoner.
\<close>

named_theorems js_simps \<open>equations of the JavaScript runtime operations\<close>
named_theorems inv_intros \<open>operations preserve the component invariant\<close>

section \<open>The ordered \<open>Map\<close>\<close>

text \<open>
  A JavaScript \<open>Map\<close> iterates in insertion order and \<open>set\<close> on a present key
  overwrites in place.  This is exactly an association list without repeated keys under the update
  and delete of \<^theory_text>\<open>HOL-Library.AList\<close>.
\<close>

type_synonym ('k, 'v) jsmap = "('k \<times> 'v) list"

abbreviation map_get :: "('k, 'v) jsmap \<Rightarrow> 'k \<Rightarrow> 'v option" where
  "map_get m \<equiv> map_of m"

abbreviation map_set :: "'k \<Rightarrow> 'v \<Rightarrow> ('k, 'v) jsmap \<Rightarrow> ('k, 'v) jsmap" where
  "map_set \<equiv> AList.update"

abbreviation map_del :: "'k \<Rightarrow> ('k, 'v) jsmap \<Rightarrow> ('k, 'v) jsmap" where
  "map_del \<equiv> AList.delete"

abbreviation map_keys :: "('k, 'v) jsmap \<Rightarrow> 'k list" where
  "map_keys m \<equiv> map fst m"

abbreviation map_vals :: "('k, 'v) jsmap \<Rightarrow> 'v list" where
  "map_vals m \<equiv> map snd m"

definition map_has :: "('k, 'v) jsmap \<Rightarrow> 'k \<Rightarrow> bool" where
  "map_has m k = (k \<in> set (map_keys m))"

abbreviation map_wf :: "('k, 'v) jsmap \<Rightarrow> bool" where
  "map_wf m \<equiv> distinct (map_keys m)"

lemma map_has_get [js_simps]: "map_has m k \<longleftrightarrow> map_get m k \<noteq> None"
  by (simp add: map_has_def map_of_eq_None_iff)

lemma map_wf_get_iff: "map_wf m \<Longrightarrow> map_get m k = Some v \<longleftrightarrow> (k, v) \<in> set m"
  by simp

declare map_of_eq_Some_iff [simp del]

lemma map_get_set [js_simps, simp]: "map_get (map_set k v m) = (map_get m)(k \<mapsto> v)"
  by (simp add: update_conv')

lemma map_get_del [js_simps, simp]: "map_get (map_del k m) = (map_get m)(k := None)"
  by (simp add: delete_conv')

lemma map_wf_set [intro, simp]: "map_wf m \<Longrightarrow> map_wf (map_set k v m)"
  by (rule distinct_update)

lemma map_wf_del [intro, simp]: "map_wf m \<Longrightarrow> map_wf (map_del k m)"
  by (rule distinct_delete)

lemma map_keys_set: "map_keys (map_set k v m) = (if map_has m k then map_keys m else map_keys m @ [k])"
  by (induction m) (auto simp: map_has_def)

lemma map_keys_del: "map_keys (map_del k m) = removeAll k (map_keys m)"
  by (induction m) auto

lemma set_map_del: "set (map_del k m) = {e \<in> set m. fst e \<noteq> k}"
  by (induction m) auto

lemma length_map_del_le: "length (map_del k m) \<le> length m"
  by (induction m) auto

lemma length_map_del:
  "map_wf m \<Longrightarrow> length (map_del k m) = (if map_has m k then length m - 1 else length m)"
  by (induction m) (auto simp: map_has_def Suc_diff_le in_set_conv_decomp intro: Suc_pred)

text \<open>
  What a component may rely on when it keeps a \<open>Map\<close>.  The laws are those of the
  ECMAScript collection; the model's own association lists provide them below, and the components
  reach the derived facts through that interpretation.
\<close>

locale ordered_dict =
  fixes empty :: 'm
    and get :: "'m \<Rightarrow> 'k \<Rightarrow> 'v option"
    and put :: "'k \<Rightarrow> 'v \<Rightarrow> 'm \<Rightarrow> 'm"
    and del :: "'k \<Rightarrow> 'm \<Rightarrow> 'm"
    and keys :: "'m \<Rightarrow> 'k list"
    and wf :: "'m \<Rightarrow> bool"
  assumes get_empty: "get empty = Map.empty"
    and get_put: "wf m \<Longrightarrow> get (put k v m) = (get m)(k \<mapsto> v)"
    and get_del: "wf m \<Longrightarrow> get (del k m) = (get m)(k := None)"
    and wf_empty: "wf empty"
    and wf_put: "wf m \<Longrightarrow> wf (put k v m)"
    and wf_del: "wf m \<Longrightarrow> wf (del k m)"
    and keys_dom: "wf m \<Longrightarrow> set (keys m) = dom (get m)"
    and keys_distinct: "wf m \<Longrightarrow> distinct (keys m)"
begin

lemma del_put_fresh: "wf m \<Longrightarrow> get m k = None \<Longrightarrow> get (del k (put k v m)) = get m"
  by (simp add: get_put get_del wf_put fun_upd_idem)

lemma size_dom: "wf m \<Longrightarrow> length (keys m) = card (dom (get m))"
  by (metis distinct_card keys_distinct keys_dom)

lemma finite_dom: "wf m \<Longrightarrow> finite (dom (get m))"
  by (metis List.finite_set keys_dom)

lemma size_put:
  assumes "wf m"
  shows "length (keys (put k v m)) = (if get m k = None then Suc (length (keys m)) else length (keys m))"
  using assms finite_dom [OF assms]
  by (auto simp: size_dom wf_put get_put domIff insert_absorb)

lemma size_del:
  assumes "wf m"
  shows "length (keys (del k m)) = (if get m k = None then length (keys m) else length (keys m) - 1)"
  using assms finite_dom [OF assms]
  by (auto simp: size_dom wf_del get_del domIff)

lemma wf_fold_put: "wf m \<Longrightarrow> wf (fold (\<lambda>(k, v). put k v) kvs m)"
  by (induction kvs arbitrary: m) (auto simp: wf_put)

lemma wf_fold_del: "wf m \<Longrightarrow> wf (fold del ks m)"
  by (induction ks arbitrary: m) (auto simp: wf_del)

lemma get_fold_del: "wf m \<Longrightarrow> get (fold del ks m) = (get m) |` (- set ks)"
  by (induction ks arbitrary: m)
    (auto simp: wf_del get_del restrict_map_def fun_eq_iff)

end

interpretation jm: ordered_dict "[]" map_of "map_set" "map_del" "map_keys" "map_wf"
  by unfold_locales (auto simp: dom_map_of_conv_image_fst)

section \<open>The ordered \<open>Set\<close>\<close>

definition set_add :: "'a \<Rightarrow> 'a list \<Rightarrow> 'a list" where
  "set_add x xs = (if x \<in> set xs then xs else xs @ [x])"

definition set_del :: "'a \<Rightarrow> 'a list \<Rightarrow> 'a list" where
  "set_del x xs = removeAll x xs"

lemma set_set_add [js_simps, simp]: "set (set_add x xs) = insert x (set xs)"
  by (auto simp: set_add_def)

lemma set_set_del [js_simps, simp]: "set (set_del x xs) = set xs - {x}"
  by (auto simp: set_del_def)

lemma distinct_set_add [intro, simp]: "distinct xs \<Longrightarrow> distinct (set_add x xs)"
  by (simp add: set_add_def)

lemma distinct_set_del [intro, simp]: "distinct xs \<Longrightarrow> distinct (set_del x xs)"
  by (simp add: set_del_def distinct_removeAll)

lemma set_del_add_fresh: "x \<notin> set xs \<Longrightarrow> set_del x (set_add x xs) = xs"
  by (simp add: set_add_def set_del_def)

section \<open>Slicing an array into blocks\<close>

text \<open>
  The loop \<^verbatim>\<open>for (let i = 0; i < xs.length; i += n) push(xs.slice(i, i + n))\<close>, as the
  packages use it for base-64 encoding, for file chunks and for batches of operations.  With a
  step of zero the source loop does not end, so the model returns \<open>None\<close> there.
\<close>

partial_function (option) slice_loop :: "nat \<Rightarrow> nat \<Rightarrow> 'a list \<Rightarrow> 'a list list \<Rightarrow> 'a list list option"
where
  "slice_loop n i xs acc =
     (if i < length xs then slice_loop n (i + n) xs (acc @ [take n (drop i xs)]) else Some acc)"

fun slices :: "nat \<Rightarrow> 'a list \<Rightarrow> 'a list list" where
  "slices 0 xs = []"
| "slices (Suc n) [] = []"
| "slices (Suc n) (x # xs) = take (Suc n) (x # xs) # slices (Suc n) (drop (Suc n) (x # xs))"

lemma slices_nonempty: "0 < n \<Longrightarrow> xs \<noteq> [] \<Longrightarrow> slices n xs = take n xs # slices n (drop n xs)"
  by (cases n; cases xs) simp_all

lemma slices_Nil [simp]: "slices n [] = []"
  by (cases n) simp_all

lemma concat_slices: "0 < n \<Longrightarrow> concat (slices n xs) = xs"
  by (induction n xs rule: slices.induct) simp_all

lemma length_slice_le: "s \<in> set (slices n xs) \<Longrightarrow> 0 < length s \<and> length s \<le> n"
  by (induction n xs rule: slices.induct) auto

lemma slice_loop_slices:
  assumes "0 < n"
  shows "slice_loop n i xs acc = Some (acc @ slices n (drop i xs))"
proof (induction "length xs - i" arbitrary: i acc rule: less_induct)
  case less
  show ?case
  proof (cases "i < length xs")
    case True
    with assms have "length xs - (i + n) < length xs - i" by simp
    from less.hyps [OF this] True assms show ?thesis
      by (subst slice_loop.simps) (simp add: slices_nonempty add.commute)
  next
    case False
    then show ?thesis by (subst slice_loop.simps) simp
  qed
qed

lemma length_slices: "0 < n \<Longrightarrow> length (slices n xs) = (length xs + n - 1) div n"
proof (induction "length xs" arbitrary: xs rule: less_induct)
  case less
  show ?case
  proof (cases "xs = []")
    case True
    with less.prems show ?thesis by simp
  next
    case False
    with less.prems have "length (drop n xs) < length xs" by simp
    from less.hyps [OF this less.prems]
    have IH: "length (slices n (drop n xs)) = (length xs - n + n - 1) div n" by simp
    show ?thesis
    proof (cases "n \<le> length xs")
      case True
      then have "(length xs + n - 1) div n = Suc ((length xs - 1) div n)"
        using less.prems False by (cases "length xs") (auto simp: div_add_self2)
      with IH True False less.prems show ?thesis by (simp add: slices_nonempty)
    next
      case no: False
      then have "(length xs + n - 1) div n = 1"
        using False less.prems by (intro div_nat_eqI) (cases xs; simp)+
      with no False less.prems show ?thesis by (simp add: slices_nonempty)
    qed
  qed
qed

lemma nth_slices:
  "0 < n \<Longrightarrow> i < length (slices n xs) \<Longrightarrow> slices n xs ! i = take n (drop (i * n) xs)"
proof (induction i arbitrary: xs)
  case 0
  then show ?case by (cases "xs = []") (simp_all add: slices_nonempty)
next
  case (Suc i)
  then have "xs \<noteq> []" by auto
  with Suc.prems have "slices n xs ! Suc i = slices n (drop n xs) ! i"
    and "i < length (slices n (drop n xs))"
    by (simp_all add: slices_nonempty)
  with Suc.IH [of "drop n xs"] Suc.prems(1) show ?case by (simp add: add.commute)
qed

section \<open>Machines and their invariants\<close>

text \<open>
  A component that reacts to calls and callbacks is a function from a state and an event to the
  next state and the actions it performs, in order.  \<open>run\<close> feeds it a list of events.
\<close>

fun run :: "('s \<Rightarrow> 'e \<Rightarrow> 's \<times> 'o list) \<Rightarrow> 's \<Rightarrow> 'e list \<Rightarrow> 's \<times> 'o list" where
  "run step s [] = (s, [])"
| "run step s (e # es) =
     (let (s', out) = step s e; (s'', outs) = run step s' es in (s'', out @ outs))"

abbreviation run_state :: "('s \<Rightarrow> 'e \<Rightarrow> 's \<times> 'o list) \<Rightarrow> 's \<Rightarrow> 'e list \<Rightarrow> 's" where
  "run_state step s es \<equiv> fst (run step s es)"

lemma run_state_Cons [simp]: "run_state step s (e # es) = run_state step (fst (step s e)) es"
  by (simp add: Let_def split_def)

lemma run_append: "run_state step s (es @ fs) = run_state step (run_state step s es) fs"
  by (induction es arbitrary: s) (simp_all del: run.simps(2))

locale machine =
  fixes step :: "'s \<Rightarrow> 'e \<Rightarrow> 's \<times> 'o list"
    and inv :: "'s \<Rightarrow> bool"
    and ok :: "'e \<Rightarrow> bool"
  assumes step_inv: "inv s \<Longrightarrow> ok e \<Longrightarrow> inv (fst (step s e))"
begin

lemma run_inv: "inv s \<Longrightarrow> list_all ok es \<Longrightarrow> inv (run_state step s es)"
  by (induction es arbitrary: s) (simp_all del: run.simps(2) add: step_inv)

end

text \<open>
  Where the environment chooses what happens next the steps are a labelled relation, and the
  reachable states are its closure from the initial ones.
\<close>

inductive reachable :: "('s \<Rightarrow> bool) \<Rightarrow> ('s \<Rightarrow> 'e \<Rightarrow> 's \<Rightarrow> bool) \<Rightarrow> 's \<Rightarrow> bool"
  for init step where
  start: "init s \<Longrightarrow> reachable init step s"
| step: "reachable init step s \<Longrightarrow> step s e t \<Longrightarrow> reachable init step t"

locale inv_system =
  fixes init :: "'s \<Rightarrow> bool"
    and step :: "'s \<Rightarrow> 'e \<Rightarrow> 's \<Rightarrow> bool"
    and inv :: "'s \<Rightarrow> bool"
  assumes init_inv: "init s \<Longrightarrow> inv s"
    and step_inv: "step s e t \<Longrightarrow> inv s \<Longrightarrow> inv t"
begin

lemma reachable_inv: "reachable init step s \<Longrightarrow> inv s"
  by (induction rule: reachable.induct) (auto intro: init_inv step_inv)

end

section \<open>Handlers run one after another\<close>

text \<open>\<open>for (const x of xs) h(x)\<close> and a listener attached \<open>n\<close> times, with the outputs in order.\<close>

fun each :: "('x \<Rightarrow> 's \<Rightarrow> 's \<times> 'o list) \<Rightarrow> 'x list \<Rightarrow> 's \<Rightarrow> 's \<times> 'o list" where
  "each h [] s = (s, [])"
| "each h (x # xs) s = (let (s1, o1) = h x s; (s2, o2) = each h xs s1 in (s2, o1 @ o2))"

abbreviation times :: "nat \<Rightarrow> ('s \<Rightarrow> 's \<times> 'o list) \<Rightarrow> 's \<Rightarrow> 's \<times> 'o list" where
  "times n h \<equiv> each (\<lambda>_ :: unit. h) (replicate n ())"

lemma each_state_Cons: "fst (each h (x # xs) s) = fst (each h xs (fst (h x s)))"
  by (simp add: split_def Let_def)

lemma each_inv:
  "(\<And>x s. x \<in> set xs \<Longrightarrow> P s \<Longrightarrow> P (fst (h x s))) \<Longrightarrow> P s \<Longrightarrow> P (fst (each h xs s))"
  by (induction xs arbitrary: s) (simp_all only: each_state_Cons, simp_all)

lemma each_inv_out:
  "(\<And>x s. x \<in> set xs \<Longrightarrow> P s \<Longrightarrow> P (fst (h x s)) \<and> set (snd (h x s)) \<subseteq> R) \<Longrightarrow> P s
   \<Longrightarrow> P (fst (each h xs s)) \<and> set (snd (each h xs s)) \<subseteq> R"
proof (induction xs arbitrary: s)
  case (Cons x xs)
  from Cons.prems have "P (fst (h x s)) \<and> set (snd (h x s)) \<subseteq> R" by simp
  with Cons.IH [of "fst (h x s)"] Cons.prems(1) show ?case by (simp add: split_def Let_def)
qed simp

lemma each_append: "each h (xs @ ys) s = (let (s1, o1) = each h xs s; (s2, o2) = each h ys s1 in (s2, o1 @ o2))"
  by (induction xs arbitrary: s) (simp_all add: split_def Let_def)

lemma each_const: "(\<And>x. x \<in> set xs \<Longrightarrow> h x s = (s, f x)) \<Longrightarrow> each h xs s = (s, concat (map f xs))"
  by (induction xs) simp_all

end
