(* ===== verification/Types.thy ===== *)
theory Types
  imports Prelude
begin

text \<open>
  The data of packages/peer-client/src/core/types.ts: the wire records, the configuration and
  the constants of \<open>LIMITS\<close>.  Values the source types as \<open>any\<close> are the
  datatype \<open>js\<close>; timestamps, counters and sizes, which the source keeps in doubles
  far below $2^{53}$, are unbounded integers.  Optional fields are options.
\<close>

section \<open>JavaScript values\<close>

datatype js =
    Undef
  | Null
  | JBool bool
  | JNum int
  | JStr string
  | JArr "js list"
  | JObj "(string \<times> js) list"

text \<open>\<open>v?.k\<close>, \<open>a ?? b\<close>, and the conversion to a boolean in a condition.\<close>

fun prop_opt :: "js \<Rightarrow> string \<Rightarrow> js" where
  "prop_opt (JObj fs) k = (case map_get fs k of None \<Rightarrow> Undef | Some v \<Rightarrow> v)"
| "prop_opt v k = Undef"

fun coalesce :: "js \<Rightarrow> js \<Rightarrow> js" where
  "coalesce Undef b = b"
| "coalesce Null b = b"
| "coalesce a b = a"

fun truthy :: "js \<Rightarrow> bool" where
  "truthy Undef = False"
| "truthy Null = False"
| "truthy (JBool b) = b"
| "truthy (JNum n) = (n \<noteq> 0)"
| "truthy (JStr s) = (s \<noteq> [])"
| "truthy v = True"

section \<open>Promises\<close>

text \<open>A promise keeps the first outcome it is settled with; an error is its message.\<close>

datatype promise = Pending | Resolved string | Rejected string

definition settle :: "promise \<Rightarrow> promise \<Rightarrow> promise" where
  "settle outcome p = (if p = Pending then outcome else p)"

section \<open>Limits\<close>

definition MAX_MEDIA_PEERS :: nat where "MAX_MEDIA_PEERS = 10"
definition MAX_GROUP_SIZE :: nat where "MAX_GROUP_SIZE = 20"
definition RELAY_THRESHOLD :: nat where "RELAY_THRESHOLD = 30"
definition CHUNK_SIZE :: nat where "CHUNK_SIZE = 65536"
definition BUFFERED_AMOUNT_HIGH :: nat where "BUFFERED_AMOUNT_HIGH = 4 * 1024 * 1024"
definition BUFFERED_AMOUNT_LOW :: nat where "BUFFERED_AMOUNT_LOW = 1 * 1024 * 1024"
definition ACK_INTERVAL :: nat where "ACK_INTERVAL = 100"
definition TRANSFER_CHANNEL_PREFIX :: string where "TRANSFER_CHANNEL_PREFIX = ''ft-''"
definition TOMBSTONE_TTL :: int where "TOMBSTONE_TTL = 60000"
definition MESSAGE_QUEUE_MAX :: nat where "MESSAGE_QUEUE_MAX = 500"
definition MAX_PENDING_OPS :: nat where "MAX_PENDING_OPS = 10000"
definition SYNC_BATCH_SIZE :: nat where "SYNC_BATCH_SIZE = 50"

lemmas limit_defs =
  MAX_MEDIA_PEERS_def MAX_GROUP_SIZE_def RELAY_THRESHOLD_def CHUNK_SIZE_def
  BUFFERED_AMOUNT_HIGH_def BUFFERED_AMOUNT_LOW_def ACK_INTERVAL_def TRANSFER_CHANNEL_PREFIX_def
  TOMBSTONE_TTL_def MESSAGE_QUEUE_MAX_def MAX_PENDING_OPS_def SYNC_BATCH_SIZE_def

section \<open>Clock stamps and replicated entries\<close>

text \<open>
  A hybrid logical clock.  It is a datatype with selectors rather than a record so that it can
  carry the order of \<open>compareHLC\<close> as its type class.
\<close>

datatype hlc = HLC (hlc_ts: int) (hlc_counter: int) (hlc_node: string)

record sync_state =
  e_key :: string
  e_val :: js
  e_hlc :: hlc
  e_from :: string
  e_version :: int
  e_deleted :: bool

datatype sync_mode = Lww | Operational | Crdt

datatype op_type = OpSet | OpDelete

record offline_operation =
  op_id :: string
  op_type :: op_type
  op_key :: string
  op_value :: js
  op_hlc :: hlc
  op_ts :: int

section \<open>Peers, rooms and server messages\<close>

record peer_info =
  pi_fingerprint :: string
  pi_alias :: string

record match_result =
  mr_namespace :: string
  mr_session_id :: string
  mr_peers :: "peer_info list"

section \<open>File transfer\<close>

record file_metadata =
  m_id :: string
  m_filename :: string
  m_size :: nat
  m_mime :: string
  m_totalChunks :: nat
  m_chunkSize :: nat

datatype transfer_control =
    Offer string string nat string nat nat  \<comment> \<open>id, filename, size, mime, chunkSize, totalChunks\<close>
  | Accept string
  | Ack string nat
  | Complete string
  | Cancel string
  | Resume string int
  | TransferErr string string

record transfer_progress =
  pr_id :: string
  pr_sent :: int
  pr_total :: int
  pr_percentage :: "int option"       \<comment> \<open>\<open>None\<close> is \<open>NaN\<close>\<close>
  pr_bytesPerSecond :: "int option"

end
