(* ===== verification/Hlc.thy ===== *)
theory Hlc
  imports Types
begin

text \<open>
  The hybrid logical clock of packages/peer-client/src/sync.ts.  \<open>Date.now()\<close> is the
  argument \<open>now\<close>, which nothing constrains: the wall clock may jump in either direction.
  The comparison is shown to be a strict total order, which then becomes the order of the type.
\<close>

definition createHLC :: "int \<Rightarrow> string \<Rightarrow> hlc option \<Rightarrow> hlc" where
  "createHLC now node existing =
     (case existing of
        None \<Rightarrow> HLC now 0 node
      | Some e \<Rightarrow>
          let ts = max now (hlc_ts e);
              counter = (if ts = hlc_ts e then hlc_counter e + 1 else 0)
          in HLC ts counter node)"

definition mergeHLC :: "int \<Rightarrow> hlc \<Rightarrow> hlc \<Rightarrow> string \<Rightarrow> hlc" where
  "mergeHLC now local remote node =
     (let maxTs = max now (max (hlc_ts local) (hlc_ts remote));
          counter =
            (if maxTs = hlc_ts local \<and> maxTs = hlc_ts remote
             then max (hlc_counter local) (hlc_counter remote) + 1
             else if maxTs = hlc_ts local then hlc_counter local + 1
             else if maxTs = hlc_ts remote then hlc_counter remote + 1
             else 0)
      in HLC maxTs counter node)"

definition compareHLC :: "hlc \<Rightarrow> hlc \<Rightarrow> int" where
  "compareHLC a b =
     (if hlc_ts a \<noteq> hlc_ts b then hlc_ts a - hlc_ts b
      else if hlc_counter a \<noteq> hlc_counter b then hlc_counter a - hlc_counter b
      else if hlc_node a < hlc_node b then -1
      else if hlc_node a > hlc_node b then 1 else 0)"

section \<open>The order\<close>

lemma compareHLC_eq_0: "compareHLC a b = 0 \<longleftrightarrow> a = b"
  by (cases a; cases b) (auto simp: compareHLC_def)

lemma compareHLC_antisym: "compareHLC a b < 0 \<longleftrightarrow> compareHLC b a > 0"
  by (auto simp: compareHLC_def)

lemma compareHLC_trans: "compareHLC a b < 0 \<Longrightarrow> compareHLC b c < 0 \<Longrightarrow> compareHLC a c < 0"
  by (auto simp: compareHLC_def split: if_splits)

instantiation hlc :: linorder
begin

definition less_hlc :: "hlc \<Rightarrow> hlc \<Rightarrow> bool" where
  "less_hlc a b \<longleftrightarrow> compareHLC a b < 0"

definition less_eq_hlc :: "hlc \<Rightarrow> hlc \<Rightarrow> bool" where
  "less_eq_hlc a b \<longleftrightarrow> compareHLC a b \<le> 0"

instance
proof
  fix x y z :: hlc
  show "(x < y) = (x \<le> y \<and> \<not> y \<le> x)"
    using compareHLC_eq_0 [of x y] compareHLC_eq_0 [of y x] compareHLC_antisym [of x y]
    by (auto simp: less_hlc_def less_eq_hlc_def)
  show "x \<le> x" using compareHLC_eq_0 [of x x] by (simp add: less_eq_hlc_def)
  show "x \<le> y \<Longrightarrow> y \<le> z \<Longrightarrow> x \<le> z"
    using compareHLC_trans [of x y z] compareHLC_eq_0 [of x y] compareHLC_eq_0 [of y z]
    by (auto simp: less_eq_hlc_def le_less)
  show "x \<le> y \<Longrightarrow> y \<le> x \<Longrightarrow> x = y"
    using compareHLC_eq_0 [of x y] compareHLC_antisym [of x y] by (auto simp: less_eq_hlc_def)
  show "x \<le> y \<or> y \<le> x"
    using compareHLC_antisym [of y x] compareHLC_antisym [of x y]
    by (auto simp: less_eq_hlc_def)
qed

end

lemma compareHLC_pos [js_simps]: "compareHLC a b > 0 \<longleftrightarrow> b < a"
  using compareHLC_antisym [of b a] by (simp add: less_hlc_def)

lemma compareHLC_neg [js_simps]: "compareHLC a b < 0 \<longleftrightarrow> a < b"
  by (simp add: less_hlc_def)

section \<open>The clock only moves forward\<close>

lemma createHLC_gt: "e < createHLC now n (Some e)"
  by (auto simp: less_hlc_def compareHLC_def createHLC_def Let_def)

lemma createHLC_node [simp]: "hlc_node (createHLC now n e) = n"
  by (simp add: createHLC_def Let_def split: option.split)

lemma mergeHLC_node [simp]: "hlc_node (mergeHLC now l r n) = n"
  by (simp add: mergeHLC_def Let_def)

lemma mergeHLC_gt_local: "l < mergeHLC now l r n"
  by (auto simp: less_hlc_def compareHLC_def mergeHLC_def Let_def)

lemma mergeHLC_gt_remote: "r < mergeHLC now l r n"
  by (auto simp: less_hlc_def compareHLC_def mergeHLC_def Let_def)

lemmas clock_gt = createHLC_gt mergeHLC_gt_local mergeHLC_gt_remote

lemma createHLC_ts_ge: "now \<le> hlc_ts (createHLC now n e)"
  by (simp add: createHLC_def Let_def split: option.split)

text \<open>
  The comparison the replicas order their entries by is a strict total order: it is 0 only
  for equal stamps, swapping the arguments swaps the sign, and it is transitive.
\<close>

theorem compareHLC_total_order:
  "(compareHLC a b = 0 \<longleftrightarrow> a = b)
   \<and> (compareHLC a b < 0 \<longleftrightarrow> compareHLC b a > 0)
   \<and> (compareHLC a b < 0 \<and> compareHLC b c < 0 \<longrightarrow> compareHLC a c < 0)"
  using compareHLC_eq_0 compareHLC_antisym compareHLC_trans by blast

theorem compareHLC_total_order_witness:
  "compareHLC (HLC 1 0 ''a'') (HLC 1 0 ''b'') < 0 \<and> compareHLC (HLC 1 0 ''b'') (HLC 1 1 ''a'') < 0
   \<and> compareHLC (HLC 1 0 ''a'') (HLC 1 1 ''a'') < 0"
proof -
  have "compareHLC (HLC 1 0 ''a'') (HLC 1 0 ''b'') < 0"
    and "compareHLC (HLC 1 0 ''b'') (HLC 1 1 ''a'') < 0"
    by (simp_all add: compareHLC_def)
  with compareHLC_total_order [of "HLC 1 0 ''a''" "HLC 1 0 ''b''" "HLC 1 1 ''a''"]
  show ?thesis by blast
qed

text \<open>
  A tick is strictly later than the clock it ticks, and a merge is strictly later than both
  the local clock and the remote stamp, whatever the wall clock reads (it may have gone
  backwards); the result is stamped with the local node.
\<close>

theorem hlc_advances:
  "compareHLC (createHLC now n (Some c)) c > 0
   \<and> compareHLC (mergeHLC now c r n) c > 0
   \<and> compareHLC (mergeHLC now c r n) r > 0
   \<and> hlc_node (createHLC now n (Some c)) = n \<and> hlc_node (mergeHLC now c r n) = n"
  by (simp add: compareHLC_pos clock_gt)

end
