(* ===== verification/Lww.thy ===== *)
theory Lww
  imports Prelude
begin

text \<open>
  Last-writer-wins replication, stated once for every component that keeps a keyed state and
  lets the entry with the larger stamp win (\<open>StateSync\<close> in sync.ts and
  \<open>OfflineSyncRoom\<close> in offline-sync-room.ts).  \<open>lww_put\<close> is the
  specification of one delivery; \<open>lww_covers\<close> says a state is the winner of a set of
  entries; the locale \<open>lww_replica\<close> is the contract a component's step function
  has to meet, and its theorem is strong eventual consistency: replicas that have seen the same
  set of entries, in whatever order and with whatever repetition, agree.
\<close>

definition lww_put :: "('e \<Rightarrow> 'k) \<Rightarrow> ('e \<Rightarrow> 's::linorder) \<Rightarrow> 'e \<Rightarrow> ('k \<rightharpoonup> 'e) \<Rightarrow> ('k \<rightharpoonup> 'e)" where
  "lww_put keyof stamp e m =
     (case m (keyof e) of
        None \<Rightarrow> m(keyof e \<mapsto> e)
      | Some l \<Rightarrow> if stamp l < stamp e then m(keyof e \<mapsto> e) else m)"

definition lww_consistent :: "('e \<Rightarrow> 'k) \<Rightarrow> ('e \<Rightarrow> 's) \<Rightarrow> 'e set \<Rightarrow> bool" where
  "lww_consistent keyof stamp E \<longleftrightarrow>
     (\<forall>a\<in>E. \<forall>b\<in>E. keyof a = keyof b \<longrightarrow> stamp a = stamp b \<longrightarrow> a = b)"

definition lww_covers :: "('e \<Rightarrow> 'k) \<Rightarrow> ('e \<Rightarrow> 's::linorder) \<Rightarrow> 'e set \<Rightarrow> ('k \<rightharpoonup> 'e) \<Rightarrow> bool" where
  "lww_covers keyof stamp E m \<longleftrightarrow>
     (\<forall>k. case m k of
            None \<Rightarrow> \<forall>e\<in>E. keyof e \<noteq> k
          | Some e \<Rightarrow> e \<in> E \<and> keyof e = k \<and> (\<forall>e'\<in>E. keyof e' = k \<longrightarrow> stamp e' \<le> stamp e))"

lemma lww_covers_empty: "lww_covers keyof stamp {} Map.empty"
  by (simp add: lww_covers_def)

lemma lww_covers_put:
  assumes "lww_covers keyof stamp E m"
  shows "lww_covers keyof stamp (insert e E) (lww_put keyof stamp e m)"
  unfolding lww_covers_def
proof
  fix k
  have old: "case m k of
            None \<Rightarrow> \<forall>e\<in>E. keyof e \<noteq> k
          | Some e \<Rightarrow> e \<in> E \<and> keyof e = k \<and> (\<forall>e'\<in>E. keyof e' = k \<longrightarrow> stamp e' \<le> stamp e)"
    using assms by (simp add: lww_covers_def)
  show "case lww_put keyof stamp e m k of
            None \<Rightarrow> \<forall>e\<in>insert e E. keyof e \<noteq> k
          | Some e' \<Rightarrow> e' \<in> insert e E \<and> keyof e' = k \<and>
              (\<forall>e''\<in>insert e E. keyof e'' = k \<longrightarrow> stamp e'' \<le> stamp e')"
  proof (cases "keyof e = k")
    case True
    with old show ?thesis
      by (cases "m k") (auto simp: lww_put_def not_less intro: order_trans less_imp_le)
  next
    case False
    then have "lww_put keyof stamp e m k = m k"
      by (auto simp: lww_put_def split: option.splits)
    with old False show ?thesis by (auto split: option.splits)
  qed
qed

lemma lww_covers_fold:
  "lww_covers keyof stamp E m \<Longrightarrow>
   lww_covers keyof stamp (E \<union> set es) (fold (lww_put keyof stamp) es m)"
proof (induction es arbitrary: E m)
  case Nil
  then show ?case by simp
next
  case (Cons e es)
  from Cons.IH [OF lww_covers_put [OF Cons.prems]] show ?case by simp
qed

lemma lww_covers_unique:
  assumes "lww_covers keyof stamp E m" "lww_covers keyof stamp E m'"
    and "lww_consistent keyof stamp E"
  shows "m = m'"
proof
  fix k
  have a: "case m k of None \<Rightarrow> \<forall>e\<in>E. keyof e \<noteq> k
      | Some e \<Rightarrow> e \<in> E \<and> keyof e = k \<and> (\<forall>e'\<in>E. keyof e' = k \<longrightarrow> stamp e' \<le> stamp e)"
    and b: "case m' k of None \<Rightarrow> \<forall>e\<in>E. keyof e \<noteq> k
      | Some e \<Rightarrow> e \<in> E \<and> keyof e = k \<and> (\<forall>e'\<in>E. keyof e' = k \<longrightarrow> stamp e' \<le> stamp e)"
    using assms(1,2) by (simp_all add: lww_covers_def)
  show "m k = m' k"
  proof (cases "m k")
    case None
    with a b show ?thesis by (cases "m' k") auto
  next
    case (Some e)
    with a b obtain e' where e': "m' k = Some e'" by (cases "m' k") auto
    with a b Some have "stamp e = stamp e'" by (auto intro: antisym)
    with a b Some e' assms(3) have "e = e'" by (auto simp: lww_consistent_def)
    with Some e' show ?thesis by simp
  qed
qed

text \<open>Delivering an entry twice, or two entries in either order, makes no difference.\<close>

lemma lww_put_idem: "lww_put keyof stamp e (lww_put keyof stamp e m) = lww_put keyof stamp e m"
  by (auto simp: lww_put_def split: option.splits)

lemma lww_put_commute:
  assumes "keyof a = keyof b \<Longrightarrow> stamp a = stamp b \<Longrightarrow> a = b"
  shows "lww_put keyof stamp a (lww_put keyof stamp b m) = lww_put keyof stamp b (lww_put keyof stamp a m)"
  using assms
  by (cases "keyof a = keyof b"; cases "stamp a" "stamp b" rule: linorder_cases)
    (auto simp: lww_put_def fun_upd_twist split: option.splits)

lemma lww_put_stays:
  "m k = Some e \<Longrightarrow> (keyof x = k \<Longrightarrow> stamp x \<le> stamp e) \<Longrightarrow> lww_put keyof stamp x m k = Some e"
  by (auto simp: lww_put_def split: option.split)

lemma lww_fold_stays:
  "m k = Some e \<Longrightarrow> \<forall>x\<in>set es. keyof x = k \<longrightarrow> stamp x \<le> stamp e \<Longrightarrow> fold (lww_put keyof stamp) es m k = Some e"
  by (induction es arbitrary: m) (simp_all add: lww_put_stays)

section \<open>The contract of a replica\<close>

fun history :: "('s \<Rightarrow> 'e \<Rightarrow> 's \<times> 'o list) \<Rightarrow> ('s \<Rightarrow> 'e \<Rightarrow> 'a list) \<Rightarrow> 's \<Rightarrow> 'e list \<Rightarrow> 'a list" where
  "history step seen s [] = []"
| "history step seen s (e # es) = seen s e @ history step seen (fst (step s e)) es"

locale lww_replica = machine step inv ok
  for step :: "'s \<Rightarrow> 'e \<Rightarrow> 's \<times> 'o list" and inv :: "'s \<Rightarrow> bool" and ok :: "'e \<Rightarrow> bool" +
  fixes get :: "'s \<Rightarrow> 'k \<rightharpoonup> 'a"
    and seen :: "'s \<Rightarrow> 'e \<Rightarrow> 'a list"
    and keyof :: "'a \<Rightarrow> 'k"
    and stamp :: "'a \<Rightarrow> 't::linorder"
  assumes get_step:
    "inv s \<Longrightarrow> ok e \<Longrightarrow> get (fst (step s e)) = fold (lww_put keyof stamp) (seen s e) (get s)"
begin

lemma covers_run:
  "inv s \<Longrightarrow> list_all ok es \<Longrightarrow> lww_covers keyof stamp E (get s) \<Longrightarrow>
   lww_covers keyof stamp (E \<union> set (history step seen s es)) (get (run_state step s es))"
proof (induction es arbitrary: s E)
  case Nil
  then show ?case by simp
next
  case (Cons e es)
  let ?s' = "fst (step s e)"
  have "inv ?s'" using Cons.prems by (simp add: step_inv)
  moreover have "lww_covers keyof stamp (E \<union> set (seen s e)) (get ?s')"
    using Cons.prems by (simp add: get_step lww_covers_fold)
  ultimately have "lww_covers keyof stamp (E \<union> set (seen s e) \<union> set (history step seen ?s' es))
      (get (run_state step ?s' es))"
    using Cons.prems(2) by (intro Cons.IH) simp_all
  then show ?case by (simp add: Un_assoc del: run.simps(2))
qed

text \<open>An entry stays until one with a larger stamp for its key is seen.\<close>

lemma entry_stays:
  assumes "inv s" "list_all ok es" "get s k = Some e"
    and "\<forall>x\<in>set (history step seen s es). keyof x = k \<longrightarrow> stamp x \<le> stamp e"
  shows "get (run_state step s es) k = Some e"
  using assms
proof (induction es arbitrary: s)
  case (Cons f es)
  then have "inv (fst (step s f))" "get (fst (step s f)) k = Some e"
    by (simp_all add: step_inv get_step lww_fold_stays)
  with Cons show ?case by (simp del: run.simps(2))
qed simp

theorem strong_eventual_consistency:
  assumes "inv s" "get s = Map.empty" "list_all ok es"
    and "inv s'" "get s' = Map.empty" "list_all ok es'"
    and same: "set (history step seen s es) = set (history step seen s' es')"
    and cons: "lww_consistent keyof stamp (set (history step seen s es))"
  shows "get (run_state step s es) = get (run_state step s' es')"
proof -
  let ?E = "set (history step seen s es)"
  have "lww_covers keyof stamp ?E (get (run_state step s es))"
    using covers_run [of s es "{}"] assms(1-3) by (simp add: lww_covers_empty)
  moreover have "lww_covers keyof stamp ?E (get (run_state step s' es'))"
    using covers_run [of s' es' "{}"] assms(4-6) same by (simp add: lww_covers_empty)
  ultimately show ?thesis using cons by (rule lww_covers_unique)
qed

end

end
