(* ===== verification/Sync.thy ===== *)
theory Sync
  imports Hlc Lww
begin

text \<open>
  The class \<open>StateSync\<close> of packages/peer-client/src/sync.ts: a keyed state replicated
  over room broadcasts and relays, ordered by the hybrid logical clock.  A method is a function
  from the object's fields to the new fields and the actions it performs in order (events it
  emits, payloads it hands to the client).  The fingerprint of the client and the readings of
  \<open>Date.now()\<close> are arguments: \<open>clk i\<close> is the \<open>i\<close>-th reading
  within one call.
\<close>

section \<open>State, payloads and actions\<close>

text \<open>
  What arrives as an entry of a payload: nothing (\<open>undefined\<close> or \<open>null\<close>), an
  object without a stamp, or an entry.  The code tells the three apart by \<open>remote?.hlc\<close>.
\<close>

datatype sync_wire = NoEntry | NoHlc | Wire sync_state

datatype sync_body =
    Update sync_wire
  | Delete sync_wire
  | FullState "sync_wire list option"  \<comment> \<open>\<open>None\<close>: the field \<open>state\<close> is missing\<close>
  | RequestState
  | OtherBody

record sync_payload =
  sp_sync :: bool
  sp_room :: "string option"
  sp_body :: sync_body

datatype sync_action =
    StateChanged string js string
  | Conflict string js js js
  | Synced string
  | SyncError string
  | Broadcast string sync_payload
  | Relay string sync_payload
  | ThrowTypeError

record statesync =
  ss_state :: "(string, sync_state) jsmap"
  ss_mode :: sync_mode
  ss_merge :: "(js \<Rightarrow> js \<Rightarrow> js) option"
  ss_hlc :: hlc
  ss_roomId :: string
  ss_attached :: nat    \<comment> \<open>how many times the listeners of \<open>start\<close> are attached\<close>
  ss_intervals :: nat   \<comment> \<open>live intervals that purge tombstones\<close>
  ss_timer :: bool      \<comment> \<open>\<open>tombstoneTimer\<close> is set\<close>

type_synonym clock = "nat \<Rightarrow> int"

section \<open>The methods\<close>

definition new_StateSync ::
  "string \<Rightarrow> int \<Rightarrow> string \<Rightarrow> sync_mode \<Rightarrow> (js \<Rightarrow> js \<Rightarrow> js) option \<Rightarrow> string + statesync" where
  "new_StateSync me now roomId mode merge =
     (if mode = Operational \<and> merge = None
      then Inl ''Operational sync requires a merge function''
      else Inr \<lparr>ss_state = [], ss_mode = mode, ss_merge = merge, ss_hlc = HLC now 0 me,
                ss_roomId = roomId, ss_attached = 0, ss_intervals = 0, ss_timer = False\<rparr>)"

definition ss_start :: "statesync \<Rightarrow> statesync" where
  "ss_start s = s\<lparr>ss_attached := ss_attached s + 1, ss_intervals := ss_intervals s + 1,
                  ss_timer := True\<rparr>"

definition ss_tick :: "string \<Rightarrow> int \<Rightarrow> statesync \<Rightarrow> hlc \<times> statesync" where
  "ss_tick me now s = (let h = createHLC now me (Some (ss_hlc s)) in (h, s\<lparr>ss_hlc := h\<rparr>))"

definition local_entry :: "string \<Rightarrow> hlc \<Rightarrow> string \<Rightarrow> js \<Rightarrow> bool \<Rightarrow> sync_state" where
  "local_entry me h k v del =
     \<lparr>e_key = k, e_val = v, e_hlc = h, e_from = me, e_version = hlc_counter h, e_deleted = del\<rparr>"

definition ss_put :: "sync_state \<Rightarrow> statesync \<Rightarrow> statesync" where
  "ss_put e s = s\<lparr>ss_state := map_set (e_key e) e (ss_state s)\<rparr>"

definition ss_set :: "string \<Rightarrow> clock \<Rightarrow> string \<Rightarrow> js \<Rightarrow> statesync \<Rightarrow> statesync \<times> sync_action list" where
  "ss_set me clk k v s =
     (let (h, s1) = ss_tick me (clk 0) s;
          entry = local_entry me h k v False
      in (ss_put entry s1,
          [StateChanged k v me,
           Broadcast (ss_roomId s) \<lparr>sp_sync = True, sp_room = None, sp_body = Update (Wire entry)\<rparr>]))"

definition ss_delete :: "string \<Rightarrow> clock \<Rightarrow> string \<Rightarrow> statesync \<Rightarrow> statesync \<times> sync_action list" where
  "ss_delete me clk k s =
     (let (h, s1) = ss_tick me (clk 0) s;
          entry = local_entry me h k Undef True
      in (ss_put entry s1,
          [Broadcast (ss_roomId s) \<lparr>sp_sync = True, sp_room = None, sp_body = Delete (Wire entry)\<rparr>,
           StateChanged k Undef me]))"

definition ss_get :: "statesync \<Rightarrow> string \<Rightarrow> js" where
  "ss_get s k =
     (case map_get (ss_state s) k of
        None \<Rightarrow> Undef
      | Some e \<Rightarrow> if e_deleted e then Undef else e_val e)"

definition ss_getAll :: "statesync \<Rightarrow> (string, js) jsmap" where
  "ss_getAll s = map (\<lambda>(k, e). (k, e_val e)) (filter (\<lambda>(k, e). \<not> e_deleted e) (ss_state s))"

definition newer :: "sync_state \<Rightarrow> sync_state option \<Rightarrow> bool" where
  "newer remote local =
     (case local of None \<Rightarrow> True | Some l \<Rightarrow> compareHLC (e_hlc remote) (e_hlc l) > 0)"

definition ss_merge_clock :: "string \<Rightarrow> int \<Rightarrow> hlc \<Rightarrow> statesync \<Rightarrow> statesync" where
  "ss_merge_clock me now h s = s\<lparr>ss_hlc := mergeHLC now (ss_hlc s) h me\<rparr>"

fun handleFullState ::
  "string \<Rightarrow> clock \<Rightarrow> nat \<Rightarrow> sync_wire list \<Rightarrow> string \<Rightarrow> statesync \<Rightarrow> statesync \<times> sync_action list" where
  "handleFullState me clk i [] from s = (s, [Synced from])"
| "handleFullState me clk i (Wire remote # ws) from s =
     (let s1 = ss_merge_clock me (clk i) (e_hlc remote) s;
          fresh = newer remote (map_get (ss_state s1) (e_key remote));
          s2 = (if fresh then ss_put remote s1 else s1);
          out = (if fresh \<and> \<not> e_deleted remote
                 then [StateChanged (e_key remote) (e_val remote) from] else []);
          (s3, outs) = handleFullState me clk (Suc i) ws from s2
      in (s3, out @ outs))"
| "handleFullState me clk i (w # ws) from s = handleFullState me clk i ws from s"

definition full_payload :: "statesync \<Rightarrow> string option \<Rightarrow> sync_payload" where
  "full_payload s room =
     \<lparr>sp_sync = True, sp_room = room,
      sp_body = FullState (Some (map Wire (map_vals (ss_state s))))\<rparr>"

definition broadcastFullState :: "statesync \<Rightarrow> sync_action list" where
  "broadcastFullState s =
     (if ss_state s = [] then [] else [Broadcast (ss_roomId s) (full_payload s None)])"

definition sendStateTo :: "statesync \<Rightarrow> string \<Rightarrow> sync_action list" where
  "sendStateTo s fp =
     (if ss_state s = [] then [] else [Relay fp (full_payload s (Some (ss_roomId s)))])"

definition requestFullState :: "statesync \<Rightarrow> string \<Rightarrow> sync_action list" where
  "requestFullState s fp =
     [Relay fp \<lparr>sp_sync = True, sp_room = Some (ss_roomId s), sp_body = RequestState\<rparr>]"

definition handle_update ::
  "string \<Rightarrow> clock \<Rightarrow> sync_state \<Rightarrow> string \<Rightarrow> statesync \<Rightarrow> statesync \<times> sync_action list" where
  "handle_update me clk remote from s =
     (let s1 = ss_merge_clock me (clk 0) (e_hlc remote) s;
          k = e_key remote;
          local = map_get (ss_state s1) k
      in case ss_mode s of
           Lww \<Rightarrow>
             if newer remote local
             then (ss_put remote s1, [StateChanged k (e_val remote) from, Synced from])
             else (s1, [Synced from])
         | Operational \<Rightarrow>
             (case local of
                None \<Rightarrow> (ss_put remote s1, [StateChanged k (e_val remote) from, Synced from])
              | Some l \<Rightarrow>
                  if e_deleted l
                  then (ss_put remote s1, [StateChanged k (e_val remote) from, Synced from])
                  else (case ss_merge s of
                          None \<Rightarrow> (s1, [ThrowTypeError])
                        | Some merge \<Rightarrow>
                            let merged = merge (e_val l) (e_val remote);
                                (h, s2) = ss_tick me (clk 1) s1;
                                entry = local_entry me h k merged False
                            in (ss_put entry s2,
                                [StateChanged k merged from,
                                 Conflict k (e_val l) (e_val remote) merged, Synced from])))
         | Crdt \<Rightarrow> (s1, [SyncError ''CRDT mode requires CRDTSync class'', Synced from]))"

definition handle_delete ::
  "string \<Rightarrow> clock \<Rightarrow> sync_state \<Rightarrow> string \<Rightarrow> statesync \<Rightarrow> statesync \<times> sync_action list" where
  "handle_delete me clk remote from s =
     (let s1 = ss_merge_clock me (clk 0) (e_hlc remote) s
      in if newer remote (map_get (ss_state s1) (e_key remote))
         then (ss_put remote s1, [StateChanged (e_key remote) Undef from, Synced from])
         else (s1, [Synced from]))"

fun handleRemoteUpdate ::
  "string \<Rightarrow> clock \<Rightarrow> sync_body \<Rightarrow> string \<Rightarrow> statesync \<Rightarrow> statesync \<times> sync_action list" where
  "handleRemoteUpdate me clk (FullState (Some ws)) from s = handleFullState me clk 0 ws from s"
| "handleRemoteUpdate me clk (FullState None) from s = (s, [ThrowTypeError])"
| "handleRemoteUpdate me clk RequestState from s = (s, sendStateTo s from)"
| "handleRemoteUpdate me clk (Delete (Wire remote)) from s = handle_delete me clk remote from s"
| "handleRemoteUpdate me clk (Update (Wire remote)) from s = handle_update me clk remote from s"
| "handleRemoteUpdate me clk body from s = (s, [])"

fun loadState :: "string \<Rightarrow> clock \<Rightarrow> nat \<Rightarrow> sync_state list \<Rightarrow> statesync \<Rightarrow> statesync" where
  "loadState me clk i [] s = s"
| "loadState me clk i (e # es) s =
     (let s1 = (if newer e (map_get (ss_state s) (e_key e)) then ss_put e s else s)
      in loadState me clk (Suc i) es (ss_merge_clock me (clk i) (e_hlc e) s1))"

definition expired :: "int \<Rightarrow> sync_state \<Rightarrow> bool" where
  "expired now e \<longleftrightarrow> e_deleted e \<and> now - hlc_ts (e_hlc e) > TOMBSTONE_TTL"

definition purgeTombstones :: "int \<Rightarrow> statesync \<Rightarrow> statesync" where
  "purgeTombstones now s = s\<lparr>ss_state := filter (\<lambda>(k, e). \<not> expired now e) (ss_state s)\<rparr>"

definition ss_destroy :: "statesync \<Rightarrow> statesync" where
  "ss_destroy s =
     s\<lparr>ss_attached := 0,
       ss_intervals := (if ss_timer s then ss_intervals s - 1 else ss_intervals s),
       ss_timer := False, ss_state := []\<rparr>"

section \<open>The object as a machine\<close>

text \<open>
  The calls a user makes and the callbacks the client and the interval timer make.  A callback of
  the client runs once for every time \<open>start\<close> attached its listener; run \<open>j\<close>
  reads the clock \<open>clk j\<close>.
\<close>

datatype sync_event =
    Start
  | SetKey string js
  | DeleteKey string
  | OnBroadcast string string sync_payload
  | OnRelay string sync_payload
  | OnPeerJoined
  | Load "sync_state list"
  | RequestFull string
  | PurgeTick
  | Destroy

fun attached_times :: "nat \<Rightarrow> (nat \<Rightarrow> 's \<Rightarrow> 's \<times> 'o list) \<Rightarrow> 's \<Rightarrow> 's \<times> 'o list" where
  "attached_times 0 f s = (s, [])"
| "attached_times (Suc n) f s =
     (let (s1, out) = attached_times n f s; (s2, out') = f n s1 in (s2, out @ out'))"

fun ss_step ::
  "statesync \<Rightarrow> string \<times> (nat \<Rightarrow> clock) \<times> sync_event \<Rightarrow> statesync \<times> sync_action list" where
  "ss_step s (me, clk, Start) = (ss_start s, [])"
| "ss_step s (me, clk, SetKey k v) = ss_set me (clk 0) k v s"
| "ss_step s (me, clk, DeleteKey k) = ss_delete me (clk 0) k s"
| "ss_step s (me, clk, OnBroadcast from ns p) =
     attached_times (ss_attached s)
       (\<lambda>j s. if ns = ss_roomId s \<and> sp_sync p
              then handleRemoteUpdate me (clk j) (sp_body p) from s else (s, [])) s"
| "ss_step s (me, clk, OnRelay from p) =
     attached_times (ss_attached s)
       (\<lambda>j s. if sp_sync p \<and> sp_room p = Some (ss_roomId s)
              then handleRemoteUpdate me (clk j) (sp_body p) from s else (s, [])) s"
| "ss_step s (me, clk, OnPeerJoined) =
     attached_times (ss_attached s) (\<lambda>j s. (s, broadcastFullState s)) s"
| "ss_step s (me, clk, Load es) = (loadState me (clk 0) 0 es s, [])"
| "ss_step s (me, clk, RequestFull fp) = (s, requestFullState s fp)"
| "ss_step s (me, clk, PurgeTick) =
     (if ss_intervals s > 0 then (purgeTombstones (clk 0 0) s, []) else (s, []))"
| "ss_step s (me, clk, Destroy) = (ss_destroy s, [])"

section \<open>The invariant: the clock dominates the state\<close>

text \<open>
  Keys are unique, an entry is stored under its own key, and no stored entry is stamped later than
  the object's clock.  The last conjunct is what makes a local write win over everything stored.
\<close>

abbreviation ss_entries :: "statesync \<Rightarrow> string \<rightharpoonup> sync_state" where
  "ss_entries s \<equiv> map_get (ss_state s)"

definition ss_inv :: "statesync \<Rightarrow> bool" where
  "ss_inv s \<longleftrightarrow> map_wf (ss_state s) \<and>
     (\<forall>k e. ss_entries s k = Some e \<longrightarrow> e_key e = k \<and> e_hlc e \<le> ss_hlc s)"

text \<open>
  What every method guarantees from a state that satisfies the invariant: the invariant again, a
  clock that has not gone back, the configuration unchanged.
\<close>

definition ss_adv :: "statesync \<Rightarrow> statesync \<Rightarrow> bool" where
  "ss_adv s s' \<longleftrightarrow> ss_inv s' \<and> ss_hlc s \<le> ss_hlc s' \<and> ss_mode s' = ss_mode s
     \<and> ss_roomId s' = ss_roomId s \<and> ss_merge s' = ss_merge s"

lemma ss_inv_new: "new_StateSync me now room mode merge = Inr s \<Longrightarrow> ss_inv s"
  by (auto simp: new_StateSync_def ss_inv_def split: if_splits)

lemma ss_adv_refl [inv_intros]: "ss_inv s \<Longrightarrow> ss_adv s s"
  by (simp add: ss_adv_def)

lemma ss_adv_inv: "ss_adv s s' \<Longrightarrow> ss_inv s'"
  by (simp add: ss_adv_def)

lemma ss_adv_trans: "ss_adv s s' \<Longrightarrow> ss_adv s' s'' \<Longrightarrow> ss_adv s s''"
  by (auto simp: ss_adv_def)

lemma ss_adv_put [inv_intros]: "ss_inv s \<Longrightarrow> e_hlc e \<le> ss_hlc s \<Longrightarrow> ss_adv s (ss_put e s)"
  by (auto simp: ss_adv_def ss_inv_def ss_put_def)

lemma ss_adv_clock [inv_intros]: "ss_inv s \<Longrightarrow> ss_hlc s \<le> h \<Longrightarrow> ss_adv s (s\<lparr>ss_hlc := h\<rparr>)"
  by (fastforce simp: ss_adv_def ss_inv_def intro: order_trans)

lemma ss_adv_merge_clock [inv_intros]: "ss_inv s \<Longrightarrow> ss_adv s (ss_merge_clock me now h s)"
  unfolding ss_merge_clock_def by (rule ss_adv_clock) (auto intro: less_imp_le clock_gt)

lemma ss_merge_clock_ge: "h \<le> ss_hlc (ss_merge_clock me now h s)"
  by (auto simp: ss_merge_clock_def intro: less_imp_le clock_gt)

lemma ss_merge_clock_entries [simp]: "ss_state (ss_merge_clock me now h s) = ss_state s"
  by (simp add: ss_merge_clock_def)

lemma ss_put_hlc [simp]: "ss_hlc (ss_put e s) = ss_hlc s"
  by (simp add: ss_put_def)

text \<open>Storing what was just stamped or just merged keeps the invariant.\<close>

lemma ss_adv_receive:
  "ss_inv s \<Longrightarrow> ss_adv s (ss_put e (ss_merge_clock me now (e_hlc e) s))"
  by (meson ss_adv_inv ss_adv_merge_clock ss_adv_put ss_adv_trans ss_merge_clock_ge)

lemma ss_tick_simps [simp]:
  "fst (ss_tick me now s) = createHLC now me (Some (ss_hlc s))"
  "snd (ss_tick me now s) = s\<lparr>ss_hlc := createHLC now me (Some (ss_hlc s))\<rparr>"
  by (simp_all add: ss_tick_def Let_def)

lemma ss_adv_write:
  assumes "ss_inv s" "e_hlc e = createHLC now me (Some (ss_hlc s))"
  shows "ss_adv s (ss_put e (s\<lparr>ss_hlc := createHLC now me (Some (ss_hlc s))\<rparr>))"
proof -
  have "ss_adv s (s\<lparr>ss_hlc := e_hlc e\<rparr>)"
    using assms by (intro ss_adv_clock) (simp_all add: less_imp_le createHLC_gt)
  moreover from this have "ss_adv (s\<lparr>ss_hlc := e_hlc e\<rparr>) (ss_put e (s\<lparr>ss_hlc := e_hlc e\<rparr>))"
    by (intro ss_adv_put) (auto intro: ss_adv_inv)
  ultimately show ?thesis using assms(2) by (auto intro: ss_adv_trans)
qed

lemma local_entry_simps [simp]:
  "e_hlc (local_entry me h k v d) = h" "e_key (local_entry me h k v d) = k"
  "e_val (local_entry me h k v d) = v" "e_deleted (local_entry me h k v d) = d"
  "e_from (local_entry me h k v d) = me"
  by (simp_all add: local_entry_def)

lemma ss_adv_set: "ss_inv s \<Longrightarrow> ss_adv s (fst (ss_set me clk k v s))"
  by (auto simp: ss_set_def Let_def split_def intro: ss_adv_write)

lemma ss_adv_delete: "ss_inv s \<Longrightarrow> ss_adv s (fst (ss_delete me clk k s))"
  by (auto simp: ss_delete_def Let_def split_def intro: ss_adv_write)

lemma ss_adv_full: "ss_inv s \<Longrightarrow> ss_adv s (fst (handleFullState me clk i ws from s))"
proof (induction me clk i ws "from" s rule: handleFullState.induct)
  case (2 me clk i remote ws "from" s)
  let ?s1 = "ss_merge_clock me (clk i) (e_hlc remote) s"
  let ?fresh = "newer remote (map_get (ss_state ?s1) (e_key remote))"
  let ?s2 = "if ?fresh then ss_put remote ?s1 else ?s1"
  have adv: "ss_adv s ?s2"
    using "2.prems" by (simp add: ss_adv_receive ss_adv_merge_clock)
  then have "ss_adv ?s2 (fst (handleFullState me clk (Suc i) ws from ?s2))"
    by (intro "2.IH") (auto intro: ss_adv_inv)
  with adv have "ss_adv s (fst (handleFullState me clk (Suc i) ws from ?s2))"
    by (rule ss_adv_trans)
  then show ?case by (simp add: Let_def split_def)
qed (simp_all add: ss_adv_refl)

lemma ss_adv_update: "ss_inv s \<Longrightarrow> ss_adv s (fst (handle_update me clk e from s))"
proof -
  assume inv: "ss_inv s"
  let ?s1 = "ss_merge_clock me (clk 0) (e_hlc e) s"
  have s1: "ss_adv s ?s1" using inv by (rule ss_adv_merge_clock)
  have w: "ss_adv s (ss_put e' (?s1\<lparr>ss_hlc := createHLC now me (Some (ss_hlc ?s1))\<rparr>))"
    if "e_hlc e' = createHLC now me (Some (ss_hlc ?s1))" for e' now
    using ss_adv_trans [OF s1 ss_adv_write [OF ss_adv_inv [OF s1] that]] .
  show ?thesis
    using s1 ss_adv_receive [OF inv, of e me "clk 0"]
    by (auto simp: handle_update_def Let_def split_def intro: w split: sync_mode.split option.split)
qed

lemma ss_adv_handle_delete: "ss_inv s \<Longrightarrow> ss_adv s (fst (handle_delete me clk e from s))"
  by (simp add: handle_delete_def Let_def ss_adv_receive ss_adv_merge_clock)

lemmas ss_adv_handlers = ss_adv_full ss_adv_update ss_adv_handle_delete ss_adv_refl

lemma ss_adv_remote: "ss_inv s \<Longrightarrow> ss_adv s (fst (handleRemoteUpdate me clk body from s))"
  by (cases "(me, clk, body, from, s)" rule: handleRemoteUpdate.cases)
    (simp_all add: ss_adv_handlers)

lemma ss_put_clock_commute:
  "ss_put e (ss_merge_clock me now h s) = ss_merge_clock me now h (ss_put e s)"
  by (simp add: ss_put_def ss_merge_clock_def)

lemma ss_adv_load: "ss_inv s \<Longrightarrow> ss_adv s (loadState me clk i es s)"
proof (induction me clk i es s rule: loadState.induct)
  case (2 me clk i e es s)
  let ?s1 = "if newer e (map_get (ss_state s) (e_key e)) then ss_put e s else s"
  let ?s2 = "ss_merge_clock me (clk i) (e_hlc e) ?s1"
  have "ss_adv s ?s2"
    using "2.prems" ss_adv_receive [of s e me "clk i", unfolded ss_put_clock_commute]
    by (cases "newer e (ss_entries s (e_key e))") (simp_all add: ss_adv_merge_clock)
  moreover from this have "ss_adv ?s2 (loadState me clk (Suc i) es ?s2)"
    by (intro "2.IH") (auto intro: ss_adv_inv)
  ultimately have "ss_adv s (loadState me clk (Suc i) es ?s2)" by (rule ss_adv_trans)
  then show ?case by (simp add: Let_def)
qed (simp add: ss_adv_refl)

lemma ss_inv_filter: "ss_inv s \<Longrightarrow> ss_inv (s\<lparr>ss_state := filter P (ss_state s)\<rparr>)"
  unfolding ss_inv_def by (auto simp: distinct_map_filter map_wf_get_iff)

lemma ss_adv_purge: "ss_inv s \<Longrightarrow> ss_adv s (purgeTombstones now s)"
  by (auto simp: purgeTombstones_def ss_adv_def intro: ss_inv_filter)

lemma ss_adv_times:
  assumes "ss_inv s" and "\<And>j s. ss_inv s \<Longrightarrow> ss_adv s (fst (f j s))"
  shows "ss_adv s (fst (attached_times n f s))"
proof (induction n)
  case 0
  from assms(1) show ?case by (simp add: ss_adv_refl)
next
  case (Suc n)
  from ss_adv_trans [OF Suc.IH assms(2) [OF ss_adv_inv [OF Suc.IH]]]
  show ?case by (simp add: Let_def split_def)
qed

lemma ss_adv_flags:
  "ss_inv s \<Longrightarrow> ss_adv s (ss_start s)" "ss_inv s \<Longrightarrow> ss_adv s (ss_destroy s)"
  by (auto simp: ss_adv_def ss_inv_def ss_start_def ss_destroy_def)

lemma ss_adv_step: "ss_inv s \<Longrightarrow> ss_adv s (fst (ss_step s ev))"
proof (cases "(s, ev)" rule: ss_step.cases)
qed (auto simp: ss_adv_flags ss_adv_set ss_adv_delete ss_adv_load ss_adv_purge ss_adv_refl ss_adv_remote
      intro!: ss_adv_times)

interpretation statesync_inv: machine ss_step ss_inv "\<lambda>_. True"
  by unfold_locales (auto intro: ss_adv_inv ss_adv_step)

section \<open>In last-writer-wins mode the object is an LWW replica\<close>

abbreviation lww :: "sync_state \<Rightarrow> (string \<rightharpoonup> sync_state) \<Rightarrow> (string \<rightharpoonup> sync_state)" where
  "lww \<equiv> lww_put e_key e_hlc"

fun wires :: "sync_wire list \<Rightarrow> sync_state list" where
  "wires [] = []"
| "wires (Wire e # ws) = e # wires ws"
| "wires (w # ws) = wires ws"

fun body_entries :: "sync_body \<Rightarrow> sync_state list" where
  "body_entries (Update w) = wires [w]"
| "body_entries (Delete w) = wires [w]"
| "body_entries (FullState (Some ws)) = wires ws"
| "body_entries b = []"

text \<open>The entries an event brings to a replica: those it delivers, or the one it stamps.\<close>

fun ss_seen :: "statesync \<Rightarrow> string \<times> (nat \<Rightarrow> clock) \<times> sync_event \<Rightarrow> sync_state list" where
  "ss_seen s (me, clk, SetKey k v) =
     [local_entry me (createHLC (clk 0 0) me (Some (ss_hlc s))) k v False]"
| "ss_seen s (me, clk, DeleteKey k) =
     [local_entry me (createHLC (clk 0 0) me (Some (ss_hlc s))) k Undef True]"
| "ss_seen s (me, clk, OnBroadcast from ns p) =
     (if ns = ss_roomId s \<and> sp_sync p
      then concat (replicate (ss_attached s) (body_entries (sp_body p))) else [])"
| "ss_seen s (me, clk, OnRelay from p) =
     (if sp_sync p \<and> sp_room p = Some (ss_roomId s)
      then concat (replicate (ss_attached s) (body_entries (sp_body p))) else [])"
| "ss_seen s (me, clk, Load es) = es"
| "ss_seen s (me, clk, ev) = []"

fun keeps_tombstones :: "string \<times> (nat \<Rightarrow> clock) \<times> sync_event \<Rightarrow> bool" where
  "keeps_tombstones (me, clk, ev) \<longleftrightarrow> ev \<noteq> PurgeTick \<and> ev \<noteq> Destroy"

lemma entries_put [simp]: "ss_entries (ss_put e s) = (ss_entries s)(e_key e \<mapsto> e)"
  by (simp add: ss_put_def)

lemma lww_newer: "lww e m = (if newer e (m (e_key e)) then m(e_key e \<mapsto> e) else m)"
  by (auto simp: lww_put_def newer_def compareHLC_pos split: option.split)

lemma lww_local_write:
  assumes "ss_inv s" "ss_hlc s < e_hlc e"
  shows "lww e (ss_entries s) = (ss_entries s)(e_key e \<mapsto> e)"
proof -
  have "newer e (ss_entries s (e_key e))"
  proof (cases "ss_entries s (e_key e)")
    case (Some l)
    with assms have "e_hlc l \<le> ss_hlc s" by (simp add: ss_inv_def)
    with Some assms(2) show ?thesis by (simp add: newer_def compareHLC_pos)
  qed (simp add: newer_def)
  then show ?thesis by (simp add: lww_newer)
qed

lemma entries_full:
  "ss_entries (fst (handleFullState me clk i ws from s)) = fold lww (wires ws) (ss_entries s)"
  by (induction me clk i ws "from" s rule: handleFullState.induct)
    (simp_all add: Let_def split_def lww_newer fun_upd_def)

lemma entries_load: "ss_entries (loadState me clk i es s) = fold lww es (ss_entries s)"
  by (induction me clk i es s rule: loadState.induct) (simp_all add: Let_def lww_newer)

lemma entries_remote:
  "ss_mode s = Lww \<Longrightarrow>
   ss_entries (fst (handleRemoteUpdate me clk body from s)) = fold lww (body_entries body) (ss_entries s)"
  by (cases "(me, clk, body, from, s)" rule: handleRemoteUpdate.cases)
    (simp_all add: entries_full handle_delete_def handle_update_def Let_def lww_newer)

lemma entries_times:
  assumes "ss_inv s" "ss_mode s = Lww"
    and f: "\<And>j t. ss_adv s t \<Longrightarrow> ss_adv t (fst (f j t)) \<and> ss_entries (fst (f j t)) = fold lww es (ss_entries t)"
  shows "ss_adv s (fst (attached_times n f s)) \<and>
    ss_entries (fst (attached_times n f s)) = fold lww (concat (replicate n es)) (ss_entries s)"
proof (induction n)
  case 0
  from assms(1) show ?case by (simp add: ss_adv_refl)
next
  case (Suc n)
  have "concat (replicate (Suc n) es) = concat (replicate n es) @ es"
    by (induction n) simp_all
  moreover from Suc.IH f [of "fst (attached_times n f s)" n]
  have "ss_adv s (fst (f n (fst (attached_times n f s))))" by (blast intro: ss_adv_trans)
  ultimately show ?case
    using Suc.IH f [of "fst (attached_times n f s)" n] by (simp add: Let_def split_def)
qed

lemma ss_adv_room: "ss_adv s t \<Longrightarrow> ss_roomId t = ss_roomId s \<and> ss_mode t = ss_mode s \<and> ss_inv t"
  by (simp add: ss_adv_def)

lemma fold_concat_replicate_Nil [simp]: "concat (replicate n []) = []"
  by (induction n) simp_all

lemma entries_listener:
  assumes "ss_inv s" "ss_mode s = Lww"
  shows "ss_entries (fst (attached_times n
      (\<lambda>j t. if G (ss_roomId t) then handleRemoteUpdate me (clk j) body from t else (t, [])) s))
    = fold lww (concat (replicate n (if G (ss_roomId s) then body_entries body else []))) (ss_entries s)"
  using assms
  by (intro entries_times [THEN conjunct2])
    (auto dest!: ss_adv_room simp: entries_remote ss_adv_remote ss_adv_refl)

lemma entries_step:
  assumes "ss_inv s" "ss_mode s = Lww" "keeps_tombstones ev"
  shows "ss_entries (fst (ss_step s ev)) = fold lww (ss_seen s ev) (ss_entries s)"
  using assms
proof (cases "(s, ev)" rule: ss_step.cases)
  case (2 s' me clk k v)
  with assms show ?thesis
    by (simp add: ss_set_def Let_def split_def lww_local_write createHLC_gt)
next
  case (3 s' me clk k)
  with assms show ?thesis
    by (simp add: ss_delete_def Let_def split_def lww_local_write createHLC_gt)
next
  case (4 s' me clk "from" ns p)
  with assms entries_listener [of s "ss_attached s" "\<lambda>r. ns = r \<and> sp_sync p" me clk "sp_body p" "from"]
  show ?thesis by auto
next
  case (5 s' me clk "from" p)
  with assms
    entries_listener [of s "ss_attached s" "\<lambda>r. sp_sync p \<and> sp_room p = Some r" me clk "sp_body p" "from"]
  show ?thesis by auto
next
  case (6 s' me clk)
  with assms entries_times [of s "\<lambda>j t. (t, broadcastFullState t)" "[]" "ss_attached s"]
  show ?thesis by (simp add: ss_adv_refl ss_adv_inv)
qed (auto simp: ss_start_def entries_load)

interpretation statesync: lww_replica
  ss_step "\<lambda>s. ss_inv s \<and> ss_mode s = Lww" keeps_tombstones ss_entries ss_seen e_key e_hlc
proof unfold_locales
  fix s ev
  assume "ss_inv s \<and> ss_mode s = Lww" "keeps_tombstones ev"
  then show "ss_inv (fst (ss_step s ev)) \<and> ss_mode (fst (ss_step s ev)) = Lww"
    using ss_adv_step [of s ev] by (auto simp: ss_adv_def)
next
  fix s ev
  assume "ss_inv s \<and> ss_mode s = Lww" "keeps_tombstones ev"
  then show "ss_entries (fst (ss_step s ev)) = fold lww (ss_seen s ev) (ss_entries s)"
    by (blast intro: entries_step)
qed

section \<open>Properties\<close>

text \<open>
  C2. Whatever calls and callbacks arrive, in whatever mode, an object built by the constructor
  keeps its invariant: keys are unique, every entry is filed under its own key, and the clock is
  at or past the stamp of every entry it holds.
\<close>

theorem statesync_clock_dominates:
  assumes "new_StateSync me now room mode merge = Inr s0"
  shows "ss_inv (run_state ss_step s0 evs)"
  using statesync_inv.run_inv [OF ss_inv_new [OF assms], of evs] by (simp add: list.pred_set)

theorem statesync_clock_dominates_witness:
  "\<exists>s0. new_StateSync ''a'' 5 ''r'' Lww None = Inr s0
     \<and> ss_inv (run_state ss_step s0 [(''a'', \<lambda>_ _. 6, SetKey ''k'' Null), (''a'', \<lambda>_ _. 4, DeleteKey ''k'')])"
proof -
  obtain s0 where s0: "new_StateSync ''a'' 5 ''r'' Lww None = Inr s0" by (simp add: new_StateSync_def)
  from statesync_clock_dominates [OF s0] s0 show ?thesis by blast
qed

text \<open>
  C3. A local write is immediately visible and beats everything the object holds: after
  \<open>set\<close> the key reads back as the value and the broadcast entry would win at any replica
  that holds what this one holds; after \<open>delete\<close> the key reads \<open>undefined\<close>
  and is absent from \<open>getAll\<close>; other keys are untouched.
\<close>

theorem statesync_local_write:
  assumes "ss_inv s"
  shows "ss_get (fst (ss_set me clk k v s)) k = v
    \<and> ss_get (fst (ss_delete me clk k s)) k = Undef
    \<and> k \<notin> set (map_keys (ss_getAll (fst (ss_delete me clk k s))))
    \<and> (k' \<noteq> k \<longrightarrow> ss_get (fst (ss_set me clk k v s)) k' = ss_get s k'
          \<and> ss_get (fst (ss_delete me clk k s)) k' = ss_get s k')
    \<and> (\<exists>e p. snd (ss_set me clk k v s) = [StateChanged k v me, Broadcast (ss_roomId s) p]
          \<and> sp_body p = Update (Wire e) \<and> e_val e = v
          \<and> lww e (ss_entries s) = ss_entries (fst (ss_set me clk k v s)))"
proof -
  have "map_wf (ss_state s)" using assms by (simp add: ss_inv_def)
  then have "map_get (map_set k e (ss_state s)) k = Some e \<and> map_wf (map_set k e (ss_state s))" for e
    by simp
  moreover have "k \<notin> set (map_keys (ss_getAll (fst (ss_delete me clk k s))))"
  proof
    assume "k \<in> set (map_keys (ss_getAll (fst (ss_delete me clk k s))))"
    then obtain e where e: "(k, e) \<in> set (ss_state (fst (ss_delete me clk k s)))" "\<not> e_deleted e"
      by (auto simp: ss_getAll_def)
    moreover have "ss_inv (fst (ss_delete me clk k s))"
      using ss_adv_delete [OF assms] by (rule ss_adv_inv)
    ultimately have "ss_entries (fst (ss_delete me clk k s)) k = Some e"
      by (simp add: ss_inv_def)
    then have "e_deleted e" by (auto simp: ss_delete_def Let_def split_def)
    with e(2) show False by simp
  qed
  ultimately show ?thesis
    using lww_local_write [OF assms, of "local_entry me (createHLC (clk 0) me (Some (ss_hlc s))) k v False"]
    by (auto simp: ss_set_def ss_delete_def Let_def split_def ss_get_def createHLC_gt)
qed

definition demo_sync :: statesync where
  "demo_sync = \<lparr>ss_state = [(''k'', local_entry ''b'' (HLC 9 0 ''b'') ''k'' (JNum 1) False)], ss_mode = Lww,
     ss_merge = None, ss_hlc = HLC 9 1 ''a'', ss_roomId = ''r'', ss_attached = 1, ss_intervals = 1,
     ss_timer = True\<rparr>"

lemma demo_sync_inv: "ss_inv demo_sync"
  by (simp add: ss_inv_def demo_sync_def less_eq_hlc_def compareHLC_def)

theorem statesync_local_write_witness:
  "ss_get (fst (ss_set ''a'' (\<lambda>_. 2) ''k'' Null demo_sync)) ''k'' = Null"
  using statesync_local_write [OF demo_sync_inv] by blast

text \<open>
  C4. Purging tombstones can bring deleted data back: an update older than the tombstone of its
  key is ignored while the tombstone is there, and accepted, so that the deleted key is live
  again with the old value, once the tombstone has expired and been purged.
\<close>

theorem purge_resurrects:
  assumes "ss_inv s" "ss_mode s = Lww" "ss_entries s k = Some t" "expired now t"
    and "e_key e = k" "\<not> e_deleted e" "e_hlc e < e_hlc t"
  shows "ss_get (fst (handleRemoteUpdate me clk (Update (Wire e)) from s)) k = Undef
    \<and> ss_get (fst (handleRemoteUpdate me clk (Update (Wire e)) from (purgeTombstones now s))) k = e_val e"
proof -
  have "ss_entries (fst (handleRemoteUpdate me clk (Update (Wire e)) from s)) k = Some t"
    using assms by (simp add: entries_remote lww_put_def del: handleRemoteUpdate.simps)
  moreover have gone: "ss_entries (purgeTombstones now s) k = None"
    using assms(1,3,4)
    by (auto simp: purgeTombstones_def map_of_eq_None_iff ss_inv_def dest: eq_key_imp_eq_value)
  have "ss_entries (fst (handleRemoteUpdate me clk (Update (Wire e)) from (purgeTombstones now s))) k = Some e"
    using assms gone by (subst entries_remote) (simp_all add: lww_put_def, simp add: purgeTombstones_def)
  ultimately show ?thesis using assms(4,6) by (simp add: ss_get_def expired_def)
qed

definition demo_tomb :: statesync where
  "demo_tomb = demo_sync\<lparr>ss_state := [(''k'', local_entry ''b'' (HLC 9 0 ''b'') ''k'' Undef True)]\<rparr>"

theorem purge_resurrects_witness:
  "ss_get (fst (handleRemoteUpdate ''a'' (\<lambda>_. 70000)
     (Update (Wire (local_entry ''c'' (HLC 8 0 ''c'') ''k'' (JNum 7) False))) ''c''
     (purgeTombstones 70000 demo_tomb))) ''k'' = JNum 7"
proof -
  let ?t = "local_entry ''b'' (HLC 9 0 ''b'') ''k'' Undef True"
  have "ss_inv demo_tomb" "ss_mode demo_tomb = Lww" "ss_entries demo_tomb ''k'' = Some ?t"
    "expired 70000 ?t" "HLC 8 0 ''c'' < HLC 9 0 ''b''"
    by (simp_all add: demo_tomb_def demo_sync_def ss_inv_def expired_def TOMBSTONE_TTL_def
        less_hlc_def less_eq_hlc_def compareHLC_def)
  from purge_resurrects [OF this(1-4), of "local_entry ''c'' (HLC 8 0 ''c'') ''k'' (JNum 7) False"] this(5)
  show ?thesis by simp
qed

end
