(* ===== verification/Sync_Net.thy ===== *)
theory Sync_Net
  imports Sync
begin

text \<open>
  Replicas of \<open>StateSync\<close> in last-writer-wins mode working together.  Every replica has
  its own fingerprint; an event at a replica is one of its methods or a callback, and whatever
  entries a callback or \<open>loadState\<close> brings have been issued by some replica before.  The
  network may delay, reorder, repeat and drop.  The pool of issued entries and the sets of entries
  each replica has seen are ghost state.
\<close>

record sync_net =
  n_rep :: "string \<Rightarrow> statesync"
  n_seen :: "string \<Rightarrow> sync_state set"
  n_pool :: "sync_state set"

fun delivered :: "sync_event \<Rightarrow> sync_state list" where
  "delivered (OnBroadcast from ns p) = body_entries (sp_body p)"
| "delivered (OnRelay from p) = body_entries (sp_body p)"
| "delivered (Load es) = es"
| "delivered ev = []"

definition net_init :: "sync_net \<Rightarrow> bool" where
  "net_init n \<longleftrightarrow> n_pool n = {} \<and> n_seen n = (\<lambda>_. {}) \<and>
     (\<forall>fp. \<exists>now room merge. new_StateSync fp now room Lww merge = Inr (n_rep n fp))"

inductive net_step :: "sync_net \<Rightarrow> string \<times> (nat \<Rightarrow> clock) \<times> sync_event \<Rightarrow> sync_net \<Rightarrow> bool" where
  act: "keeps_tombstones (fp, clk, ev) \<Longrightarrow> set (delivered ev) \<subseteq> n_pool n \<Longrightarrow>
    new = set (ss_seen (n_rep n fp) (fp, clk, ev)) \<Longrightarrow>
    net_step n (fp, clk, ev)
      \<lparr>n_rep = (n_rep n)(fp := fst (ss_step (n_rep n fp) (fp, clk, ev))),
       n_seen = (n_seen n)(fp := n_seen n fp \<union> new),
       n_pool = n_pool n \<union> new\<rparr>"

text \<open>
  The invariant of the network: every replica is well formed and holds the winners of what it has
  seen; a stamp names one issued entry, because the replica that issued it had never stamped so
  late before.
\<close>

definition net_inv :: "sync_net \<Rightarrow> bool" where
  "net_inv n \<longleftrightarrow>
     (\<forall>fp. ss_inv (n_rep n fp) \<and> ss_mode (n_rep n fp) = Lww
           \<and> lww_covers e_key e_hlc (n_seen n fp) (ss_entries (n_rep n fp)) \<and> n_seen n fp \<subseteq> n_pool n)
     \<and> (\<forall>e\<in>n_pool n. e_hlc e \<le> ss_hlc (n_rep n (hlc_node (e_hlc e))))
     \<and> (\<forall>a\<in>n_pool n. \<forall>b\<in>n_pool n. e_hlc a = e_hlc b \<longrightarrow> a = b)"

lemma new_Lww:
  "new_StateSync fp now room Lww merge = Inr s \<Longrightarrow> ss_inv s \<and> ss_mode s = Lww \<and> ss_state s = []"
  by (auto simp: new_StateSync_def ss_inv_def)

lemma net_init_inv: "net_init n \<Longrightarrow> net_inv n"
proof -
  assume init: "net_init n"
  have "ss_inv (n_rep n fp) \<and> ss_mode (n_rep n fp) = Lww \<and> ss_state (n_rep n fp) = []" for fp
    using init by (auto simp: net_init_def dest: new_Lww)
  with init show ?thesis by (simp add: net_init_def net_inv_def lww_covers_empty)
qed

text \<open>An event either delivers issued entries or stamps exactly one new entry.\<close>

lemma seen_cases:
  "set (ss_seen s (fp, clk, ev)) \<subseteq> set (delivered ev)
   \<or> (\<exists>e. ss_seen s (fp, clk, ev) = [e] \<and> hlc_node (e_hlc e) = fp \<and> ss_hlc s < e_hlc e
        \<and> e_hlc e \<le> ss_hlc (fst (ss_step s (fp, clk, ev))))"
  by (cases ev) (auto simp: ss_set_def ss_delete_def Let_def split_def createHLC_gt)

lemma net_step_inv:
  assumes "net_step n e n'" "net_inv n"
  shows "net_inv n'"
  using assms(1)
proof cases
  case (act fp clk ev new)
  note n' = act(2) and ok = act(3) and del = act(4) and new = act(5)
  let ?s = "n_rep n fp" and ?t = "fst (ss_step (n_rep n fp) (fp, clk, ev))"
  have inv: "ss_inv ?s" "ss_mode ?s = Lww" "lww_covers e_key e_hlc (n_seen n fp) (ss_entries ?s)"
    using assms(2) by (auto simp: net_inv_def)
  have adv: "ss_adv ?s ?t" using inv(1) by (rule ss_adv_step)
  have cov: "lww_covers e_key e_hlc (n_seen n fp \<union> new) (ss_entries ?t)"
    using lww_covers_fold [OF inv(3)] entries_step [OF inv(1,2) ok] new by simp
  have pool: "\<forall>e\<in>n_pool n. e_hlc e \<le> ss_hlc (n_rep n (hlc_node (e_hlc e)))"
    and uniq: "\<forall>a\<in>n_pool n. \<forall>b\<in>n_pool n. e_hlc a = e_hlc b \<longrightarrow> a = b"
    using assms(2) by (auto simp: net_inv_def)
  have pool': "\<forall>e\<in>n_pool n \<union> new. e_hlc e \<le> ss_hlc (n_rep n' (hlc_node (e_hlc e)))"
    using seen_cases [of ?s fp clk ev] pool adv del new n'
    by (auto simp: ss_adv_def intro: order_trans)
  have uniq': "\<forall>a\<in>n_pool n \<union> new. \<forall>b\<in>n_pool n \<union> new. e_hlc a = e_hlc b \<longrightarrow> a = b"
    using seen_cases [of ?s fp clk ev]
  proof
    assume "set (ss_seen ?s (fp, clk, ev)) \<subseteq> set (delivered ev)"
    with del new uniq show ?thesis by auto
  next
    assume "\<exists>e. ss_seen ?s (fp, clk, ev) = [e] \<and> hlc_node (e_hlc e) = fp \<and> ss_hlc ?s < e_hlc e
        \<and> e_hlc e \<le> ss_hlc ?t"
    then obtain e where e: "new = {e}" "hlc_node (e_hlc e) = fp" "ss_hlc ?s < e_hlc e"
      using new by auto
    have "\<forall>b\<in>n_pool n. e_hlc b \<noteq> e_hlc e"
      using pool e(2,3) by (metis leD)
    with e(1) uniq show ?thesis by (metis Un_iff singletonD)
  qed
  show ?thesis
    unfolding net_inv_def
    using assms(2) adv cov pool' uniq' n' inv
    by (auto simp: net_inv_def ss_adv_def)
qed

interpretation sync_network: inv_system net_init net_step net_inv
  by unfold_locales (auto intro: net_init_inv net_step_inv)


text \<open>
  The witness: \<open>a\<close> starts and sets a key, \<open>b\<close> receives the broadcast and
  both have seen the one entry.
\<close>

definition net0 :: sync_net where
  "net0 = \<lparr>n_rep = (\<lambda>fp. \<lparr>ss_state = [], ss_mode = Lww, ss_merge = None, ss_hlc = HLC 5 0 fp,
              ss_roomId = ''r'', ss_attached = 0, ss_intervals = 0, ss_timer = False\<rparr>),
           n_seen = (\<lambda>_. {}), n_pool = {}\<rparr>"

lemma net0_init: "net_init net0"
  by (auto simp: net_init_def net0_def new_StateSync_def)

definition entry0 :: sync_state where
  "entry0 = local_entry ''a'' (HLC 7 0 ''a'') ''k'' (JNum 1) False"

definition msg0 :: sync_event where
  "msg0 = OnBroadcast ''a'' ''r'' \<lparr>sp_sync = True, sp_room = None, sp_body = Update (Wire entry0)\<rparr>"

fun net_apply :: "sync_net \<Rightarrow> string \<times> (nat \<Rightarrow> clock) \<times> sync_event \<Rightarrow> sync_net" where
  "net_apply n (fp, clk, ev) =
     \<lparr>n_rep = (n_rep n)(fp := fst (ss_step (n_rep n fp) (fp, clk, ev))),
      n_seen = (n_seen n)(fp := n_seen n fp \<union> set (ss_seen (n_rep n fp) (fp, clk, ev))),
      n_pool = n_pool n \<union> set (ss_seen (n_rep n fp) (fp, clk, ev))\<rparr>"

lemma reachable_apply:
  "reachable net_init net_step n \<Longrightarrow> keeps_tombstones (fp, clk, ev) \<Longrightarrow> set (delivered ev) \<subseteq> n_pool n \<Longrightarrow>
   reachable net_init net_step (net_apply n (fp, clk, ev))"
  by (rule reachable.step) (auto intro: net_step.act)

definition net3 :: sync_net where
  "net3 = net_apply (net_apply (net_apply net0 (''b'', \<lambda>_ _. 6, Start)) (''a'', \<lambda>_ _. 7, SetKey ''k'' (JNum 1)))
     (''b'', \<lambda>_ _. 8, msg0)"

lemmas net3_simps =
  net3_def net0_def ss_start_def ss_set_def Let_def split_def createHLC_def entry0_def msg0_def

lemma net3_reachable: "reachable net_init net_step net3"
  unfolding net3_def
  by (intro reachable_apply reachable.start net0_init)
    (simp_all add: net3_simps)


end
