(* ===== verification/Emitter.thy ===== *)
theory Emitter
  imports Prelude
begin

text \<open>
  The class \<open>Emitter\<close> of packages/peer-client/src/core/emitter.ts.  Its field maps an
  event to a \<open>Set\<close> object, and \<open>emit\<close> iterates over that object while the
  listeners run, so the sets live in a store and the map holds references.  A set is its list of
  entries in the sense of the language: deleting an entry empties its slot, adding appends a slot,
  and an iteration visits the slots by index until it runs past the end.  The effect of a user
  function on the emitter and on the rest of the world is a parameter.
\<close>

section \<open>Listeners and the store of sets\<close>

text \<open>
  A listener is a function the user passed, or the closure \<open>once\<close> built around one: a
  fresh object that remembers the event and the function.
\<close>

datatype 'l listener = Fn 'l | OnceWrap nat string 'l

record 'l emitter =
  em_listeners :: "(string, nat) jsmap"
  em_sets :: "nat \<Rightarrow> 'l listener option list"
  em_next :: nat
  em_wraps :: nat

definition new_Emitter :: "'l emitter" where
  "new_Emitter = \<lparr>em_listeners = [], em_sets = (\<lambda>_. []), em_next = 0, em_wraps = 0\<rparr>"

definition slots_add :: "'a \<Rightarrow> 'a option list \<Rightarrow> 'a option list" where
  "slots_add x xs = (if Some x \<in> set xs then xs else xs @ [Some x])"

definition slots_del :: "'a \<Rightarrow> 'a option list \<Rightarrow> 'a option list" where
  "slots_del x xs = map (\<lambda>y. if y = Some x then None else y) xs"

definition slots_live :: "'a option list \<Rightarrow> 'a list" where
  "slots_live xs = List.map_filter id xs"

section \<open>The methods\<close>

definition em_ensure :: "string \<Rightarrow> 'l emitter \<Rightarrow> 'l emitter" where
  "em_ensure ev em =
     (if map_has (em_listeners em) ev then em
      else em\<lparr>em_listeners := map_set ev (em_next em) (em_listeners em),
              em_sets := (em_sets em)(em_next em := []),
              em_next := Suc (em_next em)\<rparr>)"

definition em_on :: "string \<Rightarrow> 'l listener \<Rightarrow> 'l emitter \<Rightarrow> 'l emitter" where
  "em_on ev f em =
     (let em1 = em_ensure ev em in
      case map_get (em_listeners em1) ev of
        None \<Rightarrow> em1
      | Some r \<Rightarrow> em1\<lparr>em_sets := (em_sets em1)(r := slots_add f (em_sets em1 r))\<rparr>)"

definition em_off :: "string \<Rightarrow> 'l listener \<Rightarrow> 'l emitter \<Rightarrow> 'l emitter" where
  "em_off ev f em =
     (case map_get (em_listeners em) ev of
        None \<Rightarrow> em
      | Some r \<Rightarrow> em\<lparr>em_sets := (em_sets em)(r := slots_del f (em_sets em r))\<rparr>)"

definition em_once :: "string \<Rightarrow> 'l \<Rightarrow> 'l emitter \<Rightarrow> 'l emitter" where
  "em_once ev f em =
     em_on ev (OnceWrap (em_wraps em) ev f) (em\<lparr>em_wraps := Suc (em_wraps em)\<rparr>)"

definition listenerCount :: "string \<Rightarrow> 'l emitter \<Rightarrow> nat" where
  "listenerCount ev em =
     (case map_get (em_listeners em) ev of
        None \<Rightarrow> 0
      | Some r \<Rightarrow> length (slots_live (em_sets em r)))"

definition removeAllListeners :: "string option \<Rightarrow> 'l emitter \<Rightarrow> 'l emitter" where
  "removeAllListeners ev em =
     (case ev of
        Some e \<Rightarrow> if e \<noteq> [] then em\<lparr>em_listeners := map_del e (em_listeners em)\<rparr>
                  else em\<lparr>em_listeners := []\<rparr>
      | None \<Rightarrow> em\<lparr>em_listeners := []\<rparr>)"

text \<open>
  \<open>call l a\<close> is what the user function \<open>l\<close> does with the arguments
  \<open>a\<close>: the error it throws, if any, and the emitter and world it leaves.
  \<open>onErr\<close> is the global error handler.
\<close>

type_synonym ('l, 'a, 'w, 'x) user_call =
  "'l \<Rightarrow> 'a \<Rightarrow> 'l emitter \<times> 'w \<Rightarrow> 'x option \<times> 'l emitter \<times> 'w"

fun invoke :: "('l, 'a, 'w, 'x) user_call \<Rightarrow> 'a \<Rightarrow> 'l listener \<Rightarrow> 'l emitter \<times> 'w \<Rightarrow> 'x option \<times> 'l emitter \<times> 'w"
where
  "invoke call a (Fn l) (em, w) = call l a (em, w)"
| "invoke call a (OnceWrap i ev l) (em, w) = call l a (em_off ev (OnceWrap i ev l) em, w)"

definition guarded ::
  "('l, 'a, 'w, 'x) user_call \<Rightarrow> ('x \<Rightarrow> string \<Rightarrow> 'w \<Rightarrow> 'w) \<Rightarrow> string \<Rightarrow> 'a \<Rightarrow> 'l listener \<Rightarrow>
   'l emitter \<times> 'w \<Rightarrow> 'l emitter \<times> 'w" where
  "guarded call onErr ev a l st =
     (case invoke call a l st of
        (None, em, w) \<Rightarrow> (em, w)
      | (Some x, em, w) \<Rightarrow> (em, onErr x ev w))"

partial_function (option) emit_loop ::
  "('l, 'a, 'w, 'x) user_call \<Rightarrow> ('x \<Rightarrow> string \<Rightarrow> 'w \<Rightarrow> 'w) \<Rightarrow> string \<Rightarrow> 'a \<Rightarrow> nat \<Rightarrow> nat \<Rightarrow>
   'l emitter \<times> 'w \<Rightarrow> ('l emitter \<times> 'w) option" where
  "emit_loop call onErr ev a r i st =
     (if i < length (em_sets (fst st) r)
      then emit_loop call onErr ev a r (Suc i)
             (case em_sets (fst st) r ! i of
                None \<Rightarrow> st
              | Some l \<Rightarrow> guarded call onErr ev a l st)
      else Some st)"

definition em_emit ::
  "('l, 'a, 'w, 'x) user_call \<Rightarrow> ('x \<Rightarrow> string \<Rightarrow> 'w \<Rightarrow> 'w) \<Rightarrow> string \<Rightarrow> 'a \<Rightarrow>
   'l emitter \<times> 'w \<Rightarrow> ('l emitter \<times> 'w) option" where
  "em_emit call onErr ev a st =
     (case map_get (em_listeners (fst st)) ev of
        None \<Rightarrow> Some st
      | Some r \<Rightarrow> emit_loop call onErr ev a r 0 st)"

section \<open>Well-formedness and the abstract view\<close>

text \<open>
  Distinct events have distinct sets, a set holds a listener at most once, and a wrapper sits in
  the set of the event it was made for.  The abstract view of an emitter is, per event, the list of
  its listeners in order of registration.
\<close>

definition wrap_ok :: "nat \<Rightarrow> string \<Rightarrow> 'l listener \<Rightarrow> bool" where
  "wrap_ok n ev f = (case f of Fn l \<Rightarrow> True | OnceWrap i ev' l \<Rightarrow> ev' = ev \<and> i < n)"

definition slots_ok :: "nat \<Rightarrow> string \<Rightarrow> 'l listener option list \<Rightarrow> bool" where
  "slots_ok n ev xs \<longleftrightarrow> distinct (slots_live xs) \<and> list_all (wrap_ok n ev) (slots_live xs)"

definition em_wf :: "'l emitter \<Rightarrow> bool" where
  "em_wf em \<longleftrightarrow>
     (\<forall>ev r. map_get (em_listeners em) ev = Some r \<longrightarrow>
        r < em_next em \<and> slots_ok (em_wraps em) ev (em_sets em r))
     \<and> inj_on (map_get (em_listeners em)) (dom (map_get (em_listeners em)))"

definition em_live :: "'l emitter \<Rightarrow> string \<Rightarrow> 'l listener list" where
  "em_live em ev =
     (case map_get (em_listeners em) ev of None \<Rightarrow> [] | Some r \<Rightarrow> slots_live (em_sets em r))"

lemma slots_live_Nil [simp]: "slots_live [] = []"
  by (simp add: slots_live_def)

lemma slots_live_append [simp]: "slots_live (xs @ ys) = slots_live xs @ slots_live ys"
  by (induction xs) (auto simp: slots_live_def split: option.split)

lemma slots_live_Cons [simp]:
  "slots_live (None # xs) = slots_live xs" "slots_live (Some x # xs) = x # slots_live xs"
  by (simp_all add: slots_live_def)

lemma set_slots_live [simp]: "x \<in> set (slots_live xs) \<longleftrightarrow> Some x \<in> set xs"
  by (induction xs) (auto simp: slots_live_def split: option.split)

lemma live_add: "slots_live (slots_add x xs) = set_add x (slots_live xs)"
  by (simp add: slots_add_def set_add_def)

lemma live_del: "slots_live (slots_del x xs) = set_del x (slots_live xs)"
  by (induction xs) (auto simp: slots_del_def set_del_def slots_live_def split: option.split)

lemma wrap_ok_mono: "wrap_ok n ev f \<Longrightarrow> n \<le> m \<Longrightarrow> wrap_ok m ev f"
  by (auto simp: wrap_ok_def split: listener.splits)

lemma slots_ok_Nil [simp]: "slots_ok n ev []"
  by (simp add: slots_ok_def)

lemma slots_ok_add: "slots_ok n ev xs \<Longrightarrow> wrap_ok n ev f \<Longrightarrow> slots_ok n ev (slots_add f xs)"
  unfolding slots_ok_def live_add by (simp add: list_all_iff del: set_slots_live)

lemma slots_ok_del: "slots_ok n ev xs \<Longrightarrow> slots_ok n ev (slots_del f xs)"
  unfolding slots_ok_def live_del by (simp add: list_all_iff del: set_slots_live)

lemma slots_ok_mono: "slots_ok n ev xs \<Longrightarrow> n \<le> m \<Longrightarrow> slots_ok m ev xs"
  unfolding slots_ok_def by (auto simp: list_all_iff intro: wrap_ok_mono simp del: set_slots_live)

lemma slots_ok_fresh: "slots_ok n ev xs \<Longrightarrow> OnceWrap n ev' f \<notin> set (slots_live xs)"
  by (auto simp: slots_ok_def list_all_iff wrap_ok_def simp del: set_slots_live dest!: bspec)

lemma slots_ok_Suc: "slots_ok n ev xs \<Longrightarrow> slots_ok (Suc n) ev xs"
  by (erule slots_ok_mono) simp

lemma em_wf_new: "em_wf new_Emitter"
  by (simp add: em_wf_def new_Emitter_def)

lemma em_wf_slots: "em_wf em \<Longrightarrow> map_get (em_listeners em) ev = Some r \<Longrightarrow> slots_ok (em_wraps em) ev (em_sets em r)"
  by (simp add: em_wf_def)

lemma em_wf_owner:
  "em_wf em \<Longrightarrow> map_get (em_listeners em) ev = Some r \<Longrightarrow> map_get (em_listeners em) ev' = Some r \<Longrightarrow> ev' = ev"
  unfolding em_wf_def by (metis domI inj_onD)

lemma em_wf_fresh: "em_wf em \<Longrightarrow> map_get (em_listeners em) ev \<noteq> Some (em_next em)"
  by (auto simp: em_wf_def)

text \<open>Replacing the slots of one event's set: the shape shared by \<open>on\<close> and \<open>off\<close>.\<close>

lemma em_wf_put_slots:
  "em_wf em \<Longrightarrow> map_get (em_listeners em) ev = Some r \<Longrightarrow> slots_ok (em_wraps em) ev xs \<Longrightarrow>
   em_wf (em\<lparr>em_sets := (em_sets em)(r := xs)\<rparr>)"
  using em_wf_owner by (fastforce simp: em_wf_def)

lemma em_live_put_slots:
  assumes "em_wf em" "map_get (em_listeners em) ev = Some r"
  shows "em_live (em\<lparr>em_sets := (em_sets em)(r := xs)\<rparr>) = (em_live em)(ev := slots_live xs)"
proof
  fix ev'
  show "em_live (em\<lparr>em_sets := (em_sets em)(r := xs)\<rparr>) ev' = ((em_live em)(ev := slots_live xs)) ev'"
    using assms em_wf_owner [OF assms, of ev']
    by (cases "map_get (em_listeners em) ev'") (auto simp: em_live_def)
qed

lemma em_ensure_props:
  assumes "em_wf em"
  shows "em_wf (em_ensure ev em)" "em_live (em_ensure ev em) = em_live em"
    "\<exists>r. map_get (em_listeners (em_ensure ev em)) ev = Some r" "em_wraps (em_ensure ev em) = em_wraps em"
proof -
  have fresh: "map_get (em_listeners em) ev' \<noteq> Some (em_next em)" for ev'
    using assms by (rule em_wf_fresh)
  then have new: "Some (em_next em) \<notin> map_get (em_listeners em) ` A" for A
    by (metis imageE)
  show "em_wf (em_ensure ev em)"
    using assms fresh new
    by (auto simp: em_wf_def em_ensure_def map_has_get inj_on_fun_updI less_SucI domIff
        insert_absorb intro!: inj_on_fun_updI)
  show "em_live (em_ensure ev em) = em_live em"
  proof
    fix ev'
    show "em_live (em_ensure ev em) ev' = em_live em ev'"
      using fresh [of ev']
      by (cases "map_get (em_listeners em) ev'") (auto simp: em_live_def em_ensure_def map_has_get)
  qed
  show "\<exists>r. map_get (em_listeners (em_ensure ev em)) ev = Some r" "em_wraps (em_ensure ev em) = em_wraps em"
    by (auto simp: em_ensure_def map_has_get)
qed

lemma em_on_props:
  assumes "em_wf em" "wrap_ok (em_wraps em) ev f"
  shows "em_wf (em_on ev f em) \<and> em_live (em_on ev f em) = (em_live em)(ev := set_add f (em_live em ev))"
proof -
  let ?em1 = "em_ensure ev em"
  note e = em_ensure_props [OF assms(1), of ev]
  obtain r where r: "map_get (em_listeners ?em1) ev = Some r" using e(3) by blast
  have on: "em_on ev f em = ?em1\<lparr>em_sets := (em_sets ?em1)(r := slots_add f (em_sets ?em1 r))\<rparr>"
    using r by (simp add: em_on_def Let_def)
  have "slots_ok (em_wraps ?em1) ev (slots_add f (em_sets ?em1 r))"
    using em_wf_slots [OF e(1) r] assms(2) e(4) by (simp add: slots_ok_add)
  moreover have "em_live ?em1 ev = slots_live (em_sets ?em1 r)" using r by (simp add: em_live_def)
  ultimately show ?thesis
    unfolding on using e(1,2) r by (simp add: em_wf_put_slots em_live_put_slots live_add)
qed

lemma em_off_props:
  assumes "em_wf em"
  shows "em_wf (em_off ev f em) \<and> em_live (em_off ev f em) = (em_live em)(ev := set_del f (em_live em ev))"
proof (cases "map_get (em_listeners em) ev")
  case None
  with assms show ?thesis by (auto simp: em_off_def em_live_def set_del_def)
next
  case (Some r)
  then have "em_live em ev = slots_live (em_sets em r)" by (simp add: em_live_def)
  with assms Some em_wf_slots [OF assms Some] show ?thesis
    by (simp add: em_off_def em_wf_put_slots em_live_put_slots slots_ok_del live_del)
qed

lemma em_once_props:
  assumes "em_wf em"
  shows "em_wf (em_once ev f em) \<and>
    em_live (em_once ev f em) = (em_live em)(ev := em_live em ev @ [OnceWrap (em_wraps em) ev f])"
proof -
  let ?em = "em\<lparr>em_wraps := Suc (em_wraps em)\<rparr>" and ?w = "OnceWrap (em_wraps em) ev f"
  have wf: "em_wf ?em" and live: "em_live ?em = em_live em"
    using assms by (auto simp: em_wf_def em_live_def fun_eq_iff slots_ok_Suc split: option.split)
  have "?w \<notin> set (em_live em ev)"
  proof (cases "map_get (em_listeners em) ev")
    case (Some r)
    with slots_ok_fresh [OF em_wf_slots [OF assms Some]] show ?thesis
      by (simp add: em_live_def del: set_slots_live)
  qed (simp add: em_live_def)
  with em_on_props [OF wf, of ev ?w] live show ?thesis
    by (simp add: em_once_def wrap_ok_def set_add_def)
qed

lemma removeAll_props:
  assumes "em_wf em"
  shows "em_wf (removeAllListeners e em) \<and> em_live (removeAllListeners e em) =
      (case e of Some ev \<Rightarrow> if ev \<noteq> [] then (em_live em)(ev := []) else (\<lambda>_. []) | None \<Rightarrow> (\<lambda>_. []))"
  using assms
  by (auto simp: em_wf_def removeAllListeners_def em_live_def fun_eq_iff inj_on_def split: option.split)

section \<open>What a component relies on when it subscribes\<close>

text \<open>
  Components subscribe in \<open>listen\<close>, keep the returned functions in \<open>cleanups\<close>
  and call them all on \<open>close\<close>.  The contract they rely on is on the abstract view only.
\<close>

locale event_bus =
  fixes subscribe :: "string \<Rightarrow> 'f \<Rightarrow> 'b \<Rightarrow> 'b"
    and unsubscribe :: "string \<Rightarrow> 'f \<Rightarrow> 'b \<Rightarrow> 'b"
    and live :: "'b \<Rightarrow> string \<Rightarrow> 'f list"
    and wf :: "'b \<Rightarrow> bool"
    and plain :: "'f \<Rightarrow> bool"
  assumes wf_subscribe: "wf b \<Longrightarrow> plain f \<Longrightarrow> wf (subscribe ev f b)"
    and wf_unsubscribe: "wf b \<Longrightarrow> wf (unsubscribe ev f b)"
    and live_subscribe:
      "wf b \<Longrightarrow> plain f \<Longrightarrow> live (subscribe ev f b) = (live b)(ev := set_add f (live b ev))"
    and live_unsubscribe:
      "wf b \<Longrightarrow> live (unsubscribe ev f b) = (live b)(ev := set_del f (live b ev))"
begin

definition subscribe_all :: "(string \<times> 'f) list \<Rightarrow> 'b \<Rightarrow> 'b" where
  "subscribe_all subs b = fold (\<lambda>(ev, f). subscribe ev f) subs b"

definition cleanup_all :: "(string \<times> 'f) list \<Rightarrow> 'b \<Rightarrow> 'b" where
  "cleanup_all subs b = fold (\<lambda>(ev, f). unsubscribe ev f) subs b"

lemma wf_subscribe_all: "wf b \<Longrightarrow> \<forall>(ev, f)\<in>set subs. plain f \<Longrightarrow> wf (subscribe_all subs b)"
  unfolding subscribe_all_def by (induction subs arbitrary: b) (auto simp: wf_subscribe)

lemma live_subscribe_all:
  "wf b \<Longrightarrow> \<forall>(ev, f)\<in>set subs. plain f \<and> f \<notin> set (live b ev) \<Longrightarrow> distinct subs \<Longrightarrow>
   live (subscribe_all subs b) ev = live b ev @ map snd (filter (\<lambda>s. fst s = ev) subs)"
proof (induction subs arbitrary: b)
  case Nil
  then show ?case by (simp add: subscribe_all_def)
next
  case (Cons s subs)
  obtain ev' f where s: "s = (ev', f)" by (cases s)
  let ?b = "subscribe ev' f b"
  have fresh: "f \<notin> set (live b ev')" "plain f" using Cons.prems s by auto
  have live': "live ?b = (live b)(ev' := live b ev' @ [f])"
    using fresh Cons.prems(1) by (simp add: live_subscribe set_add_def)
  have "live (subscribe_all subs ?b) ev = live ?b ev @ map snd (filter (\<lambda>s. fst s = ev) subs)"
    using Cons.prems s live' fresh by (intro Cons.IH) (auto simp: wf_subscribe split: if_splits)
  then show ?case using live' s by (auto simp: subscribe_all_def)
qed

lemma live_cleanup_all:
  "wf b \<Longrightarrow> live (cleanup_all subs b) ev = filter (\<lambda>f. (ev, f) \<notin> set subs) (live b ev)"
proof (induction subs arbitrary: b)
  case Nil
  then show ?case by (simp add: cleanup_all_def)
next
  case (Cons s subs)
  obtain ev' f where s: "s = (ev', f)" by (cases s)
  have "live (cleanup_all subs (unsubscribe ev' f b)) ev =
      filter (\<lambda>f. (ev, f) \<notin> set subs) (live (unsubscribe ev' f b) ev)"
    using Cons.prems by (intro Cons.IH wf_unsubscribe)
  then show ?case
    using Cons.prems s
    by (auto simp: cleanup_all_def live_unsubscribe set_del_def removeAll_filter_not_eq conj_commute
        intro: filter_cong)
qed

lemma cleanup_restores:
  assumes "wf b" "\<forall>(ev, f)\<in>set subs. plain f \<and> f \<notin> set (live b ev)" "distinct subs"
  shows "live (cleanup_all subs (subscribe_all subs b)) = live b"
proof
  fix ev
  have wf: "wf (subscribe_all subs b)"
    using assms by (intro wf_subscribe_all) auto
  have "filter (\<lambda>f. (ev, f) \<notin> set subs) (live b ev) = live b ev"
    using assms(2) by (intro filter_True) auto
  moreover have "filter (\<lambda>f. (ev, f) \<notin> set subs) (map snd (filter (\<lambda>s. fst s = ev) subs)) = []"
    by (auto simp: filter_empty_conv)
  ultimately show "live (cleanup_all subs (subscribe_all subs b)) ev = live b ev"
    using live_subscribe_all [OF assms] live_cleanup_all [OF wf] by simp
qed

end

fun is_fn :: "'l listener \<Rightarrow> bool" where
  "is_fn (Fn l) = True"
| "is_fn (OnceWrap i ev l) = False"

interpretation emitter_bus: event_bus em_on em_off em_live em_wf is_fn
proof unfold_locales
  fix b :: "'a emitter" and f :: "'a listener" and ev
  assume "em_wf b" "is_fn f"
  moreover from this have "wrap_ok (em_wraps b) ev f" by (cases f) (simp_all add: wrap_ok_def)
  ultimately show "em_wf (em_on ev f b)"
    and "em_live (em_on ev f b) = (em_live b)(ev := set_add f (em_live b ev))"
    by (simp_all add: em_on_props)
qed (simp_all add: em_off_props)

section \<open>Emitting\<close>

text \<open>
  Listeners that leave the emitter alone: \<open>err\<close> is what they throw and \<open>eff\<close>
  what they do to the world.  \<open>deliver\<close> is one protected call.
\<close>

fun fn_of :: "'l listener \<Rightarrow> 'l" where
  "fn_of (Fn l) = l"
| "fn_of (OnceWrap i ev l) = l"

definition deliver ::
  "('l \<Rightarrow> 'a \<Rightarrow> 'w \<Rightarrow> 'x option) \<Rightarrow> ('l \<Rightarrow> 'a \<Rightarrow> 'w \<Rightarrow> 'w) \<Rightarrow> ('x \<Rightarrow> string \<Rightarrow> 'w \<Rightarrow> 'w) \<Rightarrow>
   string \<Rightarrow> 'a \<Rightarrow> 'l listener \<Rightarrow> 'w \<Rightarrow> 'w" where
  "deliver err eff onErr ev a f w =
     (case err (fn_of f) a w of
        None \<Rightarrow> eff (fn_of f) a w
      | Some x \<Rightarrow> onErr x ev (eff (fn_of f) a w))"

fun spent :: "'l listener option \<Rightarrow> 'l listener option" where
  "spent (Some (OnceWrap i ev l)) = None"
| "spent (Some (Fn l)) = Some (Fn l)"
| "spent None = None"

lemma slots_live_spent: "slots_live (map spent xs) = filter is_fn (slots_live xs)"
proof (induction xs)
  case (Cons x xs)
  then show ?case by (cases x rule: spent.cases) simp_all
qed simp

lemma slots_del_self:
  assumes "distinct (slots_live (d @ Some f # xs))"
  shows "slots_del f (d @ Some f # xs) = d @ None # xs"
proof -
  have "Some f \<notin> set d" "Some f \<notin> set xs" using assms by auto
  then show ?thesis by (auto simp: slots_del_def intro: map_idI)
qed

lemma emit_loop_pure:
  assumes "\<And>l a em w. call l a (em, w) = (err l a w, em, eff l a w)"
    and "em_wf em" "map_get (em_listeners em) ev = Some r" "em_sets em r = d @ xs"
  shows "emit_loop call onErr ev a r (length d) (em, w) =
    Some (em\<lparr>em_sets := (em_sets em)(r := d @ map spent xs)\<rparr>,
      fold (deliver err eff onErr ev a) (slots_live xs) w)"
  using assms(2-4)
proof (induction xs arbitrary: d em w)
  case Nil
  then have "em\<lparr>em_sets := (em_sets em)(r := d)\<rparr> = em" by (simp add: fun_upd_idem)
  with Nil show ?case by (subst emit_loop.simps) simp
next
  case (Cons x xs)
  let ?st = "case x of None \<Rightarrow> (em, w) | Some l \<Rightarrow> guarded call onErr ev a l (em, w)"
  have unfold: "emit_loop call onErr ev a r (length d) (em, w)
      = emit_loop call onErr ev a r (length (d @ [spent x])) ?st"
    using Cons.prems(3) by (subst emit_loop.simps) (simp add: nth_append)
  let ?em = "em\<lparr>em_sets := (em_sets em)(r := (d @ [spent x]) @ xs)\<rparr>"
  let ?w = "fold (deliver err eff onErr ev a) (slots_live [x]) w"
  have ok: "slots_ok (em_wraps em) ev (d @ x # xs)"
    using em_wf_slots [OF Cons.prems(1,2)] Cons.prems(3) by simp
  have st: "?st = (?em, ?w)"
  proof (cases x rule: spent.cases)
    case (1 i ev' l)
    with ok have "ev' = ev" "distinct (slots_live (d @ Some (OnceWrap i ev l) # xs))"
      by (auto simp: slots_ok_def list_all_iff wrap_ok_def)
    with 1 Cons.prems(2,3) show ?thesis
      by (simp add: guarded_def assms(1) em_off_def slots_del_self deliver_def split: option.split)
  next
    case (2 l)
    with Cons.prems(3) show ?thesis
      by (simp add: guarded_def assms(1) deliver_def fun_upd_idem split: option.split)
  qed (use Cons.prems(3) in \<open>simp add: fun_upd_idem\<close>)
  have "slots_ok (em_wraps em) ev ((d @ [spent x]) @ xs)"
    using ok by (cases x rule: spent.cases) (auto simp: slots_ok_def)
  then have "em_wf ?em" using Cons.prems(1,2) by (rule em_wf_put_slots [rotated 2])
  from Cons.IH [OF this, of "d @ [spent x]" ?w] Cons.prems(2)
  show ?case unfolding unfold st by (cases x) (simp_all cong: if_cong)
qed


text \<open>The witness: one plain and one once-listener, the first of which throws.\<close>

definition demo_bus :: "nat emitter" where
  "demo_bus = em_once ''e'' 2 (em_on ''e'' (Fn 1) new_Emitter)"

lemma demo_bus_props:
  "em_wf demo_bus" "em_live demo_bus ''e'' = [Fn 1, OnceWrap 0 ''e'' 2]"
proof -
  have wf: "em_wf (new_Emitter :: nat emitter)" by (rule em_wf_new)
  have on: "em_wf (em_on ''e'' (Fn 1) new_Emitter :: nat emitter)"
    "em_live (em_on ''e'' (Fn 1) new_Emitter :: nat emitter) ''e'' = [Fn 1]"
    using em_on_props [OF wf, of "''e''" "Fn 1"]
    by (simp_all add: wrap_ok_def em_live_def new_Emitter_def set_add_def)
  then show "em_wf demo_bus" "em_live demo_bus ''e'' = [Fn 1, OnceWrap 0 ''e'' 2]"
    using em_once_props [OF on(1), of "''e''" 2]
    by (simp_all add: demo_bus_def em_on_def em_ensure_def new_Emitter_def Let_def map_has_def)
qed


text \<open>
  Unsubscribing everything a component subscribed restores the emitter: for any list of
  distinct functions that were not registered before, registering them all and then calling all
  the returned functions leaves every event with the listeners it had, in the same order.
\<close>

theorem cleanups_restore_listeners:
  assumes "em_wf em" "distinct subs" "\<forall>(ev, l)\<in>set subs. Fn l \<notin> set (em_live em ev)"
  shows "em_live (fold (\<lambda>(ev, l). em_off ev (Fn l)) subs (fold (\<lambda>(ev, l). em_on ev (Fn l)) subs em)) = em_live em"
proof -
  let ?subs = "map (\<lambda>(ev, l). (ev, Fn l)) subs"
  have "inj_on (\<lambda>(ev, l). (ev, Fn l)) (set subs)" by (auto simp: inj_on_def)
  then have "distinct ?subs" using assms(2) by (simp add: distinct_map)
  moreover have "\<forall>(ev, f)\<in>set ?subs. is_fn f \<and> f \<notin> set (em_live em ev)"
    using assms(3) by auto
  ultimately show ?thesis
    using emitter_bus.cleanup_restores [OF assms(1), of ?subs]
    by (simp add: emitter_bus.cleanup_all_def emitter_bus.subscribe_all_def fold_map comp_def split_def)
qed

theorem cleanups_restore_listeners_witness:
  "em_live (fold (\<lambda>(ev, l). em_off ev (Fn l)) [(''e'', 7), (''f'', 8)]
     (fold (\<lambda>(ev, l). em_on ev (Fn l)) [(''e'', 7), (''f'', 8)] demo_bus)) = em_live demo_bus"
proof -
  have "em_live demo_bus ''f'' = []"
    by (simp add: demo_bus_def em_once_def em_on_def em_ensure_def new_Emitter_def Let_def map_has_def em_live_def)
  then show ?thesis
    by (intro cleanups_restore_listeners) (simp_all add: demo_bus_props)
qed

section \<open>Removing all listeners from within a listener\<close>

lemma removeAll_sets [simp]: "em_sets (removeAllListeners e em) = em_sets em"
  by (simp add: removeAllListeners_def split: option.split)

lemma emit_loop_removing:
  assumes "\<And>l a em w. call l a (em, w) = (err l a w, removeAllListeners (rm l) em, eff l a w)"
    and "em_sets em r = d @ xs" "list_all is_fn (slots_live xs)"
  shows "\<exists>em'. emit_loop call onErr ev a r (length d) (em, w) =
      Some (em', fold (deliver err eff onErr ev a) (slots_live xs) w)"
  using assms(2,3)
proof (induction xs arbitrary: d em w)
  case Nil
  then show ?case by (subst emit_loop.simps) simp
next
  case (Cons x xs)
  let ?st = "case x of None \<Rightarrow> (em, w) | Some l \<Rightarrow> guarded call onErr ev a l (em, w)"
  have unfold: "emit_loop call onErr ev a r (length d) (em, w)
      = emit_loop call onErr ev a r (length (d @ [x])) ?st"
    using Cons.prems(1) by (subst emit_loop.simps) (simp add: nth_append)
  have "\<exists>em1. ?st = (em1, fold (deliver err eff onErr ev a) (slots_live [x]) w) \<and> em_sets em1 = em_sets em"
  proof (cases x)
    case (Some f)
    with Cons.prems(2) obtain l where "f = Fn l" by (cases f) auto
    with Some show ?thesis by (auto simp: guarded_def assms(1) deliver_def split: option.split)
  qed simp
  then obtain em1 where st: "?st = (em1, fold (deliver err eff onErr ev a) (slots_live [x]) w)"
    and sets: "em_sets em1 = em_sets em" by blast
  have "list_all is_fn (slots_live xs)" using Cons.prems(2) by (cases x) simp_all
  from Cons.IH [OF _ this, of em1 "d @ [x]"] Cons.prems(1) sets
  show ?case unfolding unfold st by (cases x) simp_all
qed

text \<open>
  \<open>removeAllListeners\<close> called by a listener does not stop the emission that is under
  way: it detaches the set from the map, but the iteration goes on over the detached set, so every
  listener that was registered when the event was emitted is still called.
\<close>

theorem emit_survives_removeAll:
  assumes "\<And>l a em w. call l a (em, w) = (err l a w, removeAllListeners (rm l) em, eff l a w)"
    and "list_all is_fn (em_live em ev)"
  shows "\<exists>em'. em_emit call onErr ev a (em, w) = Some (em', fold (deliver err eff onErr ev a) (em_live em ev) w)"
proof (cases "map_get (em_listeners em) ev")
  case None
  then show ?thesis by (simp add: em_emit_def em_live_def)
next
  case (Some r)
  with emit_loop_removing [of call err rm eff em r "[]" "em_sets em r", OF assms(1)] assms(2)
  show ?thesis by (simp add: em_emit_def em_live_def)
qed

theorem emit_survives_removeAll_witness:
  "\<exists>em'. em_emit (\<lambda>l a (em, w). (None :: unit option, removeAllListeners None em, w @ [l])) (\<lambda>x ev w. w) ''e'' True
      (em_on ''e'' (Fn 2) (em_on ''e'' (Fn (1 :: nat)) new_Emitter), []) = Some (em', [1, 2])"
proof -
  let ?em = "em_on ''e'' (Fn 2) (em_on ''e'' (Fn (1 :: nat)) new_Emitter)"
  have live: "em_live ?em ''e'' = [Fn 1, Fn 2]"
    by (simp add: em_live_def em_on_def em_ensure_def new_Emitter_def Let_def map_has_def slots_add_def)
  then show ?thesis
    using emit_survives_removeAll [of "\<lambda>l a (em, w). (None :: unit option, removeAllListeners None em, w @ [l])"
        "\<lambda>l a w. None" "\<lambda>l. None" "\<lambda>l a w. w @ [l]" ?em "''e''" "\<lambda>x ev w. w" True "[]"]
    by (simp add: deliver_def)
qed

end
