(* ===== verification/Transfer_Codec.thy ===== *)
theory Transfer_Codec
  imports Types
begin

text \<open>
  The chunk codec of packages/peer-client/src/transfer.ts and the arithmetic of cutting a file
  into chunks.  A chunk travels as four bytes of index, least significant first, followed by its
  data; the index is written with \<open>setUint32\<close>, which reduces a number modulo
  $2^{32}$, and read back with \<open>getUint32\<close>, which throws on fewer than four bytes.
\<close>

unbundle bit_operations_syntax

type_synonym byte = "8 word"
type_synonym bytes = "byte list"

section \<open>The codec\<close>

definition setUint32 :: "int \<Rightarrow> bytes" where
  "setUint32 index =
     (let w = word_of_int index :: 32 word in
      [ucast w, ucast (drop_bit 8 w), ucast (drop_bit 16 w), ucast (drop_bit 24 w)])"

definition getUint32 :: "bytes \<Rightarrow> nat option" where
  "getUint32 buf =
     (case buf of
        b0 # b1 # b2 # b3 # _ \<Rightarrow>
          Some (unat ((ucast b0 :: 32 word) OR push_bit 8 (ucast b1) OR push_bit 16 (ucast b2)
                      OR push_bit 24 (ucast b3)))
      | _ \<Rightarrow> None)"

definition encodeChunk :: "int \<Rightarrow> bytes \<Rightarrow> bytes" where
  "encodeChunk index data = setUint32 index @ data"

definition decodeChunk :: "bytes \<Rightarrow> (nat \<times> bytes) option" where
  "decodeChunk buffer = map_option (\<lambda>index. (index, drop 4 buffer)) (getUint32 buffer)"

section \<open>Cutting a file\<close>

text \<open>
  \<open>Blob.slice\<close> clamps both ends to the size and counts a negative end from the back.
  \<open>Math.ceil(size / chunkSize)\<close> is exact for the sizes in question.
\<close>

definition blob_clamp :: "nat \<Rightarrow> int \<Rightarrow> int" where
  "blob_clamp n p = (if p < 0 then max (int n + p) 0 else min p (int n))"

definition blob_slice :: "int \<Rightarrow> int \<Rightarrow> 'a list \<Rightarrow> 'a list" where
  "blob_slice s e file =
     (let a = blob_clamp (length file) s; b = blob_clamp (length file) e
      in take (nat (b - a)) (drop (nat a) file))"

definition ceil_div :: "nat \<Rightarrow> nat \<Rightarrow> nat" where
  "ceil_div a b = (a + b - 1) div b"

definition chunk_of :: "bytes \<Rightarrow> nat \<Rightarrow> int \<Rightarrow> bytes" where
  "chunk_of file chunkSize index =
     (let start = index * int chunkSize in
      blob_slice start (min (start + int chunkSize) (int (length file))) file)"

section \<open>Codec round trip\<close>

lemma le_bytes_word:
  fixes w :: "32 word"
  shows "(ucast (ucast w :: byte) :: 32 word) OR push_bit 8 (ucast (ucast (drop_bit 8 w) :: byte))
       OR push_bit 16 (ucast (ucast (drop_bit 16 w) :: byte))
       OR push_bit 24 (ucast (ucast (drop_bit 24 w) :: byte)) = w"
proof (rule bit_word_eqI)
  fix n assume "n < LENGTH(32)"
  then have n: "n < 32" by simp
  consider "n < 8" | "8 \<le> n" "n < 16" | "16 \<le> n" "n < 24" | "24 \<le> n" by linarith
  then show "bit ((ucast (ucast w :: byte) :: 32 word)
       OR push_bit 8 (ucast (ucast (drop_bit 8 w) :: byte))
       OR push_bit 16 (ucast (ucast (drop_bit 16 w) :: byte))
       OR push_bit 24 (ucast (ucast (drop_bit 24 w) :: byte))) n = bit w n"
    using n
    by cases (auto simp: bit_or_iff bit_push_bit_iff bit_unsigned_iff bit_drop_bit_eq)
qed

lemma getUint32_set: "getUint32 (setUint32 i @ rest) = Some (nat (i mod 2 ^ 32))"
proof -
  let ?w = "word_of_int i :: 32 word"
  have "getUint32 (setUint32 i @ rest) = Some (unat ?w)"
    unfolding setUint32_def getUint32_def Let_def append_Cons list.case le_bytes_word ..
  moreover have "unat ?w = nat (i mod 2 ^ 32)"
    by (simp add: unsigned_of_int take_bit_eq_mod flip: nat_uint_eq)
  ultimately show ?thesis by simp
qed

lemma length_setUint32 [simp]: "length (setUint32 i) = 4"
  by (simp add: setUint32_def Let_def)

lemma decode_encode: "decodeChunk (encodeChunk i d) = Some (nat (i mod 2 ^ 32), d)"
  by (simp add: decodeChunk_def encodeChunk_def getUint32_set)

text \<open>
  C8. Chunk codec round trip: decoding an encoded chunk returns its data unchanged and its index
  modulo \<open>2 ^ 32\<close>, so for every index a file of fewer than \<open>2 ^ 32\<close> chunks
  can have both come back exactly; an encoded chunk is four bytes longer than its data, and
  decoding fails exactly on buffers too short to hold the header.
\<close>

theorem chunk_codec_round_trip:
  "decodeChunk (encodeChunk i d) = Some (nat (i mod 2 ^ 32), d) \<and>
   (k < 2 ^ 32 \<longrightarrow> decodeChunk (encodeChunk (int k) d) = Some (k, d)) \<and>
   length (encodeChunk i d) = 4 + length d \<and>
   (decodeChunk buf = None \<longleftrightarrow> length buf < 4)"
proof -
  have "int k mod 2 ^ 32 = int k" if "k < 2 ^ 32"
    using that by (simp add: mod_pos_pos_trivial)
  moreover have "(getUint32 buf = None) = (length buf < 4)"
    by (auto simp: getUint32_def split: list.splits)
  ultimately show ?thesis by (simp add: decode_encode) (simp add: decodeChunk_def encodeChunk_def)
qed

theorem chunk_codec_round_trip_witness:
  "(258::nat) < 2 ^ 32 \<and> decodeChunk (encodeChunk (int 258) [7, 9]) = Some (258, [7, 9]) \<and>
   decodeChunk [1, 2, 3] = None"
  using chunk_codec_round_trip [of 258 "[7, 9]" 258 "[1, 2, 3]"] by simp

section \<open>The chunks of a file are its slices\<close>

lemma ceil_div_slices: "0 < c \<Longrightarrow> ceil_div (length f) c = length (slices c f)"
  by (simp add: ceil_div_def length_slices)

lemma chunk_of_slices:
  assumes "0 < c" "i < ceil_div (length f) c"
  shows "chunk_of f c (int i) = slices c f ! i"
proof -
  let ?n = "length f"
  have i: "i < length (slices c f)" using assms by (simp add: ceil_div_slices)
  have "slices c f ! i \<in> set (slices c f)" using i by simp
  then have "slices c f ! i \<noteq> []" using length_slice_le by fastforce
  with nth_slices [OF assms(1) i] have lt: "i * c < ?n" by auto
  then have "int i * int c < int ?n" by (metis of_nat_less_iff of_nat_mult)
  then have a: "blob_clamp ?n (int i * int c) = int (i * c)"
    by (simp add: blob_clamp_def flip: of_nat_mult)
  have b: "blob_clamp ?n (min (int i * int c + int c) (int ?n)) = int (min (i * c + c) ?n)"
    by (simp add: blob_clamp_def min_def flip: of_nat_mult of_nat_add)
  have d: "nat (int (min (i * c + c) ?n) - int (i * c)) = min c (?n - i * c)"
    using lt by (auto simp: min_def simp del: of_nat_mult)
  have "chunk_of f c (int i) = take (min c (?n - i * c)) (drop (i * c) f)"
    unfolding chunk_of_def blob_slice_def Let_def a b d nat_int ..
  then show ?thesis by (simp add: nth_slices [OF assms(1) i] min_def)
qed

lemma concat_chunks:
  assumes "0 < c"
  shows "concat (map (\<lambda>i. chunk_of f c (int i)) [0..<ceil_div (length f) c]) = f"
proof -
  have "map (\<lambda>i. chunk_of f c (int i)) [0..<ceil_div (length f) c] = slices c f"
    using assms by (auto intro!: nth_equalityI simp: chunk_of_slices ceil_div_slices)
  with concat_slices [OF assms] show ?thesis by simp
qed

end
