(* ===== verification/FileTransfer.thy ===== *)
theory FileTransfer
  imports Transfer_Codec
begin

text \<open>
  The class \<open>FileTransfer\<close> of packages/peer-client/src/transfer.ts.  Several
  asynchronous runs of \<open>startSending\<close> may be in flight over the same
  \<open>ActiveSend\<close> object, so those objects live in a store (\<open>ft_sends\<close>, a
  reference is an index) and every run is a task with the point at which it is suspended.  One
  step of the model is one call, one callback, or one task resumed up to its next \<open>await\<close>.
  What the environment decides within a step, whether \<open>client.getPeer\<close> finds a peer,
  whether \<open>peer.send\<close> and \<open>channel.send\<close> throw, the reading of
  \<open>bufferedAmount\<close> and of \<open>Date.now()\<close>, is the record \<open>ft_env\<close>.
\<close>

section \<open>State\<close>

datatype chan_state = ChConnecting | ChOpen | ChClosed

record active_send =
  as_id :: string
  as_file :: bytes
  as_filename :: string
  as_peer :: string
  as_chan :: chan_state
  as_onopen :: "nat option"   \<comment> \<open>the task whose handler is in \<open>channel.onopen\<close>\<close>
  as_onlow :: "nat option"    \<comment> \<open>likewise \<open>channel.onbufferedamountlow\<close>\<close>
  as_totalChunks :: nat
  as_chunkSize :: nat
  as_currentIndex :: int
  as_cancelled :: bool
  as_paused :: bool
  as_startTime :: int
  as_bytesSent :: nat
  as_promise :: promise
  as_timer :: bool            \<comment> \<open>the offer timeout is armed\<close>

record active_receive =
  ar_id :: string
  ar_meta :: file_metadata
  ar_chunks :: "bytes option list"
  ar_received :: nat
  ar_from :: string
  ar_startTime :: int

text \<open>Where a run of \<open>startSending\<close> is suspended.\<close>

datatype task_pc =
    TOpenWait          \<comment> \<open>channel not open yet, its timeout running\<close>
  | TOpened            \<comment> \<open>woken by \<open>onopen\<close>\<close>
  | TLowWait           \<comment> \<open>buffer over the high mark\<close>
  | TLow               \<comment> \<open>woken by \<open>onbufferedamountlow\<close>\<close>
  | TRead bytes        \<comment> \<open>awaiting the bytes of a slice\<close>
  | TYield
  | TDrain
  | TDelay
  | TDone

datatype data_listener = LIncoming nat | LSend nat

record filetransfer =
  ft_sends :: "active_send list"
  ft_tasks :: "(nat \<times> task_pc) list"
  ft_sending :: "(string, nat) jsmap"
  ft_receiving :: "(string, active_receive) jsmap"
  ft_channelListeners :: "(string, nat) jsmap"
  ft_attached :: "(string \<times> data_listener) list"  \<comment> \<open>listeners on the peers' \<open>data\<close> event\<close>
  ft_fresh :: nat

record ft_env =
  env_peer :: "string \<Rightarrow> bool"
  env_sendOk :: bool
  env_chanOk :: bool
  env_amount :: nat
  env_now :: int

datatype ft_data = Binary bytes | Ctl transfer_control | OtherData

datatype ft_out =
    PeerSend string transfer_control
  | ChanSend nat bytes
  | ChanClose nat
  | EmitIncoming file_metadata string
  | EmitProgress transfer_progress
  | EmitSent string
  | EmitComplete string bytes file_metadata string
  | EmitError string nat
  | EmitCancelled string
  | SendRejected string      \<comment> \<open>\<open>send\<close> rejects before a transfer exists\<close>
  | Throws string            \<comment> \<open>thrown to the caller\<close>
  | ListenerThrows string    \<comment> \<open>thrown inside a listener, handed to the error handler\<close>
  | UnhandledRejection string

definition new_FileTransfer :: filetransfer where
  "new_FileTransfer = \<lparr>ft_sends = [], ft_tasks = [], ft_sending = [], ft_receiving = [],
     ft_channelListeners = [], ft_attached = [], ft_fresh = 0\<rparr>"

section \<open>Shared pieces\<close>

text \<open>
  \<open>Math.round(a / b)\<close> in exact arithmetic, \<open>None\<close> where the quotient is not a
  number, and the transfer rate, whose elapsed time of zero counts as one second.
\<close>

definition js_round :: "int \<Rightarrow> int \<Rightarrow> int option" where
  "js_round a b = (if b = 0 then None else Some ((2 * a + b) div (2 * b)))"

definition bytes_rate :: "int \<Rightarrow> int \<Rightarrow> int \<Rightarrow> int option" where
  "bytes_rate n now since = (if now - since = 0 then js_round n 1 else js_round (n * 1000) (now - since))"

definition upd_send :: "nat \<Rightarrow> (active_send \<Rightarrow> active_send) \<Rightarrow> filetransfer \<Rightarrow> filetransfer" where
  "upd_send r f s = s\<lparr>ft_sends := (ft_sends s)[r := f (ft_sends s ! r)]\<rparr>"

definition set_pc :: "nat \<Rightarrow> task_pc \<Rightarrow> filetransfer \<Rightarrow> filetransfer" where
  "set_pc t pc s = s\<lparr>ft_tasks := (ft_tasks s)[t := (fst (ft_tasks s ! t), pc)]\<rparr>"

definition detach :: "nat \<Rightarrow> filetransfer \<Rightarrow> filetransfer" where
  "detach r s = s\<lparr>ft_attached := filter (\<lambda>(_, l). l \<noteq> LSend r) (ft_attached s)\<rparr>"

section \<open>Ending a transfer\<close>

definition cleanupSend :: "string \<Rightarrow> filetransfer \<Rightarrow> filetransfer \<times> ft_out list" where
  "cleanupSend i s =
     (let (s1, out) = (case map_get (ft_sending s) i of
                         Some r \<Rightarrow> (upd_send r (\<lambda>a. a\<lparr>as_chan := ChClosed\<rparr>) s, [ChanClose r])
                       | None \<Rightarrow> (s, []));
          s2 = s1\<lparr>ft_sending := map_del i (ft_sending s1)\<rparr>
      in case map_get (ft_channelListeners s2) i of
           Some r \<Rightarrow> ((detach r s2)\<lparr>ft_channelListeners := map_del i (ft_channelListeners s2)\<rparr>, out)
         | None \<Rightarrow> (s2, out))"

definition as_settle :: "promise \<Rightarrow> nat \<Rightarrow> filetransfer \<Rightarrow> filetransfer" where
  "as_settle p r s = upd_send r (\<lambda>a. a\<lparr>as_promise := settle p (as_promise a), as_timer := False\<rparr>) s"

definition cancelSend :: "string \<Rightarrow> filetransfer \<Rightarrow> filetransfer \<times> ft_out list" where
  "cancelSend i s =
     (case map_get (ft_sending s) i of
        None \<Rightarrow> (s, [])
      | Some r \<Rightarrow>
          (let s1 = upd_send r (\<lambda>a. a\<lparr>as_cancelled := True\<rparr>) s;
               (s2, out) = cleanupSend i s1
           in (as_settle (Rejected ''Transfer cancelled'') r s2, out @ [EmitCancelled i])))"

definition ft_destroy :: "filetransfer \<Rightarrow> filetransfer \<times> ft_out list" where
  "ft_destroy s =
     (let s1 = fold (\<lambda>(i, r). upd_send r (\<lambda>a. a\<lparr>as_cancelled := True\<rparr>)) (ft_sending s) s;
          (s2, out) = fold (\<lambda>i (s, out). let (s', o') = cleanupSend i s in (s', out @ o'))
                        (map_keys (ft_sending s1)) (s1, [])
      in (s2\<lparr>ft_receiving := []\<rparr>, out))"

section \<open>The sending loop\<close>

text \<open>
  \<open>loop_top\<close> runs from the loop condition to the next \<open>await\<close>.  The slice is
  read at the index of that moment and the task is suspended while its bytes are fetched.
\<close>

definition read_slice :: "nat \<Rightarrow> nat \<Rightarrow> filetransfer \<Rightarrow> filetransfer" where
  "read_slice t r s =
     (let a = ft_sends s ! r
      in set_pc t (TRead (chunk_of (as_file a) (as_chunkSize a) (as_currentIndex a))) s)"

definition drain :: "ft_env \<Rightarrow> nat \<Rightarrow> filetransfer \<Rightarrow> filetransfer" where
  "drain env t s = set_pc t (if env_amount env > 0 then TDrain else TDelay) s"

definition after_loop :: "ft_env \<Rightarrow> nat \<Rightarrow> nat \<Rightarrow> filetransfer \<Rightarrow> filetransfer" where
  "after_loop env t r s =
     (let a = ft_sends s ! r in
      if \<not> as_cancelled a \<and> as_currentIndex a \<ge> int (as_totalChunks a) then drain env t s
      else set_pc t TDone s)"

definition loop_top :: "ft_env \<Rightarrow> nat \<Rightarrow> nat \<Rightarrow> filetransfer \<Rightarrow> filetransfer" where
  "loop_top env t r s =
     (let a = ft_sends s ! r in
      if as_currentIndex a < int (as_totalChunks a) \<and> \<not> as_cancelled a then
        if env_amount env > BUFFERED_AMOUNT_HIGH
        then set_pc t TLowWait (upd_send r (\<lambda>a. a\<lparr>as_onlow := Some t\<rparr>) s)
        else read_slice t r s
      else after_loop env t r s)"

definition startSending :: "ft_env \<Rightarrow> nat \<Rightarrow> filetransfer \<Rightarrow> filetransfer" where
  "startSending env r s =
     (let t = length (ft_tasks s);
          s1 = s\<lparr>ft_tasks := ft_tasks s @ [(r, TOpenWait)]\<rparr>
      in if as_chan (ft_sends s ! r) \<noteq> ChOpen
         then upd_send r (\<lambda>a. a\<lparr>as_onopen := Some t\<rparr>) s1
         else loop_top env t r s1)"

definition send_progress :: "ft_env \<Rightarrow> active_send \<Rightarrow> transfer_progress" where
  "send_progress env a =
     \<lparr>pr_id = as_id a, pr_sent = as_currentIndex a, pr_total = int (as_totalChunks a),
      pr_percentage = js_round (as_currentIndex a * 100) (int (as_totalChunks a)),
      pr_bytesPerSecond = bytes_rate (int (as_bytesSent a)) (env_now env) (as_startTime a)\<rparr>"

definition fail_send :: "nat \<Rightarrow> nat \<Rightarrow> string \<Rightarrow> filetransfer \<Rightarrow> filetransfer \<times> ft_out list" where
  "fail_send t r msg s =
     (let (s1, out) = cleanupSend (as_id (ft_sends s ! r)) s
      in (set_pc t TDone (as_settle (Rejected msg) r s1), out))"

definition push_chunk :: "ft_env \<Rightarrow> nat \<Rightarrow> nat \<Rightarrow> bytes \<Rightarrow> filetransfer \<Rightarrow> filetransfer \<times> ft_out list" where
  "push_chunk env t r buffer s =
     (let a = ft_sends s ! r in
      if as_chan a = ChOpen \<and> env_chanOk env then
        (let s1 = upd_send r (\<lambda>a. a\<lparr>as_bytesSent := as_bytesSent a + length buffer,
                                    as_currentIndex := as_currentIndex a + 1\<rparr>) s;
             a1 = ft_sends s1 ! r;
             s2 = (if as_currentIndex a1 mod 50 = 0 then set_pc t TYield s1 else loop_top env t r s1)
         in (s2, [ChanSend r (encodeChunk (as_currentIndex a) buffer),
                  EmitProgress (send_progress env a1)]))
      else fail_send t r ''Send failed at chunk'' s)"

definition finish_send :: "ft_env \<Rightarrow> nat \<Rightarrow> nat \<Rightarrow> filetransfer \<Rightarrow> filetransfer \<times> ft_out list" where
  "finish_send env t r s =
     (let a = ft_sends s ! r;
          sent = (if env_sendOk env then [PeerSend (as_peer a) (Complete (as_id a))] else []);
          (s1, out) = cleanupSend (as_id a) s
      in (set_pc t TDone (as_settle (Resolved (as_id a)) r s1), sent @ [EmitSent (as_id a)] @ out))"

definition task_resume :: "ft_env \<Rightarrow> nat \<Rightarrow> filetransfer \<Rightarrow> filetransfer \<times> ft_out list" where
  "task_resume env t s =
     (if t < length (ft_tasks s) then
        (let (r, pc) = ft_tasks s ! t in
         case pc of
           TOpened \<Rightarrow> (loop_top env t r s, [])
         | TLow \<Rightarrow> (if as_cancelled (ft_sends s ! r) then after_loop env t r s else read_slice t r s, [])
         | TRead buffer \<Rightarrow> push_chunk env t r buffer s
         | TYield \<Rightarrow> (loop_top env t r s, [])
         | TDrain \<Rightarrow> (drain env t s, [])
         | TDelay \<Rightarrow> finish_send env t r s
         | _ \<Rightarrow> (s, []))
      else (s, []))"

text \<open>Callbacks of the data channel and of the timers.\<close>

definition chan_open :: "nat \<Rightarrow> filetransfer \<Rightarrow> filetransfer" where
  "chan_open r s =
     (if r < length (ft_sends s) \<and> as_chan (ft_sends s ! r) = ChConnecting then
        (let s1 = upd_send r (\<lambda>a. a\<lparr>as_chan := ChOpen\<rparr>) s in
         case as_onopen (ft_sends s ! r) of
           Some t \<Rightarrow> if t < length (ft_tasks s) \<and> snd (ft_tasks s ! t) = TOpenWait
                     then set_pc t TOpened s1 else s1
         | None \<Rightarrow> s1)
      else s)"

definition chan_low :: "nat \<Rightarrow> filetransfer \<Rightarrow> filetransfer" where
  "chan_low r s =
     (if r < length (ft_sends s) then
        (case as_onlow (ft_sends s ! r) of
           Some t \<Rightarrow> (let s1 = upd_send r (\<lambda>a. a\<lparr>as_onlow := None\<rparr>) s in
                     if t < length (ft_tasks s) \<and> snd (ft_tasks s ! t) = TLowWait
                     then set_pc t TLow s1 else s1)
         | None \<Rightarrow> s)
      else s)"

definition chan_closed :: "nat \<Rightarrow> filetransfer \<Rightarrow> filetransfer" where
  "chan_closed r s =
     (if r < length (ft_sends s) then upd_send r (\<lambda>a. a\<lparr>as_chan := ChClosed\<rparr>) s else s)"

definition open_timeout :: "nat \<Rightarrow> filetransfer \<Rightarrow> filetransfer \<times> ft_out list" where
  "open_timeout t s =
     (if t < length (ft_tasks s) \<and> snd (ft_tasks s ! t) = TOpenWait
      then (set_pc t TDone s, [UnhandledRejection ''Transfer channel open timeout'']) else (s, []))"

definition read_fails :: "nat \<Rightarrow> filetransfer \<Rightarrow> filetransfer \<times> ft_out list" where
  "read_fails t s =
     (if t < length (ft_tasks s) then
        (case ft_tasks s ! t of
           (r, TRead _) \<Rightarrow> fail_send t r ''read failed'' s
         | _ \<Rightarrow> (s, []))
      else (s, []))"

definition offer_timeout :: "nat \<Rightarrow> filetransfer \<Rightarrow> filetransfer \<times> ft_out list" where
  "offer_timeout r s =
     (if r < length (ft_sends s) \<and> as_timer (ft_sends s ! r) then
        (let a = ft_sends s ! r;
             s0 = upd_send r (\<lambda>a. a\<lparr>as_timer := False\<rparr>) s
         in if map_has (ft_sending s0) (as_id a) \<and> as_currentIndex a = 0 \<and> \<not> as_cancelled a
            then (let (s1, out) = cleanupSend (as_id a) s0
                  in (upd_send r (\<lambda>a. a\<lparr>as_promise :=
                        settle (Rejected ''Transfer offer timeout'') (as_promise a)\<rparr>) s1, out))
            else (s0, []))
      else (s, []))"

section \<open>The public operations\<close>

text \<open>
  \<open>send\<close>: \<open>i\<close> is the identifier \<open>uid()\<close> returned.  A throw of
  \<open>peer.send\<close> rejects the returned promise before anything is registered.
\<close>

definition ft_send ::
  "ft_env \<Rightarrow> bool \<Rightarrow> string \<Rightarrow> string \<Rightarrow> bytes \<Rightarrow> string option \<Rightarrow> string option \<Rightarrow> string \<Rightarrow>
   filetransfer \<Rightarrow> filetransfer \<times> ft_out list" where
  "ft_send env connected i peer file filename fileName mime s =
     (if \<not> connected then (s, [SendRejected ''Peer not connected''])
      else
        (let name = (case filename of Some n \<Rightarrow> n | None \<Rightarrow> (case fileName of Some n \<Rightarrow> n | None \<Rightarrow> ''file''));
             total = ceil_div (length file) CHUNK_SIZE;
             offer = Offer i name (length file) (if mime = [] then ''application/octet-stream'' else mime)
                       CHUNK_SIZE total;
             r = length (ft_sends s);
             active = \<lparr>as_id = i, as_file = file, as_filename = name, as_peer = peer,
                as_chan = ChConnecting, as_onopen = None, as_onlow = None, as_totalChunks = total,
                as_chunkSize = CHUNK_SIZE, as_currentIndex = 0, as_cancelled = False,
                as_paused = False, as_startTime = env_now env, as_bytesSent = 0,
                as_promise = Pending, as_timer = True\<rparr>
         in if env_sendOk env
            then (s\<lparr>ft_sends := ft_sends s @ [active],
                    ft_sending := map_set i r (ft_sending s),
                    ft_attached := ft_attached s @ [(peer, LSend r)],
                    ft_channelListeners := map_set i r (ft_channelListeners s)\<rparr>,
                  [PeerSend peer offer])
            else (s, [SendRejected ''peer.send failed''])))"

definition reply :: "ft_env \<Rightarrow> string \<Rightarrow> transfer_control \<Rightarrow> ft_out list" where
  "reply env fp c =
     (if env_sendOk env then [PeerSend fp c] else [Throws ''peer.send failed''])"

definition reply_quietly :: "ft_env \<Rightarrow> string \<Rightarrow> transfer_control \<Rightarrow> ft_out list" where
  "reply_quietly env fp c = (if env_peer env fp \<and> env_sendOk env then [PeerSend fp c] else [])"

definition ft_accept :: "ft_env \<Rightarrow> string \<Rightarrow> filetransfer \<Rightarrow> filetransfer \<times> ft_out list" where
  "ft_accept env i s =
     (case map_get (ft_receiving s) i of
        None \<Rightarrow> (s, [])
      | Some recv \<Rightarrow>
          if \<not> env_peer env (ar_from recv) then (s, [])
          else (s, reply env (ar_from recv) (Accept i)))"

definition ft_reject :: "ft_env \<Rightarrow> string \<Rightarrow> filetransfer \<Rightarrow> filetransfer \<times> ft_out list" where
  "ft_reject env i s =
     (case map_get (ft_receiving s) i of
        None \<Rightarrow> (s, [])
      | Some recv \<Rightarrow>
          if env_peer env (ar_from recv) \<and> \<not> env_sendOk env then (s, [Throws ''peer.send failed''])
          else (s\<lparr>ft_receiving := map_del i (ft_receiving s)\<rparr>,
                if env_peer env (ar_from recv) then [PeerSend (ar_from recv) (Cancel i)] else []))"

definition ft_cancel :: "ft_env \<Rightarrow> string \<Rightarrow> filetransfer \<Rightarrow> filetransfer \<times> ft_out list" where
  "ft_cancel env i s =
     (let (s1, out) = (if map_has (ft_sending s) i then cancelSend i s else (s, []))
      in case map_get (ft_receiving s1) i of
           None \<Rightarrow> (s1, out)
         | Some recv \<Rightarrow>
             (s1\<lparr>ft_receiving := map_del i (ft_receiving s1)\<rparr>,
              out @ reply_quietly env (ar_from recv) (Cancel i) @ [EmitCancelled i]))"

definition requestResume :: "ft_env \<Rightarrow> string \<Rightarrow> int \<Rightarrow> filetransfer \<Rightarrow> filetransfer \<times> ft_out list" where
  "requestResume env i lastIndex s =
     (case map_get (ft_receiving s) i of
        None \<Rightarrow> (s, [])
      | Some recv \<Rightarrow>
          (s, if env_peer env (ar_from recv) then reply env (ar_from recv) (Resume i lastIndex) else []))"

definition getReceiveProgress :: "string \<Rightarrow> filetransfer \<Rightarrow> transfer_progress option" where
  "getReceiveProgress i s =
     (case map_get (ft_receiving s) i of
        None \<Rightarrow> None
      | Some recv \<Rightarrow> Some \<lparr>pr_id = i, pr_sent = int (ar_received recv),
          pr_total = int (m_totalChunks (ar_meta recv)),
          pr_percentage = js_round (int (ar_received recv) * 100) (int (m_totalChunks (ar_meta recv))),
          pr_bytesPerSecond = None\<rparr>)"

definition handleIncoming :: "string \<Rightarrow> filetransfer \<Rightarrow> filetransfer" where
  "handleIncoming peer s =
     s\<lparr>ft_attached := ft_attached s @ [(peer, LIncoming (ft_fresh s))], ft_fresh := Suc (ft_fresh s)\<rparr>"

section \<open>Receiving\<close>

definition assembleFile :: "string \<Rightarrow> filetransfer \<Rightarrow> filetransfer \<times> ft_out list" where
  "assembleFile i s =
     (case map_get (ft_receiving s) i of
        None \<Rightarrow> (s, [])
      | Some recv \<Rightarrow>
          (let missing = length (takeWhile (\<lambda>c. c \<noteq> None) (ar_chunks recv)) in
           if missing < length (ar_chunks recv) \<and> missing < m_totalChunks (ar_meta recv)
           then (s, [EmitError i missing])
           else (s\<lparr>ft_receiving := map_del i (ft_receiving s)\<rparr>,
                 [EmitComplete i (concat (List.map_filter id (ar_chunks recv)))
                    (ar_meta recv) (ar_from recv)])))"

definition handleControl ::
  "ft_env \<Rightarrow> transfer_control \<Rightarrow> string \<Rightarrow> filetransfer \<Rightarrow> filetransfer \<times> ft_out list" where
  "handleControl env data from s =
     (case data of
        Offer i filename sz mime chunkSize totalChunks \<Rightarrow>
          if totalChunks \<ge> 2 ^ 32 then (s, [ListenerThrows ''Invalid array length''])
          else
            (let meta = \<lparr>m_id = i, m_filename = filename, m_size = sz, m_mime = mime,
                         m_totalChunks = totalChunks, m_chunkSize = chunkSize\<rparr>;
                 recv = \<lparr>ar_id = i, ar_meta = meta, ar_chunks = replicate totalChunks None,
                         ar_received = 0, ar_from = from, ar_startTime = env_now env\<rparr>
             in (s\<lparr>ft_receiving := map_set i recv (ft_receiving s)\<rparr>, [EmitIncoming meta from]))
      | Complete i \<Rightarrow> assembleFile i s
      | Cancel i \<Rightarrow>
          (let (s1, out) = (if map_has (ft_sending s) i then cancelSend i s else (s, []))
           in if map_has (ft_receiving s1) i
              then (s1\<lparr>ft_receiving := map_del i (ft_receiving s1)\<rparr>, out @ [EmitCancelled i])
              else (s1, out))
      | _ \<Rightarrow> (s, []))"

definition store_chunk :: "nat \<Rightarrow> bytes \<Rightarrow> active_receive \<Rightarrow> active_receive" where
  "store_chunk index data recv =
     (if ar_chunks recv ! index = None
      then recv\<lparr>ar_chunks := (ar_chunks recv)[index := Some data], ar_received := ar_received recv + 1\<rparr>
      else recv)"

definition recv_progress :: "ft_env \<Rightarrow> string \<Rightarrow> active_receive \<Rightarrow> transfer_progress" where
  "recv_progress env i recv =
     \<lparr>pr_id = i, pr_sent = int (ar_received recv), pr_total = int (m_totalChunks (ar_meta recv)),
      pr_percentage = js_round (int (ar_received recv) * 100) (int (m_totalChunks (ar_meta recv))),
      pr_bytesPerSecond = bytes_rate (int (ar_received recv * m_chunkSize (ar_meta recv)))
        (env_now env) (ar_startTime recv)\<rparr>"

definition handleBinaryChunk ::
  "ft_env \<Rightarrow> bytes \<Rightarrow> string \<Rightarrow> string \<Rightarrow> filetransfer \<Rightarrow> filetransfer \<times> ft_out list" where
  "handleBinaryChunk env buffer from channel s =
     (if take (length TRANSFER_CHANNEL_PREFIX) channel \<noteq> TRANSFER_CHANNEL_PREFIX then (s, [])
      else
        (let i = drop (length TRANSFER_CHANNEL_PREFIX) channel in
         case map_get (ft_receiving s) i of
           None \<Rightarrow> (s, [])
         | Some recv \<Rightarrow>
             if ar_from recv \<noteq> from then (s, [])
             else (case decodeChunk buffer of
                     None \<Rightarrow> (s, [ListenerThrows ''Offset is outside the bounds of the DataView''])
                   | Some (index, data) \<Rightarrow>
                       if index \<ge> m_totalChunks (ar_meta recv) then (s, [])
                       else
                         (let recv1 = store_chunk index data recv
                          in (s\<lparr>ft_receiving := map_set i recv1 (ft_receiving s)\<rparr>,
                              EmitProgress (recv_progress env i recv1) #
                              (if ar_received recv1 mod ACK_INTERVAL = 0
                               then reply_quietly env from (Ack i index) else []))))))"

section \<open>Dispatch of a peer's \<open>data\<close> event\<close>

definition on_send_data :: "ft_env \<Rightarrow> nat \<Rightarrow> ft_data \<Rightarrow> filetransfer \<Rightarrow> filetransfer \<times> ft_out list" where
  "on_send_data env r data s =
     (let i = as_id (ft_sends s ! r) in
      case data of
        Ctl (Accept j) \<Rightarrow> if j = i then (startSending env r s, []) else (s, [])
      | Ctl (Cancel j) \<Rightarrow> if j = i then cancelSend i s else (s, [])
      | Ctl (Resume j lastIndex) \<Rightarrow>
          if j = i then (startSending env r (upd_send r (\<lambda>a. a\<lparr>as_currentIndex := lastIndex + 1\<rparr>) s), [])
          else (s, [])
      | _ \<Rightarrow> (s, []))"

definition on_incoming_data ::
  "ft_env \<Rightarrow> string \<Rightarrow> ft_data \<Rightarrow> string \<Rightarrow> filetransfer \<Rightarrow> filetransfer \<times> ft_out list" where
  "on_incoming_data env fp data channel s =
     (case data of
        Binary buf \<Rightarrow> handleBinaryChunk env buf fp channel s
      | Ctl c \<Rightarrow> handleControl env c fp s
      | OtherData \<Rightarrow> (s, []))"

text \<open>
  The listeners run in the order in which they were attached; one that an earlier one detached is
  skipped.
\<close>

fun dispatch ::
  "ft_env \<Rightarrow> string \<Rightarrow> ft_data \<Rightarrow> string \<Rightarrow> data_listener list \<Rightarrow> filetransfer \<Rightarrow> filetransfer \<times> ft_out list"
where
  "dispatch env fp data ch [] s = (s, [])"
| "dispatch env fp data ch (l # ls) s =
     (let (s1, out1) =
            (if (fp, l) \<notin> set (ft_attached s) then (s, [])
             else case l of LIncoming _ \<Rightarrow> on_incoming_data env fp data ch s
                          | LSend r \<Rightarrow> on_send_data env r data s);
          (s2, out2) = dispatch env fp data ch ls s1
      in (s2, out1 @ out2))"

definition peer_data :: "ft_env \<Rightarrow> string \<Rightarrow> ft_data \<Rightarrow> string \<Rightarrow> filetransfer \<Rightarrow> filetransfer \<times> ft_out list" where
  "peer_data env fp data ch s =
     dispatch env fp data ch (map snd (filter (\<lambda>(p, _). p = fp) (ft_attached s))) s"

section \<open>The machine\<close>

datatype ft_event =
    CallSend bool string string bytes "string option" "string option" string
  | CallAccept string
  | CallReject string
  | CallCancel string
  | CallResume string int
  | CallHandleIncoming string
  | CallOffIncoming string nat
  | CallDestroy
  | PeerData string ft_data string
  | TaskResume nat
  | ChanOpened nat
  | ChanLow nat
  | ChanClosedEv nat
  | OpenTimeout nat
  | ReadFails nat
  | OfferTimeout nat

fun ft_step :: "filetransfer \<Rightarrow> ft_env \<times> ft_event \<Rightarrow> filetransfer \<times> ft_out list" where
  "ft_step s (env, CallSend connected i peer file filename fileName mime) =
     ft_send env connected i peer file filename fileName mime s"
| "ft_step s (env, CallAccept i) = ft_accept env i s"
| "ft_step s (env, CallReject i) = ft_reject env i s"
| "ft_step s (env, CallCancel i) = ft_cancel env i s"
| "ft_step s (env, CallResume i n) = requestResume env i n s"
| "ft_step s (env, CallHandleIncoming fp) = (handleIncoming fp s, [])"
| "ft_step s (env, CallOffIncoming fp n) =
     (s\<lparr>ft_attached := filter (\<lambda>x. x \<noteq> (fp, LIncoming n)) (ft_attached s)\<rparr>, [])"
| "ft_step s (env, CallDestroy) = ft_destroy s"
| "ft_step s (env, PeerData fp data ch) = peer_data env fp data ch s"
| "ft_step s (env, TaskResume t) = task_resume env t s"
| "ft_step s (env, ChanOpened r) = (chan_open r s, [])"
| "ft_step s (env, ChanLow r) = (chan_low r s, [])"
| "ft_step s (env, ChanClosedEv r) = (chan_closed r s, [])"
| "ft_step s (env, OpenTimeout t) = open_timeout t s"
| "ft_step s (env, ReadFails t) = read_fails t s"
| "ft_step s (env, OfferTimeout r) = offer_timeout r s"

text \<open>An environment in which nothing fails and the buffer is empty, for concrete runs.\<close>

definition demo_env :: ft_env where
  "demo_env = \<lparr>env_peer = (\<lambda>_. True), env_sendOk = True, env_chanOk = True, env_amount = 0, env_now = 0\<rparr>"

end
