(* ===== verification/Transfer_Recv.thy ===== *)
theory Transfer_Recv
  imports FileTransfer
begin

text \<open>
  The receiving side of \<open>FileTransfer\<close>: the invariant of the receive table, and that a
  file comes back byte for byte whatever the order and repetition in which its chunks arrive and
  whatever other transfers run on the same object meanwhile.
\<close>

section \<open>The sending side leaves the receive table alone\<close>

fun is_incoming :: "data_listener \<Rightarrow> bool" where
  "is_incoming (LIncoming n) = True"
| "is_incoming (LSend r) = False"

definition incoming :: "filetransfer \<Rightarrow> (string \<times> data_listener) list" where
  "incoming s = filter (\<lambda>(_, l). is_incoming l) (ft_attached s)"

text \<open>The part of the state the receiving side reads.\<close>

definition rx_view :: "filetransfer \<Rightarrow> (string, active_receive) jsmap \<times> (string \<times> data_listener) list" where
  "rx_view s = (ft_receiving s, incoming s)"

lemma incoming_detach [simp]: "incoming (detach r s) = incoming s"
  by (auto simp: incoming_def detach_def intro!: filter_cong)

lemma rx_upd_send [simp]: "rx_view (upd_send r f s) = rx_view s"
  by (simp add: upd_send_def rx_view_def incoming_def)

lemma rx_set_pc [simp]: "rx_view (set_pc t pc s) = rx_view s"
  by (simp add: set_pc_def rx_view_def incoming_def)

lemma rx_settle [simp]: "rx_view (as_settle p r s) = rx_view s"
  by (simp add: as_settle_def)

lemma rx_fields [simp]:
  "rx_view (s\<lparr>ft_sending := m\<rparr>) = rx_view s"
  "rx_view (s\<lparr>ft_channelListeners := cl\<rparr>) = rx_view s"
  "rx_view (s\<lparr>ft_tasks := ts\<rparr>) = rx_view s"
  "rx_view (detach r s) = rx_view s"
  by (simp_all add: rx_view_def) (simp_all add: incoming_def detach_def)

lemma rx_receiving_upd [simp]: "rx_view (s\<lparr>ft_receiving := m\<rparr>) = (m, incoming s)"
  by (simp add: rx_view_def incoming_def)

lemma rx_cleanupSend [simp]: "rx_view (fst (cleanupSend i s)) = rx_view s"
  by (simp add: cleanupSend_def Let_def split: option.split)

lemma rx_cancelSend [simp]: "rx_view (fst (cancelSend i s)) = rx_view s"
  by (simp add: cancelSend_def Let_def split_def split: option.split)

lemma rx_loop [simp]:
  "rx_view (loop_top env t r s) = rx_view s"
  "rx_view (after_loop env t r s) = rx_view s"
  "rx_view (read_slice t r s) = rx_view s"
  "rx_view (drain env t s) = rx_view s"
  by (simp_all add: loop_top_def after_loop_def read_slice_def drain_def Let_def)

lemma rx_startSending [simp]: "rx_view (startSending env r s) = rx_view s"
  by (simp add: startSending_def Let_def)

lemma rx_fail_send [simp]: "rx_view (fst (fail_send t r m s)) = rx_view s"
  by (simp add: fail_send_def Let_def split_def)

lemma rx_task_resume [simp]: "rx_view (fst (task_resume env t s)) = rx_view s"
  by (simp add: task_resume_def push_chunk_def finish_send_def Let_def split_def split: task_pc.split)

lemma rx_callbacks [simp]:
  "rx_view (chan_open r s) = rx_view s"
  "rx_view (chan_low r s) = rx_view s"
  "rx_view (chan_closed r s) = rx_view s"
  "rx_view (fst (open_timeout t s)) = rx_view s"
  "rx_view (fst (read_fails t s)) = rx_view s"
  "rx_view (fst (offer_timeout r s)) = rx_view s"
  by (simp_all add: chan_open_def chan_low_def chan_closed_def open_timeout_def read_fails_def
      offer_timeout_def Let_def split_def split: option.split task_pc.split)

lemma rx_ft_send [simp]: "rx_view (fst (ft_send env b i p f n m k s)) = rx_view s"
  by (simp add: ft_send_def Let_def rx_view_def incoming_def)

lemma rx_on_send_data [simp]: "rx_view (fst (on_send_data env r d s)) = rx_view s"
  by (simp add: on_send_data_def Let_def split: ft_data.split transfer_control.split)

lemma rx_viewD:
  assumes "rx_view s' = rx_view s"
  shows "ft_receiving s' = ft_receiving s"
    and "(p, LIncoming n) \<in> set (ft_attached s') \<longleftrightarrow> (p, LIncoming n) \<in> set (ft_attached s)"
proof -
  show "ft_receiving s' = ft_receiving s" using assms by (simp add: rx_view_def)
  from assms have "set (incoming s') = set (incoming s)" by (simp add: rx_view_def)
  then have "(p, LIncoming n) \<in> set (incoming s') \<longleftrightarrow> (p, LIncoming n) \<in> set (incoming s)" by simp
  then show "(p, LIncoming n) \<in> set (ft_attached s') \<longleftrightarrow> (p, LIncoming n) \<in> set (ft_attached s)"
    by (simp add: incoming_def)
qed

lemmas rx_receiving = rx_viewD(1)
lemmas rx_attached = rx_viewD(2)

section \<open>The invariant of the receive table\<close>

definition recv_ok :: "string \<Rightarrow> active_receive \<Rightarrow> bool" where
  "recv_ok i recv \<longleftrightarrow>
     ar_id recv = i \<and> m_id (ar_meta recv) = i \<and> m_totalChunks (ar_meta recv) < 2 ^ 32 \<and>
     length (ar_chunks recv) = m_totalChunks (ar_meta recv) \<and>
     ar_received recv = length (List.map_filter id (ar_chunks recv))"

definition recvs_ok :: "(string, active_receive) jsmap \<Rightarrow> bool" where
  "recvs_ok m \<longleftrightarrow> map_wf m \<and> (\<forall>i recv. map_get m i = Some recv \<longrightarrow> recv_ok i recv)"

definition recv_inv :: "filetransfer \<Rightarrow> bool" where
  "recv_inv s \<longleftrightarrow> recvs_ok (fst (rx_view s))"

lemma recvs_ok_del [inv_intros]: "recvs_ok m \<Longrightarrow> recvs_ok (map_del i m)"
  by (auto simp: recvs_ok_def split: if_splits)

lemma recvs_ok_set [inv_intros]: "recvs_ok m \<Longrightarrow> recv_ok i recv \<Longrightarrow> recvs_ok (map_set i recv m)"
  by (auto simp: recvs_ok_def)

lemma recvs_okD: "recvs_ok m \<Longrightarrow> map_get m i = Some recv \<Longrightarrow> recv_ok i recv"
  by (simp add: recvs_ok_def)

lemma fst_rx_view [simp]: "fst (rx_view s) = ft_receiving s"
  by (simp add: rx_view_def)

lemma length_present_upd:
  "k < length cs \<Longrightarrow> cs ! k = None \<Longrightarrow>
   length (List.map_filter id (cs[k := Some d])) = Suc (length (List.map_filter id cs))"
  by (induction cs arbitrary: k) (auto simp: map_filter_simps nth_Cons split: option.splits nat.splits)

lemma present_replicate [simp]: "List.map_filter id (replicate n None) = []"
  by (induction n) (auto simp: map_filter_simps)

lemma recv_ok_store:
  "recv_ok i recv \<Longrightarrow> k < m_totalChunks (ar_meta recv) \<Longrightarrow> recv_ok i (store_chunk k d recv)"
  by (simp add: recv_ok_def store_chunk_def length_present_upd)

lemma recv_inv_rxI: "recv_inv s \<Longrightarrow> rx_view s' = rx_view s \<Longrightarrow> recv_inv s'"
  by (simp add: recv_inv_def rx_view_def)

lemma recv_inv_receiving [simp]: "recv_inv (s\<lparr>ft_receiving := m\<rparr>) = recvs_ok m"
  by (simp add: recv_inv_def)

lemma recv_inv_recvs: "recv_inv s \<Longrightarrow> recvs_ok (ft_receiving s)"
  by (simp add: recv_inv_def)

lemma recv_inv_assemble: "recv_inv s \<Longrightarrow> recv_inv (fst (assembleFile i s))"
  by (simp add: assembleFile_def Let_def recv_inv_recvs recvs_ok_del split: option.split)

lemma recv_inv_cancelSend: "recv_inv s \<Longrightarrow> recv_inv (fst (cancelSend i s))"
  by (erule recv_inv_rxI) simp

lemma receiving_cancelSend [simp]: "ft_receiving (fst (cancelSend i s)) = ft_receiving s"
  by (rule rx_receiving) simp

lemma recv_inv_control: "recv_inv s \<Longrightarrow> recv_inv (fst (handleControl env c fp s))"
  by (cases c) (simp_all add: handleControl_def Let_def split_def recv_inv_assemble recv_inv_cancelSend
      recv_inv_recvs recvs_ok_del recvs_ok_set recv_ok_def)

lemma recv_inv_chunk: "recv_inv s \<Longrightarrow> recv_inv (fst (handleBinaryChunk env b fp ch s))"
  by (auto simp: handleBinaryChunk_def Let_def intro!: recvs_ok_set recv_ok_store
      intro: recv_inv_recvs recvs_okD split: option.split)

lemma recv_inv_listener:
  "recv_inv s \<Longrightarrow> recv_inv (fst (on_incoming_data env fp d ch s))"
  "recv_inv s \<Longrightarrow> recv_inv (fst (on_send_data env r d s))"
  by (simp_all add: on_incoming_data_def recv_inv_control recv_inv_chunk split: ft_data.split)
    (erule recv_inv_rxI, simp)

lemma recv_inv_dispatch: "recv_inv s \<Longrightarrow> recv_inv (fst (dispatch env fp d ch ls s))"
  by (induction ls arbitrary: s)
    (simp_all add: split_def Let_def recv_inv_listener split: data_listener.split)

lemma recv_inv_destroy: "recv_inv (fst (ft_destroy s))"
  by (simp add: ft_destroy_def Let_def split_def recvs_ok_def)

lemma recv_inv_cancel: "recv_inv s \<Longrightarrow> recv_inv (fst (ft_cancel env i s))"
  by (simp add: ft_cancel_def Let_def split_def recv_inv_cancelSend recv_inv_recvs recvs_ok_del
      split: option.split)

lemma recv_inv_attached [simp]: "recv_inv (s\<lparr>ft_attached := as\<rparr>) = recv_inv s"
  by (simp add: recv_inv_def)

lemma recv_inv_step: "recv_inv s \<Longrightarrow> recv_inv (fst (ft_step s e))"
proof (induction s e rule: ft_step.induct)
  case (3 s env i)
  then show ?case
    by (simp add: ft_reject_def recv_inv_recvs recvs_ok_del split: option.split)
next
  case (9 s env fp data ch)
  then show ?case by (simp add: peer_data_def recv_inv_dispatch)
qed (simp_all add: recv_inv_cancel recv_inv_destroy ft_accept_def requestResume_def
      split: option.split, simp_all add: recv_inv_rxI, simp_all add: recv_inv_def handleIncoming_def)

interpretation transfer_recv: machine ft_step recv_inv "\<lambda>_. True"
  by unfold_locales (rule recv_inv_step)

text \<open>
  C9. Receive table invariant: after any sequence of calls, channel events and messages, every
  transfer in the receive table is filed under its own identifier, has one slot per announced
  chunk, and its \<open>received\<close> counter is exactly the number of slots filled; so the
  reported progress never runs past the announced total.
\<close>

theorem receive_counter_exact:
  assumes "map_get (ft_receiving (run_state ft_step new_FileTransfer es)) i = Some recv"
  shows "ar_id recv = i \<and> length (ar_chunks recv) = m_totalChunks (ar_meta recv) \<and>
     ar_received recv = length (List.map_filter id (ar_chunks recv)) \<and>
     ar_received recv \<le> m_totalChunks (ar_meta recv)"
proof -
  have "recv_inv new_FileTransfer" by (simp add: recv_inv_def recvs_ok_def new_FileTransfer_def)
  then have "recv_inv (run_state ft_step new_FileTransfer es)"
    by (rule transfer_recv.run_inv) (simp add: list_all_iff)
  with assms have "recv_ok i recv" by (blast intro: recv_inv_recvs recvs_okD)
  moreover have "length (List.map_filter id (ar_chunks recv)) \<le> length (ar_chunks recv)"
    by (simp add: map_filter_def)
  ultimately show ?thesis by (simp add: recv_ok_def)
qed

lemma replicate_2: "replicate 2 x = [x, x]"
  by (simp add: numeral_2_eq_2)

definition demo_recv :: "(ft_env \<times> ft_event) list" where
  "demo_recv = [(demo_env, CallHandleIncoming ''p''),
     (demo_env, PeerData ''p'' (Ctl (Offer ''x'' ''f'' 3 ''m'' 2 2)) ''data''),
     (demo_env, PeerData ''p'' (Binary (encodeChunk 1 [9])) ''ft-x'')]"

lemma demo_recv_state:
  "map_get (ft_receiving (run_state ft_step new_FileTransfer demo_recv)) ''x'' =
   Some \<lparr>ar_id = ''x'', ar_meta = \<lparr>m_id = ''x'', m_filename = ''f'', m_size = 3, m_mime = ''m'',
           m_totalChunks = 2, m_chunkSize = 2\<rparr>, ar_chunks = [None, Some [9]], ar_received = 1,
         ar_from = ''p'', ar_startTime = 0\<rparr>"
  by (simp add: demo_recv_def demo_env_def new_FileTransfer_def handleIncoming_def peer_data_def
      on_incoming_data_def handleControl_def handleBinaryChunk_def store_chunk_def decode_encode
      limit_defs replicate_2 Let_def)

theorem receive_counter_exact_witness:
  "ar_received (the (map_get (ft_receiving (run_state ft_step new_FileTransfer demo_recv)) ''x'')) \<le> 2"
  using receive_counter_exact [OF demo_recv_state] by (simp add: demo_recv_state)

section \<open>Reassembly\<close>

text \<open>
  The message that carries chunk \<open>k\<close> of a file, and the events that do not concern
  transfer \<open>i\<close> from \<open>fp\<close>: anything on other transfers, and chunks that
  claim this transfer but come from another peer.
\<close>

definition chunk_ev :: "bytes \<Rightarrow> nat \<Rightarrow> string \<Rightarrow> string \<Rightarrow> nat \<Rightarrow> ft_event" where
  "chunk_ev f c fp i k =
     PeerData fp (Binary (encodeChunk (int k) (chunk_of f c (int k)))) (TRANSFER_CHANNEL_PREFIX @ i)"

fun ctl_id :: "transfer_control \<Rightarrow> string" where
  "ctl_id (Offer i _ _ _ _ _) = i"
| "ctl_id (Accept i) = i"
| "ctl_id (Ack i _) = i"
| "ctl_id (Complete i) = i"
| "ctl_id (Cancel i) = i"
| "ctl_id (Resume i _) = i"
| "ctl_id (TransferErr i _) = i"

fun foreign :: "string \<Rightarrow> string \<Rightarrow> ft_event \<Rightarrow> bool" where
  "foreign fp i (CallReject j) = (j \<noteq> i)"
| "foreign fp i (CallCancel j) = (j \<noteq> i)"
| "foreign fp i (CallOffIncoming p n) = (p \<noteq> fp)"
| "foreign fp i CallDestroy = False"
| "foreign fp i (PeerData p (Binary b) ch) = (p \<noteq> fp \<or> ch \<noteq> TRANSFER_CHANNEL_PREFIX @ i)"
| "foreign fp i (PeerData p (Ctl c) ch) = (ctl_id c \<noteq> i)"
| "foreign fp i _ = True"

definition rx :: "bytes \<Rightarrow> nat \<Rightarrow> string \<Rightarrow> string \<Rightarrow> file_metadata \<Rightarrow> nat set \<Rightarrow> filetransfer \<Rightarrow> bool" where
  "rx f c fp i meta D s \<longleftrightarrow>
     (\<exists>n. (fp, LIncoming n) \<in> set (ft_attached s)) \<and>
     (\<exists>recv. map_get (ft_receiving s) i = Some recv \<and> ar_from recv = fp \<and> ar_meta recv = meta \<and>
        ar_chunks recv = map (\<lambda>k. if k \<in> D then Some (chunk_of f c (int k)) else None)
                             [0..<m_totalChunks meta])"

definition keeps :: "string \<Rightarrow> string \<Rightarrow> filetransfer \<Rightarrow> filetransfer \<Rightarrow> bool" where
  "keeps fp i s s' \<longleftrightarrow>
     (\<forall>recv. map_get (ft_receiving s) i = Some recv \<and> ar_from recv = fp \<longrightarrow>
        map_get (ft_receiving s') i = Some recv) \<and>
     (\<forall>n. (fp, LIncoming n) \<in> set (ft_attached s) \<longrightarrow> (fp, LIncoming n) \<in> set (ft_attached s'))"

lemma keeps_refl [simp, intro]: "keeps fp i s s"
  by (simp add: keeps_def)

lemma keeps_trans: "keeps fp i s s' \<Longrightarrow> keeps fp i s' s'' \<Longrightarrow> keeps fp i s s''"
  by (auto simp: keeps_def)

lemma keeps_rx_view: "rx_view s' = rx_view s \<Longrightarrow> keeps fp i s s'"
  by (auto simp: keeps_def dest: rx_receiving rx_attached [THEN iffD2])

lemma rx_keeps: "rx f c fp i meta D s \<Longrightarrow> keeps fp i s s' \<Longrightarrow> rx f c fp i meta D s'"
  by (auto simp: rx_def keeps_def)

lemma keeps_del: "j \<noteq> i \<Longrightarrow> keeps fp i s s1 \<Longrightarrow> keeps fp i s (s1\<lparr>ft_receiving := map_del j (ft_receiving s1)\<rparr>)"
  by (simp add: keeps_def)

lemma keeps_set:
  "j \<noteq> i \<Longrightarrow> keeps fp i s s1 \<Longrightarrow> keeps fp i s (s1\<lparr>ft_receiving := map_set j v (ft_receiving s1)\<rparr>)"
  by (simp add: keeps_def)

lemma keeps_assemble: "j \<noteq> i \<Longrightarrow> keeps fp i s (fst (assembleFile j s))"
  unfolding assembleFile_def Let_def
  by (cases "map_get (ft_receiving s) j") (auto intro: keeps_del)

lemma keeps_cancel:
  "keeps fp i s (fst (cancelSend j s))"
  "j \<noteq> i \<Longrightarrow> keeps fp i s ((fst (cancelSend j s))\<lparr>ft_receiving := map_del j (ft_receiving s)\<rparr>)"
proof -
  show 1: "keeps fp i s (fst (cancelSend j s))" by (rule keeps_rx_view) simp
  assume "j \<noteq> i"
  from keeps_del [OF this 1]
  show "keeps fp i s ((fst (cancelSend j s))\<lparr>ft_receiving := map_del j (ft_receiving s)\<rparr>)" by simp
qed

lemma keeps_control: "ctl_id c \<noteq> i \<Longrightarrow> keeps fp i s (fst (handleControl env c p s))"
  by (cases c)
    (simp_all add: handleControl_def Let_def split_def keeps_set keeps_assemble keeps_del keeps_cancel)

lemma keeps_chunk:
  assumes "p \<noteq> fp \<or> ch \<noteq> TRANSFER_CHANNEL_PREFIX @ i"
  shows "keeps fp i s (fst (handleBinaryChunk env b p ch s))"
proof (cases "drop (length TRANSFER_CHANNEL_PREFIX) ch = i \<and>
              take (length TRANSFER_CHANNEL_PREFIX) ch = TRANSFER_CHANNEL_PREFIX")
  case True
  then have "ch = TRANSFER_CHANNEL_PREFIX @ i" by (metis append_take_drop_id)
  with assms True show ?thesis
    by (auto simp: handleBinaryChunk_def Let_def keeps_def split: option.split)
next
  case False
  then show ?thesis
    by (auto simp: handleBinaryChunk_def Let_def intro: keeps_del keeps_set split: option.split)
qed

lemma keeps_dispatch:
  assumes "foreign fp i (PeerData p d ch)"
  shows "keeps fp i s (fst (dispatch env p d ch ls s))"
proof (induction ls arbitrary: s)
  case (Cons l ls)
  have inc: "keeps fp i s (fst (on_incoming_data env p d ch s))" for s
    using assms by (cases d) (auto simp: on_incoming_data_def intro: keeps_control keeps_chunk)
  have snd: "keeps fp i s (fst (on_send_data env r d s))" for r s
    by (rule keeps_rx_view) simp
  show ?case
    by (cases l) (simp_all add: split_def Let_def Cons.IH keeps_trans [OF inc Cons.IH]
        keeps_trans [OF snd Cons.IH])
qed simp

lemma keeps_foreign: "foreign fp i ev \<Longrightarrow> keeps fp i s (fst (ft_step s (env, ev)))"
proof (cases ev)
  case (CallCancel j)
  moreover assume "foreign fp i ev"
  ultimately show ?thesis
    by (simp add: ft_cancel_def Let_def split_def keeps_del keeps_cancel split: option.split)
next
  case (CallReject j)
  moreover assume "foreign fp i ev"
  ultimately show ?thesis by (auto simp: ft_reject_def intro: keeps_del keeps_set split: option.split)
next
  case (PeerData p d ch)
  moreover assume "foreign fp i ev"
  ultimately show ?thesis by (simp add: peer_data_def keeps_dispatch)
qed (auto simp: ft_accept_def requestResume_def keeps_rx_view split: option.split,
     auto simp: keeps_def handleIncoming_def)

text \<open>A chunk of the transfer fills its slot and disturbs no other, however often it is handled.\<close>

lemma attached_chunk [simp]: "ft_attached (fst (handleBinaryChunk env b p ch s)) = ft_attached s"
  by (simp add: handleBinaryChunk_def Let_def split: option.split)

lemma rx_chunk:
  assumes "rx f c fp i meta D s" "k < m_totalChunks meta" "m_totalChunks meta < 2 ^ 32"
  shows "rx f c fp i meta (insert k D)
    (fst (handleBinaryChunk env (encodeChunk (int k) (chunk_of f c (int k))) fp (TRANSFER_CHANNEL_PREFIX @ i) s))"
proof -
  obtain recv where recv: "map_get (ft_receiving s) i = Some recv" "ar_from recv = fp" "ar_meta recv = meta"
    "ar_chunks recv = map (\<lambda>k. if k \<in> D then Some (chunk_of f c (int k)) else None) [0..<m_totalChunks meta]"
    using assms(1) by (auto simp: rx_def)
  let ?recv = "store_chunk k (chunk_of f c (int k)) recv"
  have "ar_chunks ?recv =
      map (\<lambda>j. if j \<in> insert k D then Some (chunk_of f c (int j)) else None) [0..<m_totalChunks meta]"
    using assms(2) recv(4) by (auto simp: store_chunk_def nth_list_update intro!: nth_equalityI)
  moreover have "ar_from ?recv = fp" "ar_meta ?recv = meta"
    using recv by (simp_all add: store_chunk_def)
  moreover have "nat (int k mod 2 ^ 32) = k" using assms(2,3) by simp
  ultimately show ?thesis
    using assms recv
    by (auto simp: rx_def handleBinaryChunk_def Let_def decode_encode simp del: power_numeral)
qed

lemma rx_dispatch_chunk:
  assumes "k < m_totalChunks meta" "m_totalChunks meta < 2 ^ 32" "rx f c fp i meta D s"
  shows "rx f c fp i meta
    (if \<exists>n. LIncoming n \<in> set ls \<and> (fp, LIncoming n) \<in> set (ft_attached s) then insert k D else D)
    (fst (dispatch env fp (Binary (encodeChunk (int k) (chunk_of f c (int k)))) (TRANSFER_CHANNEL_PREFIX @ i) ls s))"
  using assms(3)
proof (induction ls arbitrary: s D)
  case (Cons l ls)
  show ?case
  proof (cases "is_incoming l \<and> (fp, l) \<in> set (ft_attached s)")
    case True
    then obtain n where l: "l = LIncoming n" by (cases l) auto
    let ?s = "fst (handleBinaryChunk env (encodeChunk (int k) (chunk_of f c (int k))) fp
                     (TRANSFER_CHANNEL_PREFIX @ i) s)"
    from Cons.IH [OF rx_chunk [OF Cons.prems assms(1,2), of env]] True l show ?thesis
      by (auto simp: split_def Let_def on_incoming_data_def split: if_splits)
  next
    case False
    then show ?thesis using Cons.IH [OF Cons.prems]
      by (cases l) (auto simp: split_def Let_def on_send_data_def split: if_splits)
  qed
qed simp

lemma rx_step_chunk:
  assumes "k < m_totalChunks meta" "m_totalChunks meta < 2 ^ 32" "rx f c fp i meta D s"
  shows "rx f c fp i meta (insert k D) (fst (ft_step s (env, chunk_ev f c fp i k)))"
proof -
  obtain n where "(fp, LIncoming n) \<in> set (ft_attached s)" using assms(3) by (auto simp: rx_def)
  then have "\<exists>n. LIncoming n \<in> set (map snd (filter (\<lambda>(p, _). p = fp) (ft_attached s))) \<and>
                 (fp, LIncoming n) \<in> set (ft_attached s)"
    by force
  with rx_dispatch_chunk [OF assms, of "map snd (filter (\<lambda>(p, _). p = fp) (ft_attached s))" env]
  show ?thesis by (simp add: chunk_ev_def peer_data_def)
qed

text \<open>An offer opens an empty slot per chunk.\<close>

lemma rx_offer:
  assumes "(fp, LIncoming m) \<in> set (ft_attached s)" "m_totalChunks meta < 2 ^ 32"
    "meta = \<lparr>m_id = i, m_filename = nm, m_size = sz, m_mime = mime, m_totalChunks = n, m_chunkSize = c\<rparr>"
  shows "rx f c fp i meta {} (fst (handleControl env (Offer i nm sz mime c n) fp s))"
  using assms by (auto simp: rx_def handleControl_def Let_def map_replicate_const)

lemma rx_dispatch_offer:
  assumes "m_totalChunks meta < 2 ^ 32"
    "meta = \<lparr>m_id = i, m_filename = nm, m_size = sz, m_mime = mime, m_totalChunks = n, m_chunkSize = c\<rparr>"
    "(fp, LIncoming m) \<in> set (ft_attached s)"
    "LIncoming m \<in> set ls \<or> rx f c fp i meta {} s"
  shows "rx f c fp i meta {} (fst (dispatch env fp (Ctl (Offer i nm sz mime c n)) ch ls s))"
  using assms(3,4)
proof (induction ls arbitrary: s)
  case (Cons l ls)
  let ?s = "fst (handleControl env (Offer i nm sz mime c n) fp s)"
  have att: "(fp, LIncoming m) \<in> set (ft_attached ?s)"
    using Cons.prems(1) by (simp add: handleControl_def Let_def)
  show ?case
  proof (cases "is_incoming l \<and> (fp, l) \<in> set (ft_attached s)")
    case True
    then obtain k where "l = LIncoming k" by (cases l) auto
    with True Cons.IH [OF att] rx_offer [OF Cons.prems(1) assms(1,2)] show ?thesis
      by (simp add: split_def Let_def on_incoming_data_def)
  next
    case False
    then have "LIncoming m \<in> set ls \<or> rx f c fp i meta {} s" using Cons.prems by auto
    from Cons.IH [OF Cons.prems(1) this] False show ?thesis
      by (cases l) (auto simp: split_def Let_def on_send_data_def)
  qed
qed simp

text \<open>The completion message assembles the chunks held at that moment.\<close>

lemma assemble_again:
  "set (snd (assembleFile i (fst (assembleFile i s)))) \<subseteq> set (snd (assembleFile i s))"
  by (simp add: assembleFile_def Let_def split: option.split)

lemma attached_assemble [simp]: "ft_attached (fst (assembleFile i s)) = ft_attached s"
  by (simp add: assembleFile_def Let_def split: option.split)

lemma dispatch_complete:
  "set (snd (dispatch env fp (Ctl (Complete i)) ch ls s)) =
     (if \<exists>n. LIncoming n \<in> set ls \<and> (fp, LIncoming n) \<in> set (ft_attached s)
      then set (snd (assembleFile i s)) else {})"
proof (induction ls arbitrary: s)
  case (Cons l ls)
  show ?case
  proof (cases "is_incoming l \<and> (fp, l) \<in> set (ft_attached s)")
    case True
    then obtain n where "l = LIncoming n" by (cases l) auto
    with True Cons.IH [of "fst (assembleFile i s)"] assemble_again [of i s] show ?thesis
      by (auto simp: split_def Let_def on_incoming_data_def handleControl_def split: if_splits)
  next
    case False
    have "dispatch env fp (Ctl (Complete i)) ch (l # ls) s = dispatch env fp (Ctl (Complete i)) ch ls s"
      using False by (cases l) (auto simp: split_def Let_def on_send_data_def)
    moreover have "(LIncoming n \<in> set (l # ls) \<and> (fp, LIncoming n) \<in> set (ft_attached s)) =
        (LIncoming n \<in> set ls \<and> (fp, LIncoming n) \<in> set (ft_attached s))" for n
      using False by auto
    ultimately show ?thesis using Cons.IH [of s] by (simp only:)
  qed
qed simp

lemma takeWhile_upt_first:
  assumes "m < n" "m \<notin> D" "\<And>j. j < m \<Longrightarrow> j \<in> D"
  shows "takeWhile (\<lambda>k. k \<in> D) [0..<n] = [0..<m]"
proof -
  have "[0..<n] = [0..<m] @ m # [Suc m..<n]"
    using assms(1) upt_add_eq_append [of 0 m "n - m"] by (simp add: upt_conv_Cons)
  with assms(2,3) show ?thesis by (simp add: takeWhile_append)
qed

lemma takeWhile_upt:
  "takeWhile (\<lambda>k. k \<in> D) [0..<n] = (if {..<n} \<subseteq> D then [0..<n] else [0..<LEAST k. k \<notin> D])"
proof (cases "{..<n} \<subseteq> D")
  case True
  then have "takeWhile (\<lambda>k. k \<in> D) [0..<n] = [0..<n]"
    unfolding takeWhile_eq_all_conv by auto
  with True show ?thesis by (simp only: if_True)
next
  case False
  then obtain k where k: "k < n" "k \<notin> D" by auto
  note m = LeastI [of "\<lambda>k. k \<notin> D", OF k(2)] Least_le [of "\<lambda>k. k \<notin> D", OF k(2)]
  have "takeWhile (\<lambda>k. k \<in> D) [0..<n] = [0..<LEAST k. k \<notin> D]"
    by (rule takeWhile_upt_first [OF le_less_trans [OF m(2) k(1)] m(1)])
      (drule not_less_Least, simp)
  with False show ?thesis by (simp only: if_False)
qed

lemma takeWhile_present:
  "length (takeWhile (\<lambda>x. x \<noteq> None) (map (\<lambda>k. if k \<in> D then Some (g k) else None) [0..<n])) =
     (if {..<n} \<subseteq> D then n else LEAST k. k \<notin> D)"
proof -
  have "(\<lambda>x. x \<noteq> None) \<circ> (\<lambda>k. if k \<in> D then Some (g k) else None) = (\<lambda>k. k \<in> D)"
    by (simp add: fun_eq_iff del: not_None_eq)
  then show ?thesis by (simp only: takeWhile_map takeWhile_upt length_map) simp
qed

lemma present_all:
  "{..<n} \<subseteq> D \<Longrightarrow>
   List.map_filter id (map (\<lambda>k. if k \<in> D then Some (g k) else None) [0..<n]) = map g [0..<n]"
  by (induction n) (auto simp: map_filter_def lessThan_Suc)

lemma rx_assemble:
  assumes "rx f c fp i meta D s" "0 < c" "m_totalChunks meta = ceil_div (length f) c"
  shows "snd (assembleFile i s) =
    (if {..<m_totalChunks meta} \<subseteq> D then [EmitComplete i f meta fp] else [EmitError i (LEAST k. k \<notin> D)])"
proof -
  let ?n = "m_totalChunks meta" and ?h = "\<lambda>k. if k \<in> D then Some (chunk_of f c (int k)) else None"
  obtain recv where recv: "map_get (ft_receiving s) i = Some recv" "ar_from recv = fp" "ar_meta recv = meta"
    "ar_chunks recv = map ?h [0..<?n]"
    using assms(1) by (auto simp: rx_def)
  have least: "(LEAST k. k \<notin> D) < ?n" if "\<not> {..<?n} \<subseteq> D"
    using that by (meson Least_le lessThan_iff order_le_less_trans subsetI)
  have "concat (List.map_filter id (map ?h [0..<?n])) = f" if "{..<?n} \<subseteq> D"
    unfolding present_all [OF that] using concat_chunks [OF assms(2), of f] by (simp add: assms(3))
  with recv least show ?thesis by (simp add: assembleFile_def Let_def takeWhile_present del: not_None_eq)
qed

text \<open>
  A transfer as the receiver sees it: the deliveries are chunk numbers (\<open>Inl\<close>) in any
  order and with repetitions, mixed with events that do not concern it (\<open>Inr\<close>).
\<close>

definition deliveries ::
  "bytes \<Rightarrow> nat \<Rightarrow> string \<Rightarrow> string \<Rightarrow> (ft_env \<times> (nat + ft_event)) list \<Rightarrow> (ft_env \<times> ft_event) list" where
  "deliveries f c fp i xs =
     map (\<lambda>(env, x). (env, case x of Inl k \<Rightarrow> chunk_ev f c fp i k | Inr ev \<Rightarrow> ev)) xs"

definition delivered :: "(ft_env \<times> (nat + ft_event)) list \<Rightarrow> nat set" where
  "delivered xs = set (concat (map (\<lambda>(env, x). case x of Inl k \<Rightarrow> [k] | Inr ev \<Rightarrow> []) xs))"

lemma delivered_simps [simp]:
  "delivered [] = {}"
  "delivered ((env, Inl k) # xs) = insert k (delivered xs)"
  "delivered ((env, Inr ev) # xs) = delivered xs"
  by (simp_all add: delivered_def)

lemma deliveries_simps [simp]:
  "deliveries f c fp i [] = []"
  "deliveries f c fp i ((env, Inl k) # xs) = (env, chunk_ev f c fp i k) # deliveries f c fp i xs"
  "deliveries f c fp i ((env, Inr ev) # xs) = (env, ev) # deliveries f c fp i xs"
  by (simp_all add: deliveries_def)

lemma rx_run:
  assumes "m_totalChunks meta < 2 ^ 32" "rx f c fp i meta D s"
    "\<forall>x\<in>set (map snd xs). case x of Inl k \<Rightarrow> k < m_totalChunks meta | Inr ev \<Rightarrow> foreign fp i ev"
  shows "rx f c fp i meta (D \<union> delivered xs) (run_state ft_step s (deliveries f c fp i xs))"
  using assms(2,3)
proof (induction xs arbitrary: s D)
  case Nil
  then show ?case by simp
next
  case (Cons x xs)
  obtain env y where x: "x = (env, y)" by (cases x)
  show ?case
  proof (cases y)
    case (Inl k)
    have "rx f c fp i meta (insert k D) (fst (ft_step s (env, chunk_ev f c fp i k)))"
      using Cons.prems x Inl by (intro rx_step_chunk assms(1)) auto
    from Cons.IH [OF this] Cons.prems x Inl show ?thesis
      by (simp del: run.simps(2))
  next
    case (Inr ev)
    have "rx f c fp i meta D (fst (ft_step s (env, ev)))"
      using Cons.prems x Inr by (intro rx_keeps [OF Cons.prems(1)] keeps_foreign) auto
    from Cons.IH [OF this] Cons.prems x Inr show ?thesis
      by (simp del: run.simps(2))
  qed
qed

lemma reassembly:
  assumes "0 < c" "n = ceil_div (length f) c" "n < 2 ^ 32"
    and "(fp, LIncoming m) \<in> set (ft_attached s)"
    and "meta = \<lparr>m_id = i, m_filename = nm, m_size = length f, m_mime = mime, m_totalChunks = n, m_chunkSize = c\<rparr>"
    and "s1 = fst (ft_step s (e0, PeerData fp (Ctl (Offer i nm (length f) mime c n)) ch))"
    and "\<forall>x\<in>set (map snd xs). case x of Inl k \<Rightarrow> k < n | Inr ev \<Rightarrow> foreign fp i ev"
    and "s2 = run_state ft_step s1 (deliveries f c fp i xs)"
  shows "set (snd (ft_step s2 (e1, PeerData fp (Ctl (Complete i)) ch'))) =
    (if {..<n} \<subseteq> delivered xs then {EmitComplete i f meta fp}
     else {EmitError i (LEAST k. k \<notin> delivered xs)})"
proof -
  have mt: "m_totalChunks meta = n" by (simp add: assms(5))
  have "LIncoming m \<in> set (map snd (filter (\<lambda>(p, _). p = fp) (ft_attached s)))"
    using assms(4) by force
  from rx_dispatch_offer [OF _ assms(5,4) disjI1 [OF this], of f e0 ch]
  have "rx f c fp i meta {} s1" using assms(3) by (simp add: assms(6) peer_data_def mt)
  from rx_run [OF _ this, of xs, unfolded mt] assms(3,7) have rx: "rx f c fp i meta (delivered xs) s2"
    by (simp add: assms(8))
  then obtain k where "(fp, LIncoming k) \<in> set (ft_attached s2)" by (auto simp: rx_def)
  then have "\<exists>n. LIncoming n \<in> set (map snd (filter (\<lambda>(p, _). p = fp) (ft_attached s2))) \<and>
                 (fp, LIncoming n) \<in> set (ft_attached s2)" by force
  with rx_assemble [OF rx assms(1)] show ?thesis
    by (simp add: peer_data_def dispatch_complete mt assms(2))
qed

text \<open>
  C6. A received file is the file that was sent.  Let a peer whose messages the object listens to
  announce a file of \<open>n\<close> chunks, let its chunks arrive in any order, with any
  repetitions, mixed with any other events that do not concern this transfer (other transfers,
  task and channel events, chunks another peer sends on this transfer's channel), and then let the
  completion message arrive.  If every chunk number was delivered the object emits
  \<open>complete\<close> with exactly the bytes of the file; otherwise it emits an error naming
  the first missing chunk and no file.
\<close>

theorem file_reassembled:
  assumes "0 < c" "n = ceil_div (length f) c" "n < 2 ^ 32"
    and "(fp, LIncoming m) \<in> set (ft_attached s)"
    and "meta = \<lparr>m_id = i, m_filename = nm, m_size = length f, m_mime = mime, m_totalChunks = n, m_chunkSize = c\<rparr>"
    and "s1 = fst (ft_step s (e0, PeerData fp (Ctl (Offer i nm (length f) mime c n)) ch))"
    and "\<forall>x\<in>set (map snd xs). case x of Inl k \<Rightarrow> k < n | Inr ev \<Rightarrow> foreign fp i ev"
    and "s2 = run_state ft_step s1 (deliveries f c fp i xs)"
  shows "set (snd (ft_step s2 (e1, PeerData fp (Ctl (Complete i)) ch'))) =
    (if {..<n} \<subseteq> delivered xs then {EmitComplete i f meta fp}
     else {EmitError i (LEAST k. k \<notin> delivered xs)})"
  by (rule reassembly [OF assms])

definition demo_listening :: filetransfer where
  "demo_listening = handleIncoming ''p'' new_FileTransfer"

definition demo_deliveries :: "(ft_env \<times> (nat + ft_event)) list" where
  "demo_deliveries =
     [(demo_env, Inl 1), (demo_env, Inr (PeerData ''q'' (Binary [0, 0, 0, 0, 66]) ''ft-x'')), (demo_env, Inl 0),
      (demo_env, Inl 1)]"

lemma lessThan_2_delivered: "{..<2::nat} \<subseteq> delivered demo_deliveries"
  by (auto simp: demo_deliveries_def)

theorem file_reassembled_witness:
  "set (snd (ft_step
     (run_state ft_step
        (fst (ft_step demo_listening (demo_env, PeerData ''p'' (Ctl (Offer ''x'' ''f'' 3 ''m'' 2 2)) ''data'')))
        (deliveries [1, 2, 3] 2 ''p'' ''x'' demo_deliveries))
     (demo_env, PeerData ''p'' (Ctl (Complete ''x'')) ''data''))) =
   {EmitComplete ''x'' [1, 2, 3] \<lparr>m_id = ''x'', m_filename = ''f'', m_size = 3, m_mime = ''m'',
      m_totalChunks = 2, m_chunkSize = 2\<rparr> ''p''}"
proof -
  have n: "2 = ceil_div (length [1, 2, 3 :: byte]) 2" by (simp add: ceil_div_def)
  have att: "(''p'', LIncoming 0) \<in> set (ft_attached demo_listening)"
    by (simp add: demo_listening_def handleIncoming_def new_FileTransfer_def)
  have fgn: "\<forall>x\<in>set (map snd demo_deliveries). case x of Inl k \<Rightarrow> k < 2 | Inr ev \<Rightarrow> foreign ''p'' ''x'' ev"
    by (simp add: demo_deliveries_def limit_defs)
  have len: "length [1, 2, 3 :: byte] = 3" by simp
  show ?thesis
    using file_reassembled [OF _ n _ att refl refl fgn refl, where nm = "''f''" and mime = "''m''" and
        ?e0.0 = demo_env and ?e1.0 = demo_env and ch = "''data''" and ch' = "''data''"]
    by (simp only: len lessThan_2_delivered if_True) simp
qed

text \<open>
  Control messages, unlike chunks, are not matched against the peer the transfer came from: a
  \<open>cancel\<close> from any peer the object listens to drops the transfer of another.
\<close>

theorem stranger_cancels:
  "map_get (ft_receiving s) i = Some recv \<Longrightarrow> map_get (ft_sending s) i = None \<Longrightarrow> ar_from recv \<noteq> q \<Longrightarrow>
   map_get (ft_receiving (fst (handleControl env (Cancel i) q s))) i = None \<and>
   EmitCancelled i \<in> set (snd (handleControl env (Cancel i) q s))"
  by (simp add: handleControl_def Let_def map_has_get)

end
