(* ===== verification/Transfer_Send.thy ===== *)
theory Transfer_Send
  imports FileTransfer
begin

text \<open>
  The sending side of \<open>FileTransfer\<close>.  A transfer run by a single
  \<open>startSending\<close> task sends the chunks of its file once each and in order, whatever is
  interleaved with it; two tasks on the same transfer corrupt it; and \<open>destroy\<close> leaves
  a transfer that was not accepted yet without an outcome.
\<close>

section \<open>What the sending loop reads\<close>

text \<open>The fields of an \<open>ActiveSend\<close> that decide which bytes are sent next.\<close>

definition core :: "active_send \<Rightarrow> string \<times> bytes \<times> nat \<times> nat \<times> int" where
  "core a = (as_id a, as_file a, as_totalChunks a, as_chunkSize a, as_currentIndex a)"

definition good_pc :: "active_send \<Rightarrow> task_pc \<Rightarrow> bool" where
  "good_pc a pc =
     (case pc of
        TRead buf \<Rightarrow> buf = chunk_of (as_file a) (as_chunkSize a) (as_currentIndex a) \<and>
                     as_currentIndex a < int (as_totalChunks a)
      | TLow \<Rightarrow> as_currentIndex a < int (as_totalChunks a)
      | TLowWait \<Rightarrow> as_currentIndex a < int (as_totalChunks a)
      | TDrain \<Rightarrow> as_currentIndex a \<ge> int (as_totalChunks a)
      | TDelay \<Rightarrow> as_currentIndex a \<ge> int (as_totalChunks a)
      | _ \<Rightarrow> True)"

definition runs_of :: "nat \<Rightarrow> filetransfer \<Rightarrow> nat" where
  "runs_of r s = length (filter (\<lambda>(r', _). r' = r) (ft_tasks s))"

fun chunk_sent :: "nat \<Rightarrow> ft_out \<Rightarrow> bytes list" where
  "chunk_sent r (ChanSend r' b) = (if r' = r then [b] else [])"
| "chunk_sent r _ = []"

definition sent_to :: "nat \<Rightarrow> ft_out list \<Rightarrow> bytes list" where
  "sent_to r outs = concat (map (chunk_sent r) outs)"

lemma sent_to_simps [simp]:
  "sent_to r [] = []" "sent_to r (out # outs) = chunk_sent r out @ sent_to r outs"
  "sent_to r (outs @ outs') = sent_to r outs @ sent_to r outs'"
  by (simp_all add: sent_to_def)

lemma good_pc_free [simp]: "good_pc a TOpenWait" "good_pc a TOpened" "good_pc a TYield" "good_pc a TDone"
  by (simp_all add: good_pc_def)

lemma good_pc_simps:
  "good_pc a (TRead b) \<longleftrightarrow> b = chunk_of (as_file a) (as_chunkSize a) (as_currentIndex a) \<and>
     as_currentIndex a < int (as_totalChunks a)"
  "good_pc a TLow \<longleftrightarrow> as_currentIndex a < int (as_totalChunks a)"
  "good_pc a TLowWait \<longleftrightarrow> as_currentIndex a < int (as_totalChunks a)"
  "good_pc a TDrain \<longleftrightarrow> as_currentIndex a \<ge> int (as_totalChunks a)"
  "good_pc a TDelay \<longleftrightarrow> as_currentIndex a \<ge> int (as_totalChunks a)"
  by (simp_all add: good_pc_def)

lemma good_pc_core: "core a = core b \<Longrightarrow> good_pc a = good_pc b"
  by (auto simp: core_def good_pc_def fun_eq_iff split: task_pc.split)

section \<open>Steps that send nothing\<close>

text \<open>
  A quiet change keeps every transfer's core and every task's transfer, adds no task and no
  listener of a transfer, resolves no promise, and moves a task from a point that is right for the
  core only to another such point.
\<close>

definition same_send :: "active_send \<Rightarrow> active_send \<Rightarrow> bool" where
  "same_send a b \<longleftrightarrow> core b = core a \<and> (\<forall>j. as_promise b = Resolved j \<longrightarrow> as_promise a = Resolved j)"

definition move_pc :: "active_send list \<Rightarrow> nat \<times> task_pc \<Rightarrow> nat \<times> task_pc \<Rightarrow> bool" where
  "move_pc as x y \<longleftrightarrow> fst y = fst x \<and>
     (fst x < length as \<longrightarrow> good_pc (as ! fst x) (snd x) \<longrightarrow> good_pc (as ! fst x) (snd y))"

definition quiet :: "filetransfer \<Rightarrow> filetransfer \<Rightarrow> bool" where
  "quiet s s' \<longleftrightarrow>
     list_all2 same_send (ft_sends s) (ft_sends s') \<and>
     list_all2 (move_pc (ft_sends s)) (ft_tasks s) (ft_tasks s') \<and>
     (\<forall>p r. (p, LSend r) \<in> set (ft_attached s') \<longrightarrow> (p, LSend r) \<in> set (ft_attached s))"

lemma same_send_trans: "same_send a b \<Longrightarrow> same_send b c \<Longrightarrow> same_send a c"
  by (simp add: same_send_def)

lemma same_send_refl [simp]: "same_send a a"
  by (simp add: same_send_def)

lemma move_pc_refl [simp]: "move_pc as x x"
  by (simp add: move_pc_def)

lemma quiet_refl [simp, intro]: "quiet s s"
  by (simp add: quiet_def list_all2_refl)

lemma good_pc_low: "good_pc a TLowWait \<Longrightarrow> good_pc a TLow"
  by (simp add: good_pc_def)

lemma move_pc_trans:
  assumes "list_all2 same_send as bs" "move_pc as x y" "move_pc bs y z"
  shows "move_pc as x z"
proof -
  have "good_pc (bs ! k) = good_pc (as ! k)" if "k < length as" for k
    using list_all2_nthD [OF assms(1) that] good_pc_core [of "bs ! k" "as ! k"]
    by (simp add: same_send_def)
  moreover have "length bs = length as" using assms(1) by (simp add: list_all2_lengthD)
  ultimately show ?thesis using assms(2,3) by (simp add: move_pc_def)
qed

lemma quiet_trans:
  assumes "quiet s s'" "quiet s' s''"
  shows "quiet s s''"
proof -
  from assms have "list_all2 same_send (ft_sends s) (ft_sends s')"
    "list_all2 same_send (ft_sends s') (ft_sends s'')"
    "list_all2 (move_pc (ft_sends s)) (ft_tasks s) (ft_tasks s')"
    "list_all2 (move_pc (ft_sends s')) (ft_tasks s') (ft_tasks s'')"
    by (simp_all add: quiet_def)
  note all2 = this
  have "list_all2 same_send (ft_sends s) (ft_sends s'')"
    by (rule list_all2_trans [OF same_send_trans all2(1,2)])
  moreover have "list_all2 (move_pc (ft_sends s)) (ft_tasks s) (ft_tasks s'')"
    by (rule list_all2_trans [OF move_pc_trans [OF all2(1)] all2(3,4)])
  ultimately show ?thesis using assms by (simp add: quiet_def)
qed

lemma list_all2_update_same:
  "(\<And>x. P x x) \<Longrightarrow> (i < length xs \<Longrightarrow> P (xs ! i) y) \<Longrightarrow> list_all2 P xs (xs[i := y])"
  by (auto simp: list_all2_conv_all_nth) (metis nth_list_update_eq nth_list_update_neq)

lemma quiet_upd_send:
  assumes "\<And>a. core (f a) = core a" "\<And>a j. as_promise (f a) = Resolved j \<Longrightarrow> as_promise a = Resolved j"
  shows "quiet s (upd_send r f s)"
proof -
  have "same_send a (f a)" for a
    unfolding same_send_def using assms(1) assms(2) [of a] by blast
  then have "list_all2 same_send (ft_sends s) ((ft_sends s)[r := f (ft_sends s ! r)])"
    by (intro list_all2_update_same) simp_all
  then show ?thesis by (simp add: quiet_def upd_send_def list_all2_refl)
qed

lemma quiet_fields [simp]:
  "quiet s (s\<lparr>ft_sending := m\<rparr>)"
  "quiet s (s\<lparr>ft_channelListeners := m\<rparr>)"
  "quiet s (s\<lparr>ft_receiving := rc\<rparr>)"
  "quiet s (s\<lparr>ft_attached := filter P (ft_attached s)\<rparr>)"
  "quiet s (handleIncoming p s)"
  "quiet s (detach r s)"
  by (simp_all add: quiet_def list_all2_refl detach_def handleIncoming_def)

lemma quiet_move:
  "(t < length (ft_tasks s) \<Longrightarrow> move_pc (ft_sends s) (ft_tasks s ! t) (fst (ft_tasks s ! t), pc)) \<Longrightarrow>
   quiet s (set_pc t pc s)"
  by (simp add: quiet_def set_pc_def list_all2_refl list_all2_update_same)

lemma quiet_cleanup: "quiet s (fst (cleanupSend i s))"
proof -
  define s1 where "s1 = (case map_get (ft_sending s) i of
      Some r \<Rightarrow> upd_send r (\<lambda>a. a\<lparr>as_chan := ChClosed\<rparr>) s | None \<Rightarrow> s)"
  have 1: "quiet s s1"
    by (auto simp: s1_def core_def intro: quiet_upd_send split: option.split)
  let ?s2 = "s1\<lparr>ft_sending := map_del i (ft_sending s1)\<rparr>"
  have 2: "quiet s ?s2" by (rule quiet_trans [OF 1]) simp
  have 3: "quiet s ((detach r ?s2)\<lparr>ft_channelListeners := m\<rparr>)" for r m
    by (rule quiet_trans [OF 2]) (rule quiet_trans [of _ "detach r ?s2"], simp_all)
  have "fst (cleanupSend i s) = ?s2 \<or> (\<exists>r m. fst (cleanupSend i s) = (detach r ?s2)\<lparr>ft_channelListeners := m\<rparr>)"
    by (auto simp: cleanupSend_def s1_def Let_def split: option.split)
  with 2 3 show ?thesis by auto
qed

lemma quiet_settle: "quiet s (as_settle (Rejected m) r s)"
  unfolding as_settle_def by (rule quiet_upd_send) (auto simp: core_def settle_def split: if_splits)

lemma quiet_cancelSend: "quiet s (fst (cancelSend i s))"
  by (auto simp: cancelSend_def Let_def split_def core_def
      intro!: quiet_trans [OF _ quiet_settle] quiet_trans [OF _ quiet_cleanup] quiet_upd_send split: option.split)

text \<open>The task \<open>t\<close> runs on transfer \<open>r\<close>.\<close>

definition runs_on :: "nat \<Rightarrow> nat \<Rightarrow> filetransfer \<Rightarrow> bool" where
  "runs_on t r s \<longleftrightarrow> t < length (ft_tasks s) \<and> fst (ft_tasks s ! t) = r"

lemma quiet_tasks: "quiet s s' \<Longrightarrow> length (ft_tasks s') = length (ft_tasks s)"
  by (metis quiet_def list_all2_lengthD)

lemma quiet_nth_task:
  "quiet s s' \<Longrightarrow> t < length (ft_tasks s) \<Longrightarrow> move_pc (ft_sends s) (ft_tasks s ! t) (ft_tasks s' ! t)"
  by (simp add: quiet_def list_all2_nthD)

lemma runs_on_quiet: "quiet s s' \<Longrightarrow> runs_on t r s' = runs_on t r s"
  by (auto simp: runs_on_def quiet_tasks move_pc_def dest: quiet_nth_task)

lemma quiet_pc:
  "runs_on t r s \<Longrightarrow> (good_pc (ft_sends s ! r) (snd (ft_tasks s ! t)) \<Longrightarrow> good_pc (ft_sends s ! r) pc) \<Longrightarrow>
   quiet s (set_pc t pc s)"
  by (rule quiet_move) (simp add: runs_on_def move_pc_def)

lemma quiet_done: "quiet s (set_pc t TDone s)"
  by (rule quiet_move) (simp add: good_pc_def move_pc_def)

lemma quiet_drain:
  "runs_on t r s \<Longrightarrow>
   (good_pc (ft_sends s ! r) (snd (ft_tasks s ! t)) \<Longrightarrow>
      as_currentIndex (ft_sends s ! r) \<ge> int (as_totalChunks (ft_sends s ! r))) \<Longrightarrow>
   quiet s (drain env t s)"
  unfolding drain_def by (rule quiet_pc) (auto simp: good_pc_simps)

lemma quiet_after_loop: "runs_on t r s \<Longrightarrow> quiet s (after_loop env t r s)"
  by (auto simp: after_loop_def Let_def runs_on_def intro: quiet_drain quiet_done)

lemma quiet_read_slice:
  "runs_on t r s \<Longrightarrow>
   (good_pc (ft_sends s ! r) (snd (ft_tasks s ! t)) \<Longrightarrow>
      as_currentIndex (ft_sends s ! r) < int (as_totalChunks (ft_sends s ! r))) \<Longrightarrow>
   quiet s (read_slice t r s)"
  unfolding read_slice_def Let_def by (rule quiet_pc) (auto simp: good_pc_simps)

lemma quiet_loop_top:
  assumes "runs_on t r s"
  shows "quiet s (loop_top env t r s)"
proof -
  let ?a = "ft_sends s ! r" and ?s = "upd_send r (\<lambda>a. a\<lparr>as_onlow := Some t\<rparr>) s"
  have q: "quiet s ?s" by (rule quiet_upd_send) (simp_all add: core_def)
  have "quiet s (set_pc t TLowWait ?s)" if "as_currentIndex ?a < int (as_totalChunks ?a)"
  proof (rule quiet_trans [OF q quiet_pc])
    show "runs_on t r ?s" using assms runs_on_quiet [OF q] by simp
    show "good_pc (ft_sends ?s ! r) TLowWait"
      using that by (cases "r < length (ft_sends s)") (simp_all add: upd_send_def good_pc_simps list_update_beyond)
  qed
  with assms show ?thesis
    by (auto simp: loop_top_def Let_def intro: quiet_read_slice quiet_after_loop)
qed

lemma quiet_fail_send: "quiet s (fst (fail_send t r m s))"
  by (auto simp: fail_send_def Let_def split_def
      intro!: quiet_trans [OF quiet_trans [OF quiet_cleanup quiet_settle] quiet_done])

section \<open>A single run sends the file\<close>

definition nth_chunk :: "active_send \<Rightarrow> nat \<Rightarrow> bytes" where
  "nth_chunk a k = encodeChunk (int k) (chunk_of (as_file a) (as_chunkSize a) (int k))"

definition refs_ok :: "filetransfer \<Rightarrow> bool" where
  "refs_ok s \<longleftrightarrow>
     (\<forall>x\<in>set (ft_tasks s). fst x < length (ft_sends s)) \<and>
     (\<forall>p r. (p, LSend r) \<in> set (ft_attached s) \<longrightarrow> r < length (ft_sends s))"

definition run_ok :: "nat \<Rightarrow> filetransfer \<Rightarrow> ft_out list \<Rightarrow> bool" where
  "run_ok r s out \<longleftrightarrow>
     (let a = ft_sends s ! r; c = as_currentIndex a in
      0 \<le> c \<and> c \<le> int (as_totalChunks a) \<and> (runs_of r s = 0 \<longrightarrow> c = 0) \<and>
      sent_to r out = map (nth_chunk a) [0..<nat c] \<and>
      (\<forall>t. runs_on t r s \<longrightarrow> good_pc a (snd (ft_tasks s ! t))) \<and>
      (\<forall>j. as_promise a = Resolved j \<longrightarrow> j = as_id a \<and> c = int (as_totalChunks a)))"

definition send_inv :: "nat \<Rightarrow> filetransfer \<Rightarrow> ft_out list \<Rightarrow> bool" where
  "send_inv r s out \<longleftrightarrow> refs_ok s \<and>
     (length (ft_sends s) \<le> r \<longrightarrow> sent_to r out = []) \<and>
     (r < length (ft_sends s) \<longrightarrow> runs_of r s \<le> 1 \<longrightarrow> run_ok r s out)"

lemma nth_chunk_core: "core a = core b \<Longrightarrow> nth_chunk a = nth_chunk b"
  by (auto simp: core_def nth_chunk_def fun_eq_iff)

lemma quiet_sends: "quiet s s' \<Longrightarrow> length (ft_sends s') = length (ft_sends s)"
  by (metis quiet_def list_all2_lengthD)

lemma quiet_nth_send: "quiet s s' \<Longrightarrow> r < length (ft_sends s) \<Longrightarrow> same_send (ft_sends s ! r) (ft_sends s' ! r)"
  by (simp add: quiet_def list_all2_nthD)

lemma quiet_refs:
  assumes "quiet s s'"
  shows "map fst (ft_tasks s') = map fst (ft_tasks s)"
  using quiet_tasks [OF assms] quiet_nth_task [OF assms]
  by (auto simp: move_pc_def intro!: nth_equalityI)

lemma runs_of_refs: "runs_of r s = length (filter (\<lambda>q. q = r) (map fst (ft_tasks s)))"
  by (simp add: runs_of_def filter_map comp_def split_def)

lemma quiet_runs_of: "quiet s s' \<Longrightarrow> runs_of r s' = runs_of r s"
  by (simp add: runs_of_refs quiet_refs)

lemma quiet_refs_ok:
  assumes "quiet s s'" "refs_ok s"
  shows "refs_ok s'"
proof -
  have "fst ` set (ft_tasks s') = fst ` set (ft_tasks s)"
    using quiet_refs [OF assms(1)] by (metis list.set_map)
  then have "\<forall>x\<in>set (ft_tasks s'). fst x < length (ft_sends s)"
    using assms(2) unfolding refs_ok_def by (metis imageE imageI)
  moreover have "\<forall>p r. (p, LSend r) \<in> set (ft_attached s') \<longrightarrow> r < length (ft_sends s)"
    using assms unfolding quiet_def refs_ok_def by blast
  ultimately show ?thesis by (simp add: refs_ok_def quiet_sends [OF assms(1)])
qed

lemma quiet_run_ok:
  assumes q: "quiet s s'" and ok: "run_ok r s out" and r: "r < length (ft_sends s)" and o: "sent_to r o' = []"
  shows "run_ok r s' (out @ o')"
proof -
  let ?a = "ft_sends s ! r" and ?b = "ft_sends s' ! r"
  have same: "same_send ?a ?b" by (rule quiet_nth_send [OF q r])
  then have core: "core ?b = core ?a" by (simp add: same_send_def)
  then have eqs: "as_currentIndex ?b = as_currentIndex ?a" "as_totalChunks ?b = as_totalChunks ?a"
    "as_id ?b = as_id ?a" "nth_chunk ?b = nth_chunk ?a" "good_pc ?b = good_pc ?a"
    by (simp_all add: nth_chunk_core [OF core] good_pc_core [OF core]) (simp_all add: core_def)
  have "good_pc ?a (snd (ft_tasks s' ! t))" if "runs_on t r s'" for t
  proof -
    have on: "runs_on t r s" using that runs_on_quiet [OF q] by simp
    then have "move_pc (ft_sends s) (ft_tasks s ! t) (ft_tasks s' ! t)"
      by (simp add: runs_on_def quiet_nth_task [OF q])
    moreover have "good_pc ?a (snd (ft_tasks s ! t))"
      using ok on by (simp add: run_ok_def Let_def)
    ultimately show ?thesis using r on by (auto simp: move_pc_def runs_on_def)
  qed
  with ok o same show ?thesis
    by (simp add: run_ok_def Let_def eqs quiet_runs_of [OF q] same_send_def)
qed

lemma send_inv_quiet:
  assumes "quiet s s'" "send_inv r s out" "sent_to r o' = []"
  shows "send_inv r s' (out @ o')"
  using assms quiet_refs_ok [OF assms(1)] quiet_run_ok [OF assms(1) _ _ assms(3)]
  by (simp add: send_inv_def quiet_sends [OF assms(1)] quiet_runs_of [OF assms(1)])

text \<open>Steps that are not quiet: a new run, a chunk sent, a promise resolved, a new transfer.\<close>

lemma runs_of_append:
  "runs_of q (s\<lparr>ft_tasks := ft_tasks s @ [(r, pc)]\<rparr>) = runs_of q s + (if q = r then 1 else 0)"
  by (simp add: runs_of_def)

lemma runs_on_append:
  "runs_on t q (s\<lparr>ft_tasks := ft_tasks s @ [(r, pc)]\<rparr>) \<longleftrightarrow>
   runs_on t q s \<or> (t = length (ft_tasks s) \<and> q = r)"
  by (auto simp: runs_on_def nth_append)

lemma send_inv_append:
  assumes "send_inv q s out" "r < length (ft_sends s)"
  shows "send_inv q (s\<lparr>ft_tasks := ft_tasks s @ [(r, TOpenWait)]\<rparr>) out"
proof -
  have "good_pc a (snd ((ft_tasks s @ [(r, TOpenWait)]) ! t))"
    if "runs_on t q s \<Longrightarrow> good_pc a (snd (ft_tasks s ! t))" "runs_on t q s \<or> t = length (ft_tasks s)" for a t
    using that by (auto simp: nth_append runs_on_def good_pc_simps)
  with assms show ?thesis
    by (auto simp: send_inv_def refs_ok_def run_ok_def Let_def runs_of_append runs_on_append)
qed

lemma sent_cleanup [simp]: "sent_to r (snd (cleanupSend i s)) = []"
  by (simp add: cleanupSend_def Let_def split: option.split)

lemma sent_cancelSend [simp]: "sent_to r (snd (cancelSend i s)) = []"
  by (simp add: cancelSend_def Let_def split_def split: option.split)

lemma sent_fail_send [simp]: "sent_to q (snd (fail_send t r m s)) = []"
  by (simp add: fail_send_def Let_def split_def)

lemma send_inv_quiet0: "quiet s s' \<Longrightarrow> send_inv r s out \<Longrightarrow> send_inv r s' out"
  using send_inv_quiet [of s s' r out "[]"] by simp

lemma send_inv_startSending:
  assumes "send_inv q s out" "r < length (ft_sends s)"
  shows "send_inv q (startSending env r s) out"
proof -
  let ?s = "s\<lparr>ft_tasks := ft_tasks s @ [(r, TOpenWait)]\<rparr>" and ?t = "length (ft_tasks s)"
  have "runs_on ?t r ?s" by (simp add: runs_on_append)
  then have "quiet ?s (loop_top env ?t r ?s)" by (rule quiet_loop_top)
  moreover have "quiet ?s (upd_send r (\<lambda>a. a\<lparr>as_onopen := Some ?t\<rparr>) ?s)"
    by (rule quiet_upd_send) (simp_all add: core_def)
  ultimately show ?thesis
    using send_inv_append [OF assms] unfolding startSending_def Let_def
    by (auto intro: send_inv_quiet0)
qed

lemma runs_of_card: "runs_of r s = card {i. runs_on i r s}"
  unfolding runs_of_def length_filter_conv_card runs_on_def by (simp add: split_def)

lemma single_run:
  assumes "runs_of r s \<le> 1" "runs_on t r s" "runs_on t' r s"
  shows "t = t'"
proof (rule ccontr)
  assume "t \<noteq> t'"
  have "card {t, t'} \<le> card {i. runs_on i r s}"
    using assms(2,3) by (intro card_mono) (auto simp: runs_on_def)
  with assms(1) \<open>t \<noteq> t'\<close> show False by (simp add: runs_of_card)
qed

definition bump :: "bytes \<Rightarrow> active_send \<Rightarrow> active_send" where
  "bump buffer a = a\<lparr>as_bytesSent := as_bytesSent a + length buffer, as_currentIndex := as_currentIndex a + 1\<rparr>"

lemma bump_eq:
  "(\<lambda>a. a\<lparr>as_bytesSent := as_bytesSent a + length buffer, as_currentIndex := as_currentIndex a + 1\<rparr>) = bump buffer"
  by (simp add: bump_def fun_eq_iff)

lemma upd_send_frame:
  "length (ft_sends (upd_send r f s)) = length (ft_sends s)"
  "ft_tasks (upd_send r f s) = ft_tasks s"
  "ft_attached (upd_send r f s) = ft_attached s"
  "runs_of q (upd_send r f s) = runs_of q s"
  "runs_on t q (upd_send r f s) = runs_on t q s"
  "refs_ok (upd_send r f s) = refs_ok s"
  "q \<noteq> r \<Longrightarrow> ft_sends (upd_send r f s) ! q = ft_sends s ! q"
  "r < length (ft_sends s) \<Longrightarrow> ft_sends (upd_send r f s) ! r = f (ft_sends s ! r)"
  by (simp_all add: upd_send_def runs_of_def runs_on_def refs_ok_def)

lemma send_inv_upd_other:
  "send_inv q s out \<Longrightarrow> q \<noteq> r \<Longrightarrow> sent_to q o' = [] \<Longrightarrow> send_inv q (upd_send r f s) (out @ o')"
  by (simp add: send_inv_def run_ok_def Let_def upd_send_frame)

lemma send_inv_bump:
  assumes inv: "send_inv q s out" and r: "r < length (ft_sends s)"
    and one: "runs_of r s \<le> 1 \<Longrightarrow> good_pc (ft_sends s ! r) (TRead buffer) \<and>
      (\<forall>t. runs_on t r s \<longrightarrow> snd (ft_tasks s ! t) = TYield) \<and> runs_of r s \<noteq> 0"
  shows "send_inv q (upd_send r (bump buffer) s)
    (out @ [ChanSend r (encodeChunk (as_currentIndex (ft_sends s ! r)) buffer), EmitProgress p])"
proof (cases "q = r")
  case True
  let ?a = "ft_sends s ! r" and ?c = "as_currentIndex (ft_sends s ! r)"
  have "run_ok r (upd_send r (bump buffer) s) (out @ [ChanSend r (encodeChunk ?c buffer), EmitProgress p])"
    if le: "runs_of r s \<le> 1"
  proof -
    have ok: "run_ok r s out" using inv r le True by (simp add: send_inv_def)
    then have c: "0 \<le> ?c" by (simp add: run_ok_def Let_def)
    have nc: "nth_chunk (bump buffer ?a) = nth_chunk ?a"
      by (simp add: nth_chunk_def bump_def fun_eq_iff)
    from one [OF le] have "encodeChunk ?c buffer = nth_chunk ?a (nat ?c)" "?c < int (as_totalChunks ?a)"
      using c by (simp_all add: good_pc_simps nth_chunk_def)
    moreover have "nat (?c + 1) = Suc (nat ?c)" using c by simp
    moreover have "good_pc a TYield" for a by (simp add: good_pc_simps)
    ultimately show ?thesis
      using ok one [OF le] r
      by (simp add: run_ok_def Let_def upd_send_frame nc) (auto simp: bump_def)
  qed
  with inv r True show ?thesis by (simp add: send_inv_def upd_send_frame)
next
  case False
  then show ?thesis using send_inv_upd_other [OF inv False] by simp
qed

lemma send_inv_resolve:
  assumes inv: "send_inv q s out"
    and one: "runs_of r s \<le> 1 \<Longrightarrow> int (as_totalChunks (ft_sends s ! r)) \<le> as_currentIndex (ft_sends s ! r)"
  shows "send_inv q (as_settle (Resolved (as_id (ft_sends s ! r))) r s) out"
proof (cases "q = r \<and> r < length (ft_sends s)")
  case True
  let ?f = "\<lambda>a. a\<lparr>as_promise := settle (Resolved (as_id (ft_sends s ! r))) (as_promise a), as_timer := False\<rparr>"
  have "run_ok r (upd_send r ?f s) out" if le: "runs_of r s \<le> 1"
  proof -
    have "run_ok r s out" using inv True le by (simp add: send_inv_def)
    moreover have "nth_chunk (?f a) = nth_chunk a" "good_pc (?f a) = good_pc a" for a
      by (auto simp: nth_chunk_def good_pc_def fun_eq_iff split: task_pc.split)
    ultimately show ?thesis
      using one [OF le] True by (auto simp: run_ok_def Let_def upd_send_frame settle_def)
  qed
  with inv True show ?thesis by (simp add: send_inv_def as_settle_def upd_send_frame)
next
  case False
  with inv show ?thesis
    by (cases "q = r") (auto simp: as_settle_def send_inv_def upd_send_frame
        dest: send_inv_upd_other [OF inv, of r "[]"])
qed

section \<open>Every step\<close>

lemma set_pc_set_pc: "set_pc t pc (upd_send r f (set_pc t pc' s)) = set_pc t pc (upd_send r f s)"
  by (cases "t < length (ft_tasks s)") (simp_all add: set_pc_def upd_send_def list_update_beyond)

lemma loop_top_set_pc: "loop_top env t r (upd_send r f (set_pc t pc s)) = loop_top env t r (upd_send r f s)"
proof -
  have "set_pc t p (upd_send r g (upd_send r f (set_pc t pc s))) = set_pc t p (upd_send r g (upd_send r f s))"
    for p g
    by (cases "t < length (ft_tasks s)") (simp_all add: set_pc_def upd_send_def list_update_beyond)
  moreover have "ft_sends (upd_send r f (set_pc t pc s)) = ft_sends (upd_send r f s)"
    by (simp add: set_pc_def upd_send_def)
  ultimately show ?thesis
    by (simp add: loop_top_def after_loop_def drain_def read_slice_def Let_def set_pc_set_pc)
qed

lemma send_inv_task:
  assumes "send_inv r s out" "runs_on t r s" "runs_of r s \<le> 1"
  shows "good_pc (ft_sends s ! r) (snd (ft_tasks s ! t)) \<and> runs_of r s \<noteq> 0"
proof -
  have "r < length (ft_sends s)"
    using assms(1,2) by (auto simp: send_inv_def refs_ok_def runs_on_def)
  moreover have "t \<in> {i. runs_on i r s}" using assms(2) by simp
  then have "runs_of r s \<noteq> 0" unfolding runs_of_card by (auto simp: runs_on_def)
  ultimately show ?thesis using assms by (simp add: send_inv_def run_ok_def Let_def)
qed

lemma send_inv_push:
  assumes inv: "\<And>q. send_inv q s (out q)" and on: "runs_on t r s" and pc: "snd (ft_tasks s ! t) = TRead buffer"
  shows "send_inv q (fst (push_chunk env t r buffer s)) (out q @ snd (push_chunk env t r buffer s))"
proof (cases "as_chan (ft_sends s ! r) = ChOpen \<and> env_chanOk env")
  case True
  let ?s0 = "set_pc t TYield s"
  let ?s1 = "upd_send r (bump buffer) ?s0"
  have r: "r < length (ft_sends s)"
    using inv [of r] on by (auto simp: send_inv_def refs_ok_def runs_on_def)
  have q0: "quiet s ?s0" by (rule quiet_pc [OF on]) simp
  have sends: "ft_sends ?s0 = ft_sends s" by (simp add: set_pc_def)
  have all: "snd (ft_tasks ?s0 ! t') = TYield" if "runs_of r ?s0 \<le> 1" "runs_on t' r ?s0" for t'
  proof -
    have "t' = t" using that on quiet_runs_of [OF q0] runs_on_quiet [OF q0] single_run by metis
    then show ?thesis using on by (simp add: set_pc_def runs_on_def)
  qed
  have s1: "send_inv q ?s1 (out q @ [ChanSend r (encodeChunk (as_currentIndex (ft_sends s ! r)) buffer), EmitProgress p])" for p
    using send_inv_bump [OF send_inv_quiet0 [OF q0 inv [of q]], of r buffer p] r all
      send_inv_task [OF inv [of r] on] pc quiet_runs_of [OF q0, of r]
    by (auto simp: sends)
  have on1: "runs_on t r ?s1" using on runs_on_quiet [OF q0] by (simp add: upd_send_frame)
  have "send_inv q (loop_top env t r ?s1) (out q @ [ChanSend r (encodeChunk (as_currentIndex (ft_sends s ! r)) buffer), EmitProgress p])" for p
    by (rule send_inv_quiet0 [OF quiet_loop_top [OF on1] s1])
  moreover have "send_inv q (set_pc t TYield ?s1) (out q @ [ChanSend r (encodeChunk (as_currentIndex (ft_sends s ! r)) buffer), EmitProgress p])" for p
    by (rule send_inv_quiet0 [OF quiet_pc [OF on1] s1]) simp
  ultimately show ?thesis
    using True unfolding push_chunk_def Let_def loop_top_set_pc set_pc_set_pc bump_eq by auto
next
  case False
  then have "push_chunk env t r buffer s = fail_send t r ''Send failed at chunk'' s"
    by (simp only: push_chunk_def Let_def if_False)
  then show ?thesis using send_inv_quiet [OF quiet_fail_send inv [of q]] by simp
qed

lemma send_inv_finish:
  assumes inv: "\<And>q. send_inv q s (out q)" and on: "runs_on t r s" and pc: "snd (ft_tasks s ! t) = TDelay"
  shows "send_inv q (fst (finish_send env t r s)) (out q @ snd (finish_send env t r s))"
proof -
  let ?a = "ft_sends s ! r"
  let ?s1 = "fst (cleanupSend (as_id ?a) s)"
  have q: "quiet s ?s1" by (rule quiet_cleanup)
  have r: "r < length (ft_sends s)"
    using inv [of r] on by (auto simp: send_inv_def refs_ok_def runs_on_def)
  then have core: "core (ft_sends ?s1 ! r) = core ?a" using quiet_nth_send [OF q] by (simp add: same_send_def)
  have "int (as_totalChunks ?a) \<le> as_currentIndex ?a" if "runs_of r s \<le> 1"
    using send_inv_task [OF inv [of r] on that] pc by (simp add: good_pc_simps)
  then have "send_inv q (as_settle (Resolved (as_id (ft_sends ?s1 ! r))) r ?s1) (out q)"
    using core by (intro send_inv_resolve [OF send_inv_quiet0 [OF q inv]])
      (simp add: quiet_runs_of [OF q] core_def)
  then have "send_inv q (set_pc t TDone (as_settle (Resolved (as_id ?a)) r ?s1)) (out q)"
    using core by (intro send_inv_quiet0 [OF quiet_done]) (simp add: core_def)
  from send_inv_quiet [OF quiet_refl this, of "snd (finish_send env t r s)"] show ?thesis
    by (simp add: finish_send_def Let_def split_def)
qed

definition sinv :: "filetransfer \<Rightarrow> ft_out list \<Rightarrow> bool" where
  "sinv s out \<longleftrightarrow> (\<forall>q. send_inv q s out)"

lemma sinv_quiet: "sinv s out \<Longrightarrow> quiet s s' \<Longrightarrow> (\<And>q. sent_to q o' = []) \<Longrightarrow> sinv s' (out @ o')"
  by (simp add: sinv_def send_inv_quiet)

lemma sinv_quiet0: "sinv s out \<Longrightarrow> quiet s s' \<Longrightarrow> sinv s' out"
  by (auto simp: sinv_def intro: send_inv_quiet0)

lemma sinv_task_resume:
  assumes inv: "sinv s out"
  shows "sinv (fst (task_resume env t s)) (out @ snd (task_resume env t s))"
proof (cases "t < length (ft_tasks s)")
  case True
  obtain r pc where t: "ft_tasks s ! t = (r, pc)" by (cases "ft_tasks s ! t")
  have on: "runs_on t r s" using True t by (simp add: runs_on_def)
  have all: "\<And>q. send_inv q s out" using inv by (simp add: sinv_def)
  have pc: "snd (ft_tasks s ! t) = pc" by (simp add: t)
  note loop = sinv_quiet0 [OF inv quiet_loop_top [OF on]]
  show ?thesis
  proof (cases pc)
    case (TRead b)
    then show ?thesis using send_inv_push [OF all on] pc t True by (simp add: task_resume_def sinv_def)
  next
    case TDelay
    then show ?thesis using send_inv_finish [OF all on] pc t True by (simp add: task_resume_def sinv_def)
  next
    case TLow
    then have "quiet s (read_slice t r s)"
      by (intro quiet_read_slice [OF on]) (simp add: t good_pc_simps)
    with TLow show ?thesis
      using t True inv quiet_after_loop [OF on] by (simp add: task_resume_def sinv_quiet0)
  next
    case TDrain
    then have "quiet s (drain env t s)"
      by (intro quiet_drain [OF on]) (simp add: t good_pc_simps)
    with TDrain show ?thesis using t True inv by (simp add: task_resume_def sinv_quiet0)
  qed (use t True loop inv in \<open>simp_all add: task_resume_def\<close>)
next
  case False
  then show ?thesis using inv by (simp add: task_resume_def)
qed

lemma quiet_callbacks:
  "quiet s (chan_open r s)"
  "quiet s (chan_low r s)"
  "quiet s (chan_closed r s)"
proof -
  have "quiet s (upd_send r (\<lambda>a. a\<lparr>as_chan := c\<rparr>) s)" for c
    by (rule quiet_upd_send) (simp_all add: core_def)
  moreover have "quiet s (upd_send r (\<lambda>a. a\<lparr>as_onlow := None\<rparr>) s)"
    by (rule quiet_upd_send) (simp_all add: core_def)
  moreover have "quiet (upd_send r f s) (set_pc t TOpened (upd_send r f s))" for f t
    by (rule quiet_move) (simp add: move_pc_def)
  moreover have "quiet (upd_send r f s) (set_pc t TLow (upd_send r f s))"
    if "snd (ft_tasks s ! t) = TLowWait" for f t
    using that by (intro quiet_move) (simp add: move_pc_def upd_send_def good_pc_simps)
  ultimately show "quiet s (chan_open r s)" "quiet s (chan_low r s)" "quiet s (chan_closed r s)"
    by (auto simp: chan_open_def chan_low_def chan_closed_def Let_def intro: quiet_trans split: option.split)
qed

lemma quiet_offer_timeout: "quiet s (fst (offer_timeout r s))"
proof -
  let ?s0 = "upd_send r (\<lambda>a. a\<lparr>as_timer := False\<rparr>) s"
  have 0: "quiet s ?s0" by (rule quiet_upd_send) (simp_all add: core_def)
  have 1: "quiet s (fst (cleanupSend i ?s0))" for i by (rule quiet_trans [OF 0 quiet_cleanup])
  have "quiet s' (upd_send r (\<lambda>a. a\<lparr>as_promise := settle (Rejected m) (as_promise a)\<rparr>) s')" for s' m
    by (rule quiet_upd_send) (auto simp: core_def settle_def split: if_splits)
  with 0 1 show ?thesis
    unfolding offer_timeout_def Let_def split_def by (auto intro: quiet_trans)
qed

lemma sent_timeouts [simp]:
  "sent_to q (snd (offer_timeout r s)) = []"
  "sent_to q (snd (open_timeout t s)) = []"
  "sent_to q (snd (read_fails t s)) = []"
  by (simp_all add: offer_timeout_def open_timeout_def read_fails_def Let_def split_def
      split: task_pc.split prod.split)

lemma quiet_timeouts:
  "quiet s (fst (open_timeout t s))"
  "quiet s (fst (read_fails t s))"
  by (simp_all add: open_timeout_def read_fails_def quiet_done quiet_fail_send
      split: task_pc.split prod.split)

lemma sinv_ft_send:
  assumes "sinv s out"
  shows "sinv (fst (ft_send env b i p f n m k s)) (out @ snd (ft_send env b i p f n m k s))"
proof -
  have "send_inv q (fst (ft_send env b i p f n m k s)) (out @ snd (ft_send env b i p f n m k s))" for q
  proof -
    have inv: "send_inv q s out" using assms by (simp add: sinv_def)
    then have refs: "refs_ok s" by (simp add: send_inv_def)
    then have none: "\<not> runs_on t (length (ft_sends s)) s" for t
      by (metis less_irrefl nth_mem refs_ok_def runs_on_def)
    have "refs_ok (fst (ft_send env b i p f n m k s))"
      using refs by (auto simp: ft_send_def Let_def refs_ok_def intro: less_SucI)
    then show ?thesis
      using inv none
      by (cases "q = length (ft_sends s)")
        (auto simp: ft_send_def Let_def send_inv_def run_ok_def runs_of_card runs_on_def nth_append)
  qed
  then show ?thesis by (simp add: sinv_def)
qed

lemma quiet_receiving_ops:
  "quiet s (fst (assembleFile i s))"
  "quiet s (fst (handleBinaryChunk env b fp ch s))"
  "quiet s (fst (ft_accept env i s))"
  "quiet s (fst (ft_reject env i s))"
  "quiet s (fst (requestResume env i l s))"
  by (simp_all add: assembleFile_def handleBinaryChunk_def ft_accept_def ft_reject_def
      requestResume_def Let_def split: option.split)

lemma sent_receiving_ops [simp]:
  "sent_to q (snd (assembleFile i s)) = []"
  "sent_to q (snd (handleBinaryChunk env b fp ch s)) = []"
  "sent_to q (snd (ft_accept env i s)) = []"
  "sent_to q (snd (ft_reject env i s)) = []"
  "sent_to q (snd (requestResume env i l s)) = []"
  by (simp_all add: assembleFile_def handleBinaryChunk_def ft_accept_def ft_reject_def
      requestResume_def reply_def reply_quietly_def Let_def split: option.split)

lemma quiet_cancel:
  "quiet s (fst (ft_cancel env i s))"
  "quiet s (fst (handleControl env c fp s))"
proof -
  have "quiet s ((fst (cancelSend j s))\<lparr>ft_receiving := m\<rparr>)" for j m
    by (rule quiet_trans [OF quiet_cancelSend [of s j]]) simp
  then show "quiet s (fst (ft_cancel env i s))" "quiet s (fst (handleControl env c fp s))"
    by (simp_all add: ft_cancel_def handleControl_def Let_def split_def quiet_cancelSend quiet_receiving_ops
        split: option.split transfer_control.split)
qed

lemma sent_cancel [simp]:
  "sent_to q (snd (ft_cancel env i s)) = []"
  "sent_to q (snd (handleControl env c fp s)) = []"
  by (simp_all add: ft_cancel_def handleControl_def reply_quietly_def Let_def split_def
      split: option.split transfer_control.split)

lemma quiet_destroy: "quiet s (fst (ft_destroy s)) \<and> sent_to q (snd (ft_destroy s)) = []"
proof -
  let ?mark = "\<lambda>(i :: string, r). upd_send r (\<lambda>a. a\<lparr>as_cancelled := True\<rparr>)"
  let ?clean = "\<lambda>i (s, out). let (s', o') = cleanupSend i s in (s', out @ o')"
  have "quiet s (fold ?mark m s)" for m
  proof (induction m arbitrary: s)
    case (Cons x m)
    have "quiet s (?mark x s)"
      by (cases x) (auto intro!: quiet_upd_send simp: core_def)
    from quiet_trans [OF this Cons.IH] show ?case by simp
  qed simp
  moreover have "quiet s (fst (fold ?clean ks (s', out))) \<and> sent_to q (snd (fold ?clean ks (s', out))) = []"
    if "quiet s s'" "sent_to q out = []" for ks s' out
    using that
  proof (induction ks arbitrary: s' out)
    case (Cons k ks)
    show ?case
      using Cons.IH [of "fst (cleanupSend k s')" "out @ snd (cleanupSend k s')"] Cons.prems
        quiet_trans [OF Cons.prems(1) quiet_cleanup]
      by (simp add: split_def Let_def)
  qed simp
  ultimately show ?thesis
    unfolding ft_destroy_def Let_def split_def
    by (auto simp: split_def Let_def intro: quiet_trans [OF _ quiet_fields(3)])
qed

fun no_resume :: "ft_env \<times> ft_event \<Rightarrow> bool" where
  "no_resume (env, PeerData fp (Ctl (Resume i n)) ch) = False"
| "no_resume (env, _) = True"

lemma sinv_listener:
  assumes "sinv s out" "(p, LSend r) \<in> set (ft_attached s)" "no_resume (env, PeerData p d ch)"
  shows "sinv (fst (on_send_data env r d s)) (out @ snd (on_send_data env r d s))"
proof -
  have "r < length (ft_sends s)"
    using assms(1,2) by (auto simp: sinv_def send_inv_def refs_ok_def)
  then have "sinv (startSending env r s) out"
    using assms(1) by (simp add: sinv_def send_inv_startSending)
  moreover have "sinv (fst (cancelSend i s)) (out @ snd (cancelSend i s))" for i
    by (rule sinv_quiet [OF assms(1) quiet_cancelSend]) simp
  ultimately show ?thesis
    using assms(1,3)
    by (auto simp: on_send_data_def Let_def split: ft_data.split transfer_control.split)
qed

lemma sinv_dispatch:
  assumes "no_resume (env, PeerData p d ch)"
  shows "sinv s out \<Longrightarrow> sinv (fst (dispatch env p d ch ls s)) (out @ snd (dispatch env p d ch ls s))"
proof (induction ls arbitrary: s out)
  case (Cons l ls)
  let ?x = "if (p, l) \<notin> set (ft_attached s) then (s, [])
            else case l of LIncoming _ \<Rightarrow> on_incoming_data env p d ch s | LSend r \<Rightarrow> on_send_data env r d s"
  have "sinv (fst (on_incoming_data env p d ch s)) (out @ snd (on_incoming_data env p d ch s))"
    by (rule sinv_quiet [OF Cons.prems])
      (simp_all add: on_incoming_data_def quiet_receiving_ops quiet_cancel split: ft_data.split)
  then have "sinv (fst ?x) (out @ snd ?x)"
    using Cons.prems sinv_listener [OF Cons.prems _ assms] by (cases l) auto
  from Cons.IH [OF this] show ?case by (simp add: split_def Let_def)
qed simp

lemma sinv_step:
  assumes "sinv s out" "no_resume e"
  shows "sinv (fst (ft_step s e)) (out @ snd (ft_step s e))"
proof -
  obtain env ev where e: "e = (env, ev)" by (cases e)
  note q = sinv_quiet [OF assms(1)]
  show ?thesis
  proof (cases ev)
    case (PeerData fp d ch)
    then show ?thesis using sinv_dispatch [OF _ assms(1)] assms(2) by (simp add: e peer_data_def)
  next
    case CallSend
    then show ?thesis using sinv_ft_send [OF assms(1)] by (simp add: e)
  next
    case TaskResume
    then show ?thesis using sinv_task_resume [OF assms(1)] by (simp add: e)
  next
    case CallDestroy
    then show ?thesis using quiet_destroy by (auto simp: e intro!: q)
  qed (simp_all only: e ft_step.simps, auto intro!: q simp: quiet_receiving_ops quiet_cancel
      quiet_callbacks quiet_timeouts quiet_offer_timeout
      simp del: append_Nil2)
qed

lemma sinv_run:
  "sinv s out \<Longrightarrow> list_all no_resume es \<Longrightarrow>
   sinv (run_state ft_step s es) (out @ snd (run ft_step s es))"
proof (induction es arbitrary: s out)
  case (Cons e es)
  then have "sinv (fst (ft_step s e)) (out @ snd (ft_step s e))" by (simp add: sinv_step)
  from Cons.IH [OF this] Cons.prems(2) show ?case by (simp add: Let_def split_def)
qed simp


lemmas ft_run_defs =
  peer_data_def on_send_data_def startSending_def loop_top_def after_loop_def read_slice_def drain_def
  task_resume_def push_chunk_def finish_send_def cleanupSend_def as_settle_def settle_def upd_send_def
  set_pc_def detach_def chan_open_def ft_send_def new_FileTransfer_def demo_env_def Let_def

definition demo_send :: "(ft_env \<times> ft_event) list" where
  "demo_send = map (Pair demo_env)
     [CallSend True ''x'' ''p'' [1, 2, 3] (Some ''f'') None [], ChanOpened 0,
      PeerData ''p'' (Ctl (Accept ''x'')) ''data'', TaskResume 0, TaskResume 0]"

lemma demo_send_run:
  "snd (run ft_step new_FileTransfer demo_send) =
     [PeerSend ''p'' (Offer ''x'' ''f'' 3 ''application/octet-stream'' 65536 1),
      ChanSend 0 (encodeChunk 0 [1, 2, 3]),
      EmitProgress \<lparr>pr_id = ''x'', pr_sent = 1, pr_total = 1, pr_percentage = Some 100,
        pr_bytesPerSecond = Some 3\<rparr>,
      PeerSend ''p'' (Complete ''x''), EmitSent ''x'', ChanClose 0]"
  "length (ft_sends (run_state ft_step new_FileTransfer demo_send)) = 1"
  "runs_of 0 (run_state ft_step new_FileTransfer demo_send) = 1"
  "as_promise (ft_sends (run_state ft_step new_FileTransfer demo_send) ! 0) = Resolved ''x''"
  "as_currentIndex (ft_sends (run_state ft_step new_FileTransfer demo_send) ! 0) = 1"
  by (simp_all add: demo_send_def ft_run_defs limit_defs ceil_div_def chunk_of_def blob_slice_def
      blob_clamp_def send_progress_def js_round_def bytes_rate_def runs_of_def)


section \<open>Two runs corrupt the file\<close>

text \<open>
  C10. A second \<open>accept\<close> corrupts the transfer.  For every file of more than one chunk:
  when the peer's \<open>accept\<close> is delivered twice before the first run has read its first
  slice, both runs read chunk 0, and the second labels what it read with the index the first has
  moved on to.  The channel then carries the data of chunk 0 under index 1.
\<close>

theorem double_accept_corrupts:
  assumes "CHUNK_SIZE < length f" "env_sendOk env" "env_chanOk env" "env_amount env = 0"
  shows "sent_to 0 (snd (run ft_step new_FileTransfer (map (Pair env)
      [CallSend True i p f (Some nm) None mime, ChanOpened 0,
       PeerData p (Ctl (Accept i)) ch, PeerData p (Ctl (Accept i)) ch, TaskResume 0, TaskResume 1])))
    = [encodeChunk 0 (chunk_of f CHUNK_SIZE 0), encodeChunk 1 (chunk_of f CHUNK_SIZE 0)]"
proof -
  have "2 \<le> ceil_div (length f) CHUNK_SIZE"
    using assms(1) by (simp add: ceil_div_def limit_defs)
  then have "0 < ceil_div (length f) CHUNK_SIZE" "1 < int (ceil_div (length f) CHUNK_SIZE)" by simp_all
  then show ?thesis using assms(2-) by (simp add: ft_run_defs)
qed

theorem double_accept_corrupts_witness:
  "sent_to 0 (snd (run ft_step new_FileTransfer (map (Pair demo_env)
      [CallSend True ''x'' ''p'' (replicate 65537 7) (Some ''f'') None [], ChanOpened 0,
       PeerData ''p'' (Ctl (Accept ''x'')) ''data'', PeerData ''p'' (Ctl (Accept ''x'')) ''data'',
       TaskResume 0, TaskResume 1])))
   = [encodeChunk 0 (chunk_of (replicate 65537 7) CHUNK_SIZE 0),
      encodeChunk 1 (chunk_of (replicate 65537 7) CHUNK_SIZE 0)]"
  by (rule double_accept_corrupts) (simp_all add: demo_env_def limit_defs)

section \<open>Destroying an unaccepted transfer\<close>

text \<open>A pending transfer that no table, listener or run refers to any more.\<close>

definition abandoned :: "nat \<Rightarrow> string \<Rightarrow> filetransfer \<Rightarrow> bool" where
  "abandoned r i s \<longleftrightarrow>
     r < length (ft_sends s) \<and> as_id (ft_sends s ! r) = i \<and> as_promise (ft_sends s ! r) = Pending \<and>
     (\<forall>x\<in>set (ft_tasks s). fst x \<noteq> r) \<and> (\<forall>p. (p, LSend r) \<notin> set (ft_attached s)) \<and>
     map_get (ft_sending s) i = None \<and> (\<forall>j. map_get (ft_sending s) j \<noteq> Some r)"

lemma abandoned_upd_send:
  "abandoned r i s \<Longrightarrow> (\<And>a. as_id (f a) = as_id a) \<Longrightarrow> q \<noteq> r \<or> (\<forall>a. as_promise (f a) = as_promise a) \<Longrightarrow>
   abandoned r i (upd_send q f s)"
  by (cases "q = r") (auto simp: abandoned_def upd_send_def)

lemma abandoned_set_pc: "abandoned r i s \<Longrightarrow> abandoned r i (set_pc t pc s)"
  by (cases "t < length (ft_tasks s)")
    (auto simp: abandoned_def set_pc_def list_update_beyond dest!: set_update_subset_insert [THEN subsetD])

lemma abandoned_fields:
  "abandoned r i s \<Longrightarrow> abandoned r i (s\<lparr>ft_sending := map_del j (ft_sending s)\<rparr>)"
  "abandoned r i s \<Longrightarrow> abandoned r i (s\<lparr>ft_channelListeners := cl\<rparr>)"
  "abandoned r i s \<Longrightarrow> abandoned r i (s\<lparr>ft_receiving := rc\<rparr>)"
  "abandoned r i s \<Longrightarrow> abandoned r i (s\<lparr>ft_attached := filter P (ft_attached s)\<rparr>)"
  "abandoned r i s \<Longrightarrow> abandoned r i (detach q s)"
  "abandoned r i s \<Longrightarrow> abandoned r i (handleIncoming p s)"
  "abandoned r i s \<Longrightarrow> q \<noteq> r \<Longrightarrow> abandoned r i (s\<lparr>ft_tasks := ft_tasks s @ [(q, pc)]\<rparr>)"
  by (auto simp: abandoned_def detach_def handleIncoming_def)

lemma abandoned_cleanup: "abandoned r i s \<Longrightarrow> abandoned r i (fst (cleanupSend j s))"
  by (auto simp: cleanupSend_def Let_def split: option.split
      intro!: abandoned_fields abandoned_upd_send)

lemma abandoned_settle: "abandoned r i s \<Longrightarrow> q \<noteq> r \<Longrightarrow> abandoned r i (as_settle p q s)"
  unfolding as_settle_def by (rule abandoned_upd_send) simp_all

lemma abandoned_cancelSend: "abandoned r i s \<Longrightarrow> abandoned r i (fst (cancelSend j s))"
  by (auto simp: cancelSend_def Let_def split_def split: option.split
      intro!: abandoned_settle abandoned_cleanup abandoned_upd_send) (simp add: abandoned_def)

lemmas abandoned_intros =
  abandoned_upd_send abandoned_set_pc abandoned_fields abandoned_cleanup abandoned_settle
  abandoned_cancelSend

lemma abandoned_loop_top: "abandoned r i s \<Longrightarrow> abandoned r i (loop_top env t q s)"
  by (auto simp: loop_top_def after_loop_def drain_def read_slice_def Let_def intro!: abandoned_intros)

lemma abandoned_run:
  "abandoned r i s \<Longrightarrow> t < length (ft_tasks s) \<Longrightarrow> fst (ft_tasks s ! t) \<noteq> r"
  by (simp add: abandoned_def)

lemma abandoned_fail_send:
  "abandoned r i s \<Longrightarrow> q \<noteq> r \<Longrightarrow> abandoned r i (fst (fail_send t q m s))"
  by (auto simp: fail_send_def Let_def split_def intro!: abandoned_intros)

lemma abandoned_task_resume:
  assumes "abandoned r i s"
  shows "abandoned r i (fst (task_resume env t s))"
proof (cases "t < length (ft_tasks s)")
  case True
  obtain q pc where t: "ft_tasks s ! t = (q, pc)" by (cases "ft_tasks s ! t")
  have q: "q \<noteq> r" using abandoned_run [OF assms True] t by simp
  have "abandoned r i (fst (push_chunk env t q b s))" for b
    using assms q
    by (auto simp: push_chunk_def Let_def intro!: abandoned_fail_send abandoned_loop_top abandoned_intros)
  moreover have "abandoned r i (fst (finish_send env t q s))"
    using assms q by (auto simp: finish_send_def Let_def split_def intro!: abandoned_intros)
  ultimately show ?thesis
    using assms True t
    by (cases pc) (auto simp: task_resume_def after_loop_def drain_def read_slice_def Let_def
        intro!: abandoned_loop_top abandoned_set_pc)
qed (use assms in \<open>simp add: task_resume_def\<close>)

lemma abandoned_listener:
  "abandoned r i s \<Longrightarrow> (p, LSend q) \<in> set (ft_attached s) \<Longrightarrow> abandoned r i (fst (on_send_data env q d s))"
  "abandoned r i s \<Longrightarrow> abandoned r i (fst (on_incoming_data env p d ch s))"
proof -
  assume a: "abandoned r i s"
  have "abandoned r i (fst (handleControl env c p s))" for c
    using a by (cases c) (auto simp: handleControl_def assembleFile_def Let_def split_def
        intro!: abandoned_intros split: option.split)
  moreover have "abandoned r i (fst (handleBinaryChunk env b p ch s))" for b
    using a by (auto simp: handleBinaryChunk_def Let_def intro!: abandoned_intros split: option.split)
  ultimately show "abandoned r i (fst (on_incoming_data env p d ch s))"
    using a by (simp add: on_incoming_data_def split: ft_data.split)
  assume "(p, LSend q) \<in> set (ft_attached s)"
  then have q: "q \<noteq> r" using a by (auto simp: abandoned_def)
  have start: "abandoned r i (startSending env q s')" if "abandoned r i s'" for s'
    using that q by (auto simp: startSending_def Let_def intro!: abandoned_loop_top abandoned_intros)
  have "abandoned r i (startSending env q (upd_send q (as_currentIndex_update (\<lambda>_. n)) s))" for n
    by (rule start, rule abandoned_upd_send [OF a]) (simp_all add: q)
  with start show "abandoned r i (fst (on_send_data env q d s))"
    using a by (auto simp: on_send_data_def Let_def intro!: abandoned_cancelSend
        split: ft_data.split transfer_control.split)
qed

lemma abandoned_dispatch:
  "abandoned r i s \<Longrightarrow> abandoned r i (fst (dispatch env p d ch ls s))"
proof (induction ls arbitrary: s)
  case (Cons l ls)
  then show ?case
    by (cases l) (auto simp: split_def Let_def abandoned_listener)
qed simp

lemma abandoned_destroy_fold:
  "abandoned r i (fst x) \<Longrightarrow>
   abandoned r i (fst (fold (\<lambda>i (s, out). let (s', o') = cleanupSend i s in (s', out @ o')) ks x))"
  by (induction ks arbitrary: x) (auto simp: split_def Let_def abandoned_cleanup)

lemma abandoned_mark_fold:
  "abandoned r i s \<Longrightarrow>
   abandoned r i (fold (\<lambda>(i, q). upd_send q (\<lambda>a. a\<lparr>as_cancelled := True\<rparr>)) m s)"
  by (induction m arbitrary: s) (simp_all add: abandoned_upd_send split_def)

fun sends_id :: "string \<Rightarrow> ft_env \<times> ft_event \<Rightarrow> bool" where
  "sends_id i (env, CallSend c j p f n m k) = (j = i)"
| "sends_id i _ = False"

lemma abandoned_step:
  assumes a: "abandoned r i s" and e: "\<not> sends_id i e"
  shows "abandoned r i (fst (ft_step s e))"
proof -
  obtain env ev where ev: "e = (env, ev)" by (cases e)
  show ?thesis
  proof (cases ev)
    case (CallSend c j p f n m k)
    then have "j \<noteq> i" using e ev by simp
    with a CallSend show ?thesis
      by (auto simp: ev ft_send_def Let_def abandoned_def nth_append)
  next
    case (PeerData fp d ch)
    then show ?thesis using a by (simp add: ev peer_data_def abandoned_dispatch)
  next
    case CallDestroy
    have "abandoned r i (fst (ft_destroy s))"
      unfolding ft_destroy_def Let_def split_def fst_conv
      by (intro abandoned_fields(3) abandoned_destroy_fold [unfolded Let_def split_def])
        (simp add: abandoned_mark_fold [OF a, unfolded split_def])
    with CallDestroy show ?thesis by (simp add: ev)
  next
    case (OfferTimeout q)
    have "map_get (ft_sending s) i = None" "as_id (ft_sends s ! r) = i" using a by (auto simp: abandoned_def)
    then have "map_has (ft_sending s) (as_id (ft_sends s ! q)) \<Longrightarrow> q \<noteq> r"
      by (auto simp: map_has_get)
    then show ?thesis using a OfferTimeout
      by (auto simp: ev offer_timeout_def Let_def split_def intro!: abandoned_upd_send abandoned_cleanup)
        (auto simp: upd_send_def)
  next
    case (ReadFails t)
    then show ?thesis
      using a abandoned_run [OF a, of t] abandoned_fail_send [OF a]
      by (auto simp: ev read_fails_def split: task_pc.split prod.split)
  next
    case (TaskResume t)
    then show ?thesis using abandoned_task_resume [OF a] by (simp add: ev)
  qed (use a in \<open>auto simp: ev ft_accept_def ft_reject_def ft_cancel_def requestResume_def chan_open_def
        chan_low_def chan_closed_def open_timeout_def Let_def split_def
      intro!: abandoned_intros split: option.split\<close>)
qed

interpretation abandoned_send: machine ft_step "abandoned r i" "\<lambda>e. \<not> sends_id i e" for r i
  by unfold_locales (rule abandoned_step)

text \<open>The cleanup loop of \<open>destroy\<close> reaches every registered transfer.\<close>

lemma cleanup_frame:
  "length (ft_sends (fst (cleanupSend j s))) = length (ft_sends s)"
  "ft_tasks (fst (cleanupSend j s)) = ft_tasks s"
  "map_get (ft_sending (fst (cleanupSend j s))) = (map_get (ft_sending s))(j := None)"
  "map_get (ft_channelListeners (fst (cleanupSend j s))) = (map_get (ft_channelListeners s))(j := None)"
  "(p, LSend r) \<in> set (ft_attached (fst (cleanupSend j s))) \<longleftrightarrow>
     (p, LSend r) \<in> set (ft_attached s) \<and> map_get (ft_channelListeners s) j \<noteq> Some r"
  "as_id (ft_sends (fst (cleanupSend j s)) ! r) = as_id (ft_sends s ! r)"
  "as_promise (ft_sends (fst (cleanupSend j s)) ! r) = as_promise (ft_sends s ! r)"
proof -
  have "as_id (ft_sends (upd_send q (\<lambda>a. a\<lparr>as_chan := ChClosed\<rparr>) s) ! r) = as_id (ft_sends s ! r)"
    "as_promise (ft_sends (upd_send q (\<lambda>a. a\<lparr>as_chan := ChClosed\<rparr>) s) ! r) = as_promise (ft_sends s ! r)" for q
    by (cases "q < length (ft_sends s)"; cases "q = r"; simp add: upd_send_def list_update_beyond)+
  then show
    "length (ft_sends (fst (cleanupSend j s))) = length (ft_sends s)"
    "ft_tasks (fst (cleanupSend j s)) = ft_tasks s"
    "map_get (ft_sending (fst (cleanupSend j s))) = (map_get (ft_sending s))(j := None)"
    "map_get (ft_channelListeners (fst (cleanupSend j s))) = (map_get (ft_channelListeners s))(j := None)"
    "(p, LSend r) \<in> set (ft_attached (fst (cleanupSend j s))) \<longleftrightarrow>
       (p, LSend r) \<in> set (ft_attached s) \<and> map_get (ft_channelListeners s) j \<noteq> Some r"
    "as_id (ft_sends (fst (cleanupSend j s)) ! r) = as_id (ft_sends s ! r)"
    "as_promise (ft_sends (fst (cleanupSend j s)) ! r) = as_promise (ft_sends s ! r)"
    by (auto simp: cleanupSend_def Let_def detach_def upd_send_def fun_eq_iff split: option.split)
qed

lemma mark_frame:
  fixes m :: "(string, nat) jsmap" and s :: filetransfer
  defines "s' \<equiv> fold (\<lambda>(i, q). upd_send q (\<lambda>a. a\<lparr>as_cancelled := True\<rparr>)) m s"
  shows "length (ft_sends s') = length (ft_sends s)" "ft_tasks s' = ft_tasks s"
    "ft_sending s' = ft_sending s" "ft_channelListeners s' = ft_channelListeners s"
    "ft_attached s' = ft_attached s"
    "as_id (ft_sends s' ! r) = as_id (ft_sends s ! r)"
    "as_promise (ft_sends s' ! r) = as_promise (ft_sends s ! r)"
proof -
  have "as_id (ft_sends (upd_send q (\<lambda>a. a\<lparr>as_cancelled := True\<rparr>) t) ! r) = as_id (ft_sends t ! r)"
    "as_promise (ft_sends (upd_send q (\<lambda>a. a\<lparr>as_cancelled := True\<rparr>) t) ! r) = as_promise (ft_sends t ! r)" for q t
    by (cases "q < length (ft_sends t)"; cases "q = r"; simp add: upd_send_def list_update_beyond)+
  then show "length (ft_sends s') = length (ft_sends s)" "ft_tasks s' = ft_tasks s"
    "ft_sending s' = ft_sending s" "ft_channelListeners s' = ft_channelListeners s"
    "ft_attached s' = ft_attached s"
    "as_id (ft_sends s' ! r) = as_id (ft_sends s ! r)"
    "as_promise (ft_sends s' ! r) = as_promise (ft_sends s ! r)"
    unfolding s'_def by (induction m arbitrary: s) (auto simp: upd_send_def)
qed

lemma cleanup_fold_abandons:
  fixes x :: "filetransfer \<times> ft_out list"
  defines "F \<equiv> fold (\<lambda>i (s, out). let (s', o') = cleanupSend i s in (s', out @ o'))"
  assumes "r < length (ft_sends (fst x))" "as_id (ft_sends (fst x) ! r) = i"
    "as_promise (ft_sends (fst x) ! r) = Pending" "\<forall>y\<in>set (ft_tasks (fst x)). fst y \<noteq> r"
    "\<forall>j. map_get (ft_sending (fst x)) j = Some r \<longrightarrow> j = i"
    "map_get (ft_channelListeners (fst x)) i = Some r" "i \<in> set ks"
  shows "abandoned r i (fst (F ks x))"
  using assms(2-)
proof (induction ks arbitrary: x)
  case (Cons k ks)
  let ?s = "fst (cleanupSend k (fst x))"
  have F: "F (k # ks) x = F ks (?s, snd x @ snd (cleanupSend k (fst x)))"
    by (simp add: F_def split_def Let_def)
  show ?case
  proof (cases "k = i")
    case True
    then have "abandoned r i ?s" using Cons.prems by (auto simp: abandoned_def cleanup_frame)
    then show ?thesis
      unfolding F unfolding F_def by (intro abandoned_destroy_fold) simp
  next
    case False
    then show ?thesis unfolding F using Cons.prems
      by (intro Cons.IH) (auto simp: cleanup_frame)
  qed
qed simp

text \<open>
  Destroying the object abandons unaccepted transfers.  If a registered transfer is still
  waiting for its peer to accept when \<open>destroy\<close> is called, the promise its
  \<open>send\<close> returned is never settled: it is still pending after every later sequence of
  calls, messages, channel events and timeouts (in which no new transfer takes its identifier).
  The offer timeout, the only thing that could still reject it, looks the transfer up and finds it
  gone.
\<close>

theorem destroy_leaves_send_pending:
  assumes "map_get (ft_sending s) i = Some r" "map_get (ft_channelListeners s) i = Some r"
    and "\<forall>j. map_get (ft_sending s) j = Some r \<longrightarrow> j = i"
    and "r < length (ft_sends s)" "as_id (ft_sends s ! r) = i" "as_promise (ft_sends s ! r) = Pending"
    and "\<forall>x\<in>set (ft_tasks s). fst x \<noteq> r"
    and "list_all (\<lambda>e. \<not> sends_id i e) es"
  shows "as_promise (ft_sends (run_state ft_step (fst (ft_destroy s)) es) ! r) = Pending"
proof -
  have "i \<in> set (map_keys (ft_sending s))"
    using map_of_SomeD [OF assms(1)] by force
  then have "abandoned r i (fst (ft_destroy s))"
    unfolding ft_destroy_def Let_def split_def fst_conv
    by (intro abandoned_fields(3) cleanup_fold_abandons [unfolded Let_def split_def])
      (simp_all add: assms mark_frame [unfolded split_def])
  from abandoned_send.run_inv [OF this assms(8)] show ?thesis by (simp add: abandoned_def)
qed

definition demo_offered :: filetransfer where
  "demo_offered = fst (ft_step new_FileTransfer
     (demo_env, CallSend True ''x'' ''p'' [1, 2, 3] (Some ''f'') None []))"

theorem destroy_leaves_send_pending_witness:
  "as_promise (ft_sends (run_state ft_step (fst (ft_destroy demo_offered))
     (map (Pair demo_env) [ChanOpened 0, PeerData ''p'' (Ctl (Accept ''x'')) ''data'', OfferTimeout 0])) ! 0)
   = Pending"
  by (rule destroy_leaves_send_pending [where i = "''x''"])
    (simp_all add: demo_offered_def ft_send_def new_FileTransfer_def demo_env_def Let_def)

end
