(* ===== verification/Transport.thy ===== *)
theory Transport
  imports Types
begin

text \<open>
  The class \<open>Transport\<close> of packages/peer-client/src/core/transport.ts: the WebSocket
  to the signalling server, its message queue, keep-alive and reconnection.  Sockets live in a
  store because an old one may still fire after \<open>connect\<close> has replaced it; the
  handlers the source attaches are run by the socket events, and \<open>close\<close> detaches all
  of them but \<open>onopen\<close>.  Timers have identifiers and due times on the event loop's
  clock, counted in half milliseconds so that the multiplier 2.5 of the pong timeout is exact, and
  the loop fires the earliest due timer first.  \<open>now\<close> arguments are readings of
  \<open>Date.now()\<close> in milliseconds.
\<close>

section \<open>State\<close>

datatype ws_state = WsConnecting | WsOpen | WsClosing | WsClosed

record socket =
  sk_state :: ws_state
  sk_handlers :: bool       \<comment> \<open>\<open>onclose\<close>, \<open>onerror\<close> and \<open>onmessage\<close> are attached\<close>
  sk_settled :: bool
  sk_promise :: promise     \<comment> \<open>the promise of the \<open>connect\<close> that made it\<close>
  sk_auto :: bool           \<comment> \<open>made by the reconnect timer\<close>

datatype timer_kind = TkPing | TkPong | TkReconnect

record timer =
  tm_id :: nat
  tm_kind :: timer_kind
  tm_due :: nat

record tr_config =
  autoReconnect :: bool
  reconnectDelay :: nat
  reconnectMaxDelay :: nat
  maxReconnectAttempts :: "nat option"   \<comment> \<open>\<open>None\<close> is \<open>Infinity\<close>\<close>
  pingInterval :: nat

datatype 'm frame = PingFrame | PongFrame | MsgFrame 'm

record 'm transport =
  tr_ws :: "nat option"
  tr_socks :: "socket list"
  tr_timers :: "timer list"
  tr_pingTimer :: "nat option"
  tr_pongTimer :: "nat option"
  tr_reconnectTimer :: "nat option"
  tr_attempts :: nat
  tr_intentional :: bool
  tr_lastPong :: int
  tr_queue :: "'m list"
  tr_connected :: bool
  tr_flushing :: bool
  tr_time :: nat
  tr_fresh :: nat

datatype 'm tr_out =
    WsNew nat
  | WsSend nat "'m frame"
  | WsClose nat nat
  | TrOpen
  | TrClose
  | TrMessage 'm
  | TrError
  | TrReconnecting nat nat

definition new_Transport :: "'m transport" where
  "new_Transport = \<lparr>tr_ws = None, tr_socks = [], tr_timers = [], tr_pingTimer = None,
     tr_pongTimer = None, tr_reconnectTimer = None, tr_attempts = 0, tr_intentional = False,
     tr_lastPong = 0, tr_queue = [], tr_connected = False, tr_flushing = False, tr_time = 0,
     tr_fresh = 0\<rparr>"

section \<open>Sockets and timers\<close>

definition ws_open :: "'m transport \<Rightarrow> bool" where
  "ws_open s = (case tr_ws s of Some r \<Rightarrow> sk_state (tr_socks s ! r) = WsOpen | None \<Rightarrow> False)"

definition upd_sock :: "nat \<Rightarrow> (socket \<Rightarrow> socket) \<Rightarrow> 'm transport \<Rightarrow> 'm transport" where
  "upd_sock r f s = s\<lparr>tr_socks := (tr_socks s)[r := f (tr_socks s ! r)]\<rparr>"

text \<open>\<open>ws.close(code)\<close>: a connecting or open socket starts closing.\<close>

definition ws_close :: "nat \<Rightarrow> nat \<Rightarrow> 'm transport \<Rightarrow> 'm transport \<times> 'm tr_out list" where
  "ws_close r code s =
     (upd_sock r (\<lambda>k. if sk_state k = WsConnecting \<or> sk_state k = WsOpen then k\<lparr>sk_state := WsClosing\<rparr> else k) s,
      [WsClose r code])"

definition add_timer :: "timer_kind \<Rightarrow> nat \<Rightarrow> 'm transport \<Rightarrow> 'm transport" where
  "add_timer k delay s =
     s\<lparr>tr_timers := tr_timers s @ [\<lparr>tm_id = tr_fresh s, tm_kind = k, tm_due = tr_time s + delay\<rparr>],
       tr_fresh := Suc (tr_fresh s)\<rparr>"

definition clear_timer :: "nat option \<Rightarrow> 'm transport \<Rightarrow> 'm transport" where
  "clear_timer t s =
     (case t of None \<Rightarrow> s | Some i \<Rightarrow> s\<lparr>tr_timers := filter (\<lambda>x. tm_id x \<noteq> i) (tr_timers s)\<rparr>)"

section \<open>The private methods\<close>

definition sendRaw :: "'m frame \<Rightarrow> 'm transport \<Rightarrow> 'm tr_out list" where
  "sendRaw f s = (if ws_open s then [WsSend (the (tr_ws s)) f] else [])"

definition stopPing :: "'m transport \<Rightarrow> 'm transport" where
  "stopPing s =
     (let s1 = (clear_timer (tr_pingTimer s) s)\<lparr>tr_pingTimer := None\<rparr>
      in (clear_timer (tr_pongTimer s1) s1)\<lparr>tr_pongTimer := None\<rparr>)"

definition startPing :: "tr_config \<Rightarrow> 'm transport \<Rightarrow> 'm transport" where
  "startPing cfg s =
     (let s1 = stopPing s
      in (add_timer TkPing (2 * pingInterval cfg) s1)\<lparr>tr_pingTimer := Some (tr_fresh s1)\<rparr>)"

definition pong_timeout :: "tr_config \<Rightarrow> nat" where
  "pong_timeout cfg = 5 * pingInterval cfg"

definition schedulePongCheck :: "tr_config \<Rightarrow> 'm transport \<Rightarrow> 'm transport" where
  "schedulePongCheck cfg s =
     (let s1 = clear_timer (tr_pongTimer s) s
      in (add_timer TkPong (pong_timeout cfg) s1)\<lparr>tr_pongTimer := Some (tr_fresh s1)\<rparr>)"

definition cleanup :: "'m transport \<Rightarrow> 'm transport" where
  "cleanup s =
     (let s1 = stopPing s in (clear_timer (tr_reconnectTimer s1) s1)\<lparr>tr_reconnectTimer := None\<rparr>)"

text \<open>
  The loop of \<open>flushQueue\<close> over the messages it has taken out: it stops at the first
  one it cannot send and puts that and the rest back in front.
\<close>

fun flush_loop :: "'m list \<Rightarrow> 'm transport \<Rightarrow> 'm transport \<times> 'm tr_out list" where
  "flush_loop [] s = (s, [])"
| "flush_loop (m # ms) s =
     (if tr_connected s \<and> ws_open s
      then (let (s', out) = flush_loop ms s in (s', WsSend (the (tr_ws s)) (MsgFrame m) # out))
      else (s\<lparr>tr_queue := (m # ms) @ tr_queue s\<rparr>, []))"

definition flushQueue :: "'m transport \<Rightarrow> 'm transport \<times> 'm tr_out list" where
  "flushQueue s =
     (if tr_flushing s then (s, [])
      else (let (s1, out) = flush_loop (tr_queue s) (s\<lparr>tr_flushing := True, tr_queue := []\<rparr>)
            in (s1\<lparr>tr_flushing := False\<rparr>, out)))"

definition backoff :: "tr_config \<Rightarrow> nat \<Rightarrow> nat" where
  "backoff cfg n = min (reconnectDelay cfg * 2 ^ n) (reconnectMaxDelay cfg)"

definition scheduleReconnect :: "tr_config \<Rightarrow> 'm transport \<Rightarrow> 'm transport \<times> 'm tr_out list" where
  "scheduleReconnect cfg s =
     (if (case maxReconnectAttempts cfg of Some n \<Rightarrow> tr_attempts s \<ge> n | None \<Rightarrow> False) then (s, [])
      else
        (let delay = backoff cfg (tr_attempts s);
             s1 = s\<lparr>tr_attempts := Suc (tr_attempts s)\<rparr>
         in ((add_timer TkReconnect (2 * delay) s1)\<lparr>tr_reconnectTimer := Some (tr_fresh s1)\<rparr>,
             [TrReconnecting (tr_attempts s1) delay])))"

definition maybe_reconnect :: "tr_config \<Rightarrow> 'm transport \<Rightarrow> 'm transport \<times> 'm tr_out list" where
  "maybe_reconnect cfg s =
     (if \<not> tr_intentional s \<and> autoReconnect cfg then scheduleReconnect cfg s else (s, []))"

section \<open>The public methods\<close>

text \<open>
  \<open>connect\<close>.  \<open>ctorOk\<close> says whether \<open>new WebSocket\<close> returns;
  \<open>auto\<close> marks the call made by the reconnect timer, whose rejection is caught and
  schedules the next attempt.
\<close>

definition tr_connect :: "tr_config \<Rightarrow> bool \<Rightarrow> bool \<Rightarrow> 'm transport \<Rightarrow> 'm transport \<times> 'm tr_out list" where
  "tr_connect cfg auto ctorOk s =
     (let s1 = s\<lparr>tr_intentional := False\<rparr> in
      if ctorOk then
        (s1\<lparr>tr_socks := tr_socks s1 @ [\<lparr>sk_state = WsConnecting, sk_handlers = True, sk_settled = False,
                                        sk_promise = Pending, sk_auto = auto\<rparr>],
            tr_ws := Some (length (tr_socks s1))\<rparr>, [WsNew (length (tr_socks s1))])
      else if auto then maybe_reconnect cfg s1 else (s1, []))"

definition tr_send :: "'m \<Rightarrow> 'm transport \<Rightarrow> 'm transport \<times> 'm tr_out list" where
  "tr_send m s =
     (if tr_connected s \<and> ws_open s then (s, [WsSend (the (tr_ws s)) (MsgFrame m)])
      else if length (tr_queue s) < MESSAGE_QUEUE_MAX then (s\<lparr>tr_queue := tr_queue s @ [m]\<rparr>, [])
      else (s, []))"

definition tr_close :: "'m transport \<Rightarrow> 'm transport \<times> 'm tr_out list" where
  "tr_close s =
     (let s1 = (cleanup (s\<lparr>tr_intentional := True, tr_connected := False\<rparr>))\<lparr>tr_queue := []\<rparr>
      in case tr_ws s1 of
           None \<Rightarrow> (s1, [])
         | Some r \<Rightarrow>
             (let (s2, out) = ws_close r 1000 s1
              in ((upd_sock r (\<lambda>k. k\<lparr>sk_handlers := False\<rparr>) s2)\<lparr>tr_ws := None\<rparr>, out)))"

definition clearQueue :: "'m transport \<Rightarrow> 'm transport" where
  "clearQueue s = s\<lparr>tr_queue := []\<rparr>"

definition is_connected :: "'m transport \<Rightarrow> bool" where
  "is_connected s = (tr_connected s \<and> ws_open s)"

section \<open>Socket handlers\<close>

definition ws_onopen :: "tr_config \<Rightarrow> int \<Rightarrow> nat \<Rightarrow> 'm transport \<Rightarrow> 'm transport \<times> 'm tr_out list" where
  "ws_onopen cfg now r s =
     (let s1 = upd_sock r (\<lambda>k. k\<lparr>sk_settled := True\<rparr>) s;
          s2 = startPing cfg (s1\<lparr>tr_connected := True, tr_attempts := 0, tr_lastPong := now\<rparr>);
          (s3, out) = flushQueue s2
      in (upd_sock r (\<lambda>k. k\<lparr>sk_promise := settle (Resolved []) (sk_promise k)\<rparr>) s3, out @ [TrOpen]))"

definition ws_onclose :: "tr_config \<Rightarrow> nat \<Rightarrow> 'm transport \<Rightarrow> 'm transport \<times> 'm tr_out list" where
  "ws_onclose cfg r s =
     (let s1 = cleanup (s\<lparr>tr_connected := False\<rparr>) in
      if \<not> sk_settled (tr_socks s1 ! r) then
        (let s2 = upd_sock r (\<lambda>k. k\<lparr>sk_settled := True,
                                     sk_promise := settle (Rejected ''WebSocket closed'') (sk_promise k)\<rparr>) s1
         in if sk_auto (tr_socks s1 ! r) then maybe_reconnect cfg s2 else (s2, []))
      else (let (s2, out) = maybe_reconnect cfg s1 in (s2, TrClose # out)))"

datatype 'm incoming_frame = InPong | InPing | InMsg 'm | InBad

definition ws_onmessage :: "int \<Rightarrow> 'm incoming_frame \<Rightarrow> 'm transport \<Rightarrow> 'm transport \<times> 'm tr_out list" where
  "ws_onmessage now f s =
     (case f of
        InPong \<Rightarrow> (s\<lparr>tr_lastPong := now\<rparr>, [])
      | InPing \<Rightarrow> (s, sendRaw PongFrame s)
      | InMsg m \<Rightarrow> (s, [TrMessage m])
      | InBad \<Rightarrow> (s, [TrError]))"

section \<open>The event loop's timers\<close>

definition earliest :: "timer list \<Rightarrow> timer option" where
  "earliest ts = (case ts of [] \<Rightarrow> None | t # ts' \<Rightarrow>
     Some (fold (\<lambda>x best. if tm_due x < tm_due best then x else best) ts' t))"

definition pong_check :: "tr_config \<Rightarrow> int \<Rightarrow> 'm transport \<Rightarrow> 'm transport \<times> 'm tr_out list" where
  "pong_check cfg now s =
     (if 2 * (now - tr_lastPong s) > int (pong_timeout cfg) then
        (let s1 = s\<lparr>tr_connected := False\<rparr> in
         case tr_ws s1 of None \<Rightarrow> (s1, []) | Some r \<Rightarrow> ws_close r 4000 s1)
      else (s, []))"

text \<open>
  One timer fires.  A one-shot timer is gone when its callback runs; the ping interval is re-armed.
\<close>

definition fire_timer :: "tr_config \<Rightarrow> int \<Rightarrow> bool \<Rightarrow> 'm transport \<Rightarrow> 'm transport \<times> 'm tr_out list" where
  "fire_timer cfg now ctorOk s =
     (case earliest (tr_timers s) of
        None \<Rightarrow> (s, [])
      | Some t \<Rightarrow>
          (let s0 = s\<lparr>tr_time := max (tr_time s) (tm_due t)\<rparr>;
               s1 = s0\<lparr>tr_timers := filter (\<lambda>x. tm_id x \<noteq> tm_id t) (tr_timers s0)\<rparr>
           in case tm_kind t of
                TkPing \<Rightarrow>
                  (let s2 = s1\<lparr>tr_timers := tr_timers s1 @ [t\<lparr>tm_due := tr_time s1 + 2 * pingInterval cfg\<rparr>]\<rparr>
                   in (schedulePongCheck cfg s2, sendRaw PingFrame s2))
              | TkPong \<Rightarrow> pong_check cfg now s1
              | TkReconnect \<Rightarrow> tr_connect cfg True ctorOk s1))"

section \<open>The machine\<close>

datatype 'm tr_event =
    Connect bool
  | Send 'm
  | CloseCall
  | ClearQueue
  | SockOpen nat int
  | SockClose nat
  | SockError nat
  | SockMessage nat "'m incoming_frame" int
  | FireTimer int bool
  | Advance nat

fun tr_step :: "tr_config \<Rightarrow> 'm transport \<Rightarrow> 'm tr_event \<Rightarrow> 'm transport \<times> 'm tr_out list" where
  "tr_step cfg s (Connect ok) = tr_connect cfg False ok s"
| "tr_step cfg s (Send m) = tr_send m s"
| "tr_step cfg s CloseCall = tr_close s"
| "tr_step cfg s ClearQueue = (clearQueue s, [])"
| "tr_step cfg s (SockOpen r now) =
     (if r < length (tr_socks s) \<and> sk_state (tr_socks s ! r) = WsConnecting
      then ws_onopen cfg now r (upd_sock r (\<lambda>k. k\<lparr>sk_state := WsOpen\<rparr>) s) else (s, []))"
| "tr_step cfg s (SockClose r) =
     (if r < length (tr_socks s) \<and> sk_state (tr_socks s ! r) \<noteq> WsClosed
      then (let s1 = upd_sock r (\<lambda>k. k\<lparr>sk_state := WsClosed\<rparr>) s
            in if sk_handlers (tr_socks s ! r) then ws_onclose cfg r s1 else (s1, []))
      else (s, []))"
| "tr_step cfg s (SockError r) =
     (s, if r < length (tr_socks s) \<and> sk_state (tr_socks s ! r) \<noteq> WsClosed \<and> sk_handlers (tr_socks s ! r)
         then [TrError] else [])"
| "tr_step cfg s (SockMessage r f now) =
     (if r < length (tr_socks s) \<and> sk_state (tr_socks s ! r) \<in> {WsOpen, WsClosing} \<and> sk_handlers (tr_socks s ! r)
      then ws_onmessage now f s else (s, []))"
| "tr_step cfg s (FireTimer now ok) = fire_timer cfg now ok s"
| "tr_step cfg s (Advance n) = (s\<lparr>tr_time := tr_time s + n\<rparr>, [])"

end
