(* ===== verification/Transport_Props.thy ===== *)
theory Transport_Props
  imports Transport
begin

text \<open>
  Correctness of the transport: messages leave in the order in which they were accepted and none
  is lost while the object lives, the queue is bounded, reconnection backs off within its bounds,
  \<open>close\<close> is final; and two defects, a keep-alive check that cannot fire and a
  \<open>connect\<close> promise that \<open>close\<close> abandons.
\<close>

section \<open>Invariant\<close>

text \<open>
  Every live timer is the one its field names, a pong check is always due after the next ping, and
  no message waits while the socket can take it.
\<close>

fun field_of :: "timer_kind \<Rightarrow> 'm transport \<Rightarrow> nat option" where
  "field_of TkPing s = tr_pingTimer s"
| "field_of TkPong s = tr_pongTimer s"
| "field_of TkReconnect s = tr_reconnectTimer s"

definition tinv :: "timer list \<Rightarrow> (timer_kind \<Rightarrow> nat option) \<Rightarrow> nat \<Rightarrow> bool" where
  "tinv ts fld n \<longleftrightarrow>
     (\<forall>t\<in>set ts. tm_id t < n \<and> (\<forall>k. fld k = Some (tm_id t) \<longleftrightarrow> tm_kind t = k)) \<and>
     (\<forall>k i. fld k = Some i \<longrightarrow> i < n) \<and>
     (\<forall>t\<in>set ts. tm_kind t = TkPong \<longrightarrow> (\<exists>p\<in>set ts. tm_kind p = TkPing \<and> tm_due p < tm_due t))"

definition timers_ok :: "'m transport \<Rightarrow> bool" where
  "timers_ok s \<longleftrightarrow> tinv (tr_timers s) (\<lambda>k. field_of k s) (tr_fresh s)"

definition queue_ok :: "'m transport \<Rightarrow> bool" where
  "queue_ok s \<longleftrightarrow>
     (\<forall>r. tr_ws s = Some r \<longrightarrow> r < length (tr_socks s)) \<and>
     length (tr_queue s) \<le> MESSAGE_QUEUE_MAX \<and> \<not> tr_flushing s \<and>
     (tr_connected s \<longrightarrow> ws_open s \<longrightarrow> tr_queue s = [])"

section \<open>Messages\<close>

fun msg_sent :: "'m tr_out \<Rightarrow> 'm list" where
  "msg_sent (WsSend r (MsgFrame m)) = [m]"
| "msg_sent _ = []"

definition msgs_sent :: "'m tr_out list \<Rightarrow> 'm list" where
  "msgs_sent out = concat (map msg_sent out)"

lemma msgs_sent_simps [simp]:
  "msgs_sent [] = []" "msgs_sent (x # xs) = msg_sent x @ msgs_sent xs"
  "msgs_sent (xs @ ys) = msgs_sent xs @ msgs_sent ys"
  by (simp_all add: msgs_sent_def)

text \<open>What an operation that only moves timers and sockets keeps.\<close>

definition same_queue :: "'m transport \<Rightarrow> 'm transport \<Rightarrow> bool" where
  "same_queue s s' \<longleftrightarrow>
     tr_queue s' = tr_queue s \<and> tr_flushing s' = tr_flushing s \<and> tr_connected s' = tr_connected s \<and>
     tr_ws s' = tr_ws s \<and> tr_socks s' = tr_socks s"

lemma same_queue_ok: "same_queue s s' \<Longrightarrow> queue_ok s' = queue_ok s \<and> ws_open s' = ws_open s"
  by (simp add: same_queue_def queue_ok_def ws_open_def split: option.split)

lemma same_queue_timers:
  "same_queue s (stopPing s)"
  "same_queue s (cleanup s)"
  "same_queue s (startPing cfg s)"
  "same_queue s (schedulePongCheck cfg s)"
  "same_queue s (fst (scheduleReconnect cfg s))"
  "same_queue s (fst (maybe_reconnect cfg s))"
  by (simp_all add: same_queue_def stopPing_def cleanup_def startPing_def schedulePongCheck_def
      scheduleReconnect_def maybe_reconnect_def clear_timer_def add_timer_def Let_def split: option.split)

lemma same_queueD:
  assumes "same_queue s s'"
  shows "tr_queue s' = tr_queue s" "tr_flushing s' = tr_flushing s" "tr_connected s' = tr_connected s"
    "tr_ws s' = tr_ws s" "tr_socks s' = tr_socks s" "ws_open s' = ws_open s" "queue_ok s' = queue_ok s"
  using assms same_queue_ok [OF assms] by (simp_all add: same_queue_def)

lemmas timer_frames [simp] =
  same_queue_timers [THEN same_queueD(1)] same_queue_timers [THEN same_queueD(2)]
  same_queue_timers [THEN same_queueD(3)] same_queue_timers [THEN same_queueD(4)]
  same_queue_timers [THEN same_queueD(5)] same_queue_timers [THEN same_queueD(6)]
  same_queue_timers [THEN same_queueD(7)]

lemma msgs_sent_reconnect [simp]:
  "msgs_sent (snd (maybe_reconnect cfg s)) = []"
  by (simp add: maybe_reconnect_def scheduleReconnect_def Let_def split: option.split)

lemma msgs_sent_raw [simp]: "msgs_sent (sendRaw PingFrame s) = []" "msgs_sent (sendRaw PongFrame s) = []"
  by (simp_all add: sendRaw_def)

lemma flush_loop_spec:
  "tr_queue s = [] \<Longrightarrow>
   tr_queue (fst (flush_loop ms s)) = (if tr_connected s \<and> ws_open s then [] else ms) \<and>
   msgs_sent (snd (flush_loop ms s)) = (if tr_connected s \<and> ws_open s then ms else []) \<and>
   fst (flush_loop ms s) = s\<lparr>tr_queue := tr_queue (fst (flush_loop ms s))\<rparr>"
  by (induction ms) (auto simp: Let_def split_def)

lemma flushQueue_spec:
  assumes "\<not> tr_flushing s"
  shows "tr_queue (fst (flushQueue s)) = (if tr_connected s \<and> ws_open s then [] else tr_queue s)"
    and "msgs_sent (snd (flushQueue s)) = (if tr_connected s \<and> ws_open s then tr_queue s else [])"
    and "fst (flushQueue s) = s\<lparr>tr_queue := tr_queue (fst (flushQueue s))\<rparr>"
proof -
  let ?s = "s\<lparr>tr_flushing := True, tr_queue := []\<rparr>"
  have "ws_open ?s = ws_open s" by (simp add: ws_open_def split: option.split)
  with flush_loop_spec [of ?s "tr_queue s"] assms
  show "tr_queue (fst (flushQueue s)) = (if tr_connected s \<and> ws_open s then [] else tr_queue s)"
    "msgs_sent (snd (flushQueue s)) = (if tr_connected s \<and> ws_open s then tr_queue s else [])"
    "fst (flushQueue s) = s\<lparr>tr_queue := tr_queue (fst (flushQueue s))\<rparr>"
    by (auto simp: flushQueue_def Let_def split_def)
qed

lemma ws_open_upd [simp]:
  "ws_open (s\<lparr>tr_connected := b\<rparr>) = ws_open s"
  "ws_open (s\<lparr>tr_attempts := n\<rparr>) = ws_open s"
  "ws_open (s\<lparr>tr_lastPong := t\<rparr>) = ws_open s"
  "ws_open (s\<lparr>tr_queue := q\<rparr>) = ws_open s"
  "ws_open (s\<lparr>tr_timers := ts\<rparr>) = ws_open s"
  "ws_open (s\<lparr>tr_time := m\<rparr>) = ws_open s"
  "ws_open (s\<lparr>tr_intentional := c\<rparr>) = ws_open s"
  by (simp_all add: ws_open_def split: option.split)

lemma ws_open_upd_sock:
  "(\<And>k. sk_state (f k) = WsOpen \<longleftrightarrow> sk_state k = WsOpen) \<Longrightarrow> ws_open (upd_sock r f s) = ws_open s"
  by (cases "r < length (tr_socks s)")
    (auto simp: ws_open_def upd_sock_def nth_list_update list_update_beyond split: option.split)

lemma upd_sock_fields [simp]:
  "tr_ws (upd_sock r f s) = tr_ws s" "tr_queue (upd_sock r f s) = tr_queue s"
  "tr_flushing (upd_sock r f s) = tr_flushing s" "tr_connected (upd_sock r f s) = tr_connected s"
  "length (tr_socks (upd_sock r f s)) = length (tr_socks s)"
  "tr_timers (upd_sock r f s) = tr_timers s" "tr_fresh (upd_sock r f s) = tr_fresh s"
  "tr_attempts (upd_sock r f s) = tr_attempts s"
  "field_of k (upd_sock r f s) = field_of k s"
  by (simp_all add: upd_sock_def) (cases k; simp)

text \<open>One step moves messages from the queue to the socket in order and appends the accepted one.\<close>

definition accepts :: "'m transport \<Rightarrow> 'm tr_event \<Rightarrow> 'm list" where
  "accepts s e = (case e of Send m \<Rightarrow> if is_connected s \<or> length (tr_queue s) < MESSAGE_QUEUE_MAX then [m] else []
                          | _ \<Rightarrow> [])"

fun accepted :: "tr_config \<Rightarrow> 'm transport \<Rightarrow> 'm tr_event list \<Rightarrow> 'm list" where
  "accepted cfg s [] = []"
| "accepted cfg s (e # es) = accepts s e @ accepted cfg (fst (tr_step cfg s e)) es"

definition fifo_step :: "'m transport \<Rightarrow> 'm list \<Rightarrow> 'm transport \<times> 'm tr_out list \<Rightarrow> bool" where
  "fifo_step s acc x \<longleftrightarrow> queue_ok (fst x) \<and> msgs_sent (snd x) @ tr_queue (fst x) = tr_queue s @ acc"

lemma fifo_same: "queue_ok s \<Longrightarrow> same_queue s s' \<Longrightarrow> msgs_sent out = [] \<Longrightarrow> fifo_step s [] (s', out)"
  by (simp add: fifo_step_def same_queueD)

lemma fifo_onopen:
  assumes "queue_ok s" "r < length (tr_socks s)"
  shows "fifo_step s [] (ws_onopen cfg now r (upd_sock r (\<lambda>k. k\<lparr>sk_state := WsOpen\<rparr>) s))"
proof -
  define s1 where "s1 = upd_sock r (\<lambda>k. k\<lparr>sk_settled := True\<rparr>) (upd_sock r (\<lambda>k. k\<lparr>sk_state := WsOpen\<rparr>) s)"
  define s2 where "s2 = startPing cfg (s1\<lparr>tr_connected := True, tr_attempts := 0, tr_lastPong := now\<rparr>)"
  let ?s3 = "fst (flushQueue s2)"
  have s2: "tr_queue s2 = tr_queue s" "\<not> tr_flushing s2" "tr_connected s2" "tr_ws s2 = tr_ws s"
    "length (tr_socks s2) = length (tr_socks s)"
    using assms(1) by (simp_all add: s2_def s1_def queue_ok_def)
  note f = flushQueue_spec [OF s2(2)]
  have "ws_open ?s3 = ws_open s2" by (subst f(3)) simp
  moreover have "tr_ws ?s3 = tr_ws s" "\<not> tr_flushing ?s3" "tr_connected ?s3"
    "length (tr_socks ?s3) = length (tr_socks s)"
    using s2 by (subst f(3); simp)+
  ultimately have "queue_ok ?s3"
    using assms(1) s2(1,3) f(1) by (simp add: queue_ok_def)
  moreover have "ws_open (upd_sock r (\<lambda>k. k\<lparr>sk_promise := p k\<rparr>) ?s3) = ws_open ?s3" for p
    by (rule ws_open_upd_sock) simp
  ultimately show ?thesis
    using f(1,2) s2(1,3)
    by (simp add: fifo_step_def ws_onopen_def Let_def split_def s1_def [symmetric] s2_def [symmetric] queue_ok_def)
qed

lemma queue_ok_closed:
  "queue_ok s \<Longrightarrow> (\<And>k. sk_state (f k) = WsOpen \<Longrightarrow> sk_state k = WsOpen) \<Longrightarrow> queue_ok (upd_sock r f s)"
  by (cases "r < length (tr_socks s)")
    (auto simp: queue_ok_def ws_open_def upd_sock_def nth_list_update list_update_beyond
      split: option.splits if_splits)

lemma fifo_onclose:
  assumes "queue_ok s"
  shows "fifo_step s [] (ws_onclose cfg r s)"
proof -
  let ?s = "cleanup (s\<lparr>tr_connected := False\<rparr>)"
  have ok: "queue_ok ?s" using assms by (simp add: queue_ok_def)
  have "queue_ok (upd_sock r (\<lambda>k. k\<lparr>sk_settled := True, sk_promise := p k\<rparr>) ?s)" for p
    using ok by (rule queue_ok_closed) simp
  with ok show ?thesis
    by (simp add: fifo_step_def ws_onclose_def Let_def split_def)
qed

lemma queue_ok_fields [simp]:
  "queue_ok (s\<lparr>tr_attempts := n\<rparr>) = queue_ok s"
  "queue_ok (s\<lparr>tr_lastPong := t\<rparr>) = queue_ok s"
  "queue_ok (s\<lparr>tr_timers := ts\<rparr>) = queue_ok s"
  "queue_ok (s\<lparr>tr_time := m\<rparr>) = queue_ok s"
  "queue_ok (s\<lparr>tr_intentional := c\<rparr>) = queue_ok s"
  by (simp_all add: queue_ok_def)

lemma fifo_connect: "queue_ok s \<Longrightarrow> fifo_step s [] (tr_connect cfg auto ok s)"
  unfolding tr_connect_def Let_def
  by (cases ok; cases auto; simp add: fifo_step_def; simp add: queue_ok_def ws_open_def)

lemma fifo_fire:
  assumes "queue_ok s"
  shows "fifo_step s [] (fire_timer cfg now ok s)"
proof -
  have "fifo_step s [] (tr_connect cfg True ok (s\<lparr>tr_time := t, tr_timers := ts\<rparr>))" for t ts
    using fifo_connect [of "s\<lparr>tr_time := t, tr_timers := ts\<rparr>"] assms by (simp add: fifo_step_def)
  moreover have "fifo_step s [] (pong_check cfg now (s\<lparr>tr_time := t, tr_timers := ts\<rparr>))" for t ts
    using assms
    by (auto simp: pong_check_def fifo_step_def ws_close_def Let_def split: option.split intro!: queue_ok_closed)
      (auto simp: queue_ok_def split: if_splits)
  ultimately show ?thesis
    using assms
    by (auto simp: fire_timer_def Let_def fifo_step_def split: option.split timer_kind.split)
qed

lemma fifo_event:
  assumes "queue_ok s" "e \<noteq> CloseCall" "e \<noteq> ClearQueue"
  shows "fifo_step s (accepts s e) (tr_step cfg s e)"
proof (cases e)
  case (Send m)
  with assms show ?thesis
    by (auto simp: accepts_def tr_send_def fifo_step_def is_connected_def queue_ok_def)
next
  case (SockClose r)
  have "queue_ok (upd_sock r (\<lambda>k. k\<lparr>sk_state := WsClosed\<rparr>) s)"
    using assms(1) by (rule queue_ok_closed) simp
  from fifo_onclose [OF this] this SockClose assms(1) show ?thesis
    by (auto simp: accepts_def fifo_step_def Let_def)
next
  case (SockMessage r f now)
  with assms show ?thesis
    by (auto simp: accepts_def ws_onmessage_def fifo_step_def split: incoming_frame.split)
qed (use assms in \<open>simp_all add: accepts_def fifo_onopen fifo_connect fifo_fire fifo_same same_queue_def\<close>)

lemma queue_ok_step: "queue_ok s \<Longrightarrow> queue_ok (fst (tr_step cfg s e))"
proof (cases "e = CloseCall \<or> e = ClearQueue")
  case True
  moreover assume "queue_ok s"
  ultimately show ?thesis
    by (elim disjE)
      (simp_all add: tr_close_def clearQueue_def ws_close_def Let_def queue_ok_def split: option.split)
next
  case False
  moreover assume "queue_ok s"
  ultimately show ?thesis using fifo_event [of s e cfg] by (simp add: fifo_step_def)
qed

interpretation transport_queue: machine "tr_step cfg" queue_ok "\<lambda>_. True" for cfg
  by unfold_locales (rule queue_ok_step)

text \<open>
  C11. The transport is a bounded queue that keeps order and loses nothing.  From a new transport,
  after any sequence of connects, sends, socket events and timers, and as long as the caller
  neither closes it nor clears the queue: the messages handed to sockets so far, followed by the
  ones still queued, are exactly the messages \<open>send\<close> accepted, in the order of the
  calls.  The queue never exceeds \<open>MESSAGE_QUEUE_MAX\<close>, and it is empty whenever the
  transport reports that it is connected.
\<close>

theorem transport_fifo:
  assumes "\<forall>e\<in>set es. e \<noteq> CloseCall \<and> e \<noteq> ClearQueue"
    and "run (tr_step cfg) new_Transport es = (s, out)"
  shows "msgs_sent out @ tr_queue s = accepted cfg new_Transport es \<and>
    length (tr_queue s) \<le> MESSAGE_QUEUE_MAX \<and> (is_connected s \<longrightarrow> tr_queue s = [])"
proof -
  have new: "queue_ok new_Transport" by (simp add: queue_ok_def new_Transport_def ws_open_def)
  have "queue_ok s0 \<Longrightarrow> msgs_sent (snd (run (tr_step cfg) s0 es)) @ tr_queue (run_state (tr_step cfg) s0 es)
      = tr_queue s0 @ accepted cfg s0 es" for s0
    using assms(1)
  proof (induction es arbitrary: s0)
    case (Cons e es)
    have "fifo_step s0 (accepts s0 e) (tr_step cfg s0 e)"
      using Cons.prems by (intro fifo_event) auto
    with Cons.IH [of "fst (tr_step cfg s0 e)"] Cons.prems show ?case
      by (simp add: fifo_step_def Let_def split_def)
  qed simp
  from this [OF new] have "msgs_sent out @ tr_queue s = tr_queue new_Transport @ accepted cfg new_Transport es"
    by (simp add: assms(2))
  moreover have "queue_ok s"
    using transport_queue.run_inv [OF new, of es cfg] assms(2) by (simp add: list_all_iff)
  ultimately show ?thesis by (simp add: queue_ok_def is_connected_def new_Transport_def)
qed

lemmas tr_run_defs =
  tr_connect_def tr_send_def tr_close_def ws_close_def ws_onopen_def ws_onclose_def ws_onmessage_def
  flushQueue_def startPing_def stopPing_def schedulePongCheck_def pong_timeout_def clear_timer_def
  add_timer_def cleanup_def maybe_reconnect_def scheduleReconnect_def backoff_def ws_open_def upd_sock_def
  fire_timer_def earliest_def sendRaw_def settle_def new_Transport_def limit_defs Let_def

definition demo_cfg :: tr_config where
  "demo_cfg = \<lparr>autoReconnect = True, reconnectDelay = 1000, reconnectMaxDelay = 30000,
     maxReconnectAttempts = None, pingInterval = 25000\<rparr>"

definition demo_traffic :: "nat tr_event list" where
  "demo_traffic = [Send 1, Connect True, Send 2, SockOpen 0 5, Send 3, SockClose 0, Send 4]"

lemma demo_traffic_run:
  "snd (run (tr_step demo_cfg) new_Transport demo_traffic) =
     [WsNew 0, WsSend 0 (MsgFrame 1), WsSend 0 (MsgFrame 2), TrOpen, WsSend 0 (MsgFrame 3),
      TrClose, TrReconnecting 1 1000]"
  "tr_queue (run_state (tr_step demo_cfg) new_Transport demo_traffic) = [4]"
  by (simp_all add: demo_traffic_def demo_cfg_def tr_run_defs)

theorem transport_fifo_witness:
  "accepted demo_cfg new_Transport demo_traffic = [1, 2, 3, 4] \<and>
   length (tr_queue (run_state (tr_step demo_cfg) new_Transport demo_traffic)) \<le> MESSAGE_QUEUE_MAX"
proof -
  have "\<forall>e\<in>set demo_traffic. e \<noteq> CloseCall \<and> e \<noteq> ClearQueue" by (simp add: demo_traffic_def)
  from transport_fifo [OF this surjective_pairing, of demo_cfg] show ?thesis
    unfolding demo_traffic_run by simp
qed

section \<open>Timers\<close>

lemma tinv_filter:
  assumes "tinv ts fld n"
    and "\<And>k. fld' k = fld k \<or> (fld' k = None \<and> (\<forall>t\<in>set ts. P t \<longrightarrow> tm_kind t \<noteq> k))"
    and "\<And>t p. t \<in> set ts \<Longrightarrow> tm_kind t = TkPong \<Longrightarrow> P t \<Longrightarrow> p \<in> set ts \<Longrightarrow> tm_kind p = TkPing \<Longrightarrow> P p"
  shows "tinv (filter P ts) fld' n"
proof -
  have "fld' k = Some (tm_id t) \<longleftrightarrow> tm_kind t = k" if "t \<in> set ts" "P t" for t k
    using assms(1) assms(2) [of k] that unfolding tinv_def by (metis option.distinct(1))
  moreover have "i < n" if "fld' k = Some i" for k i
    using assms(1) assms(2) [of k] that by (auto simp: tinv_def)
  moreover have "\<exists>p\<in>set ts. P p \<and> tm_kind p = TkPing \<and> tm_due p < tm_due t"
    if "t \<in> set ts" "P t" "tm_kind t = TkPong" for t
    using assms(1) assms(3) [OF that(1,3,2)] that unfolding tinv_def by blast
  moreover have "\<forall>t\<in>set ts. tm_id t < n" using assms(1) by (simp add: tinv_def)
  ultimately show ?thesis unfolding tinv_def Ball_def Bex_def set_filter mem_Collect_eq by blast
qed

lemma tinv_add:
  assumes "tinv ts fld n" "\<And>t. t \<in> set ts \<Longrightarrow> tm_kind t \<noteq> k"
    and "k = TkPong \<Longrightarrow> \<exists>p\<in>set ts. tm_kind p = TkPing \<and> tm_due p < d"
  shows "tinv (ts @ [\<lparr>tm_id = n, tm_kind = k, tm_due = d\<rparr>]) (fld(k := Some n)) (Suc n)"
proof -
  have "tm_id t < Suc n" "((fld(k := Some n)) k' = Some (tm_id t)) = (tm_kind t = k')"
    if "t \<in> set ts" for t k'
    using assms(1) assms(2) [OF that] that by (auto simp: tinv_def intro: less_SucI)
  moreover have "fld k' \<noteq> Some n" for k' using assms(1) by (auto simp: tinv_def)
  moreover have "i < Suc n" if "(fld(k := Some n)) k' = Some i" for k' i
    using assms(1) that by (auto simp: tinv_def less_SucI split: if_splits)
  moreover have "\<exists>p\<in>set (ts @ [\<lparr>tm_id = n, tm_kind = k, tm_due = d\<rparr>]). tm_kind p = TkPing \<and> tm_due p < tm_due t"
    if "t \<in> set ts" "tm_kind t = TkPong" for t
    using assms(1) that unfolding tinv_def by auto
  ultimately show ?thesis using assms(3) unfolding tinv_def by auto
qed

lemma field_of_upd [simp]:
  "field_of k (s\<lparr>tr_pingTimer := x\<rparr>) = (if k = TkPing then x else field_of k s)"
  "field_of k (s\<lparr>tr_pongTimer := x\<rparr>) = (if k = TkPong then x else field_of k s)"
  "field_of k (s\<lparr>tr_reconnectTimer := x\<rparr>) = (if k = TkReconnect then x else field_of k s)"
  "field_of k (s\<lparr>tr_timers := ts\<rparr>) = field_of k s"
  "field_of k (s\<lparr>tr_fresh := n\<rparr>) = field_of k s"
  "field_of k (s\<lparr>tr_time := tm\<rparr>) = field_of k s"
  "field_of k (s\<lparr>tr_attempts := at\<rparr>) = field_of k s"
  "field_of k (s\<lparr>tr_connected := b\<rparr>) = field_of k s"
  "field_of k (s\<lparr>tr_queue := q\<rparr>) = field_of k s"
  "field_of k (s\<lparr>tr_intentional := b\<rparr>) = field_of k s"
  "field_of k (s\<lparr>tr_lastPong := l\<rparr>) = field_of k s"
  "field_of k (s\<lparr>tr_ws := w\<rparr>) = field_of k s"
  "field_of k (s\<lparr>tr_socks := ss\<rparr>) = field_of k s"
  "field_of k (s\<lparr>tr_flushing := b\<rparr>) = field_of k s"
  by (cases k; simp)+

lemma timers_ok_field:
  "timers_ok s \<Longrightarrow> t \<in> set (tr_timers s) \<Longrightarrow> field_of k s = Some (tm_id t) \<longleftrightarrow> tm_kind t = k"
  by (simp add: timers_ok_def tinv_def)

lemma clear_timer_filter:
  "clear_timer i s = s\<lparr>tr_timers := filter (\<lambda>x. i \<noteq> Some (tm_id x)) (tr_timers s)\<rparr>"
proof (cases i)
  case (Some a)
  have "filter (\<lambda>x. tm_id x \<noteq> a) (tr_timers s) = filter (\<lambda>x. a \<noteq> tm_id x) (tr_timers s)"
    by (rule filter_cong) auto
  with Some show ?thesis by (simp add: clear_timer_def)
qed (simp add: clear_timer_def)

lemma stopPing_timers:
  assumes "timers_ok s"
  shows "stopPing s = s\<lparr>tr_timers := filter (\<lambda>x. tm_kind x = TkReconnect) (tr_timers s),
    tr_pingTimer := None, tr_pongTimer := None\<rparr>"
proof -
  have "(tr_pingTimer s \<noteq> Some (tm_id x) \<and> tr_pongTimer s \<noteq> Some (tm_id x)) = (tm_kind x = TkReconnect)"
    if "x \<in> set (tr_timers s)" for x
    using timers_ok_field [OF assms that, of TkPing] timers_ok_field [OF assms that, of TkPong]
    by (cases "tm_kind x") simp_all
  then have "filter (\<lambda>x. tr_pingTimer s \<noteq> Some (tm_id x) \<and> tr_pongTimer s \<noteq> Some (tm_id x)) (tr_timers s)
      = filter (\<lambda>x. tm_kind x = TkReconnect) (tr_timers s)"
    by (rule filter_cong [OF refl])
  then show ?thesis by (simp add: stopPing_def clear_timer_filter Let_def conj_commute)
qed

lemma timers_ok_stopPing: "timers_ok s \<Longrightarrow> timers_ok (stopPing s)"
  unfolding stopPing_timers by (simp add: timers_ok_def) (erule tinv_filter; auto)

lemma cleanup_timers:
  assumes "timers_ok s"
  shows "tr_timers (cleanup s) = []"
proof -
  have "tr_reconnectTimer (stopPing s) = Some (tm_id x)" if "x \<in> set (tr_timers (stopPing s))" for x
    using timers_ok_field [OF timers_ok_stopPing [OF assms] that, of TkReconnect] that
    by (simp add: stopPing_timers [OF assms])
  then show ?thesis by (auto simp: cleanup_def clear_timer_filter Let_def filter_empty_conv)
qed

lemma tinv_Nil: "(\<And>k i. fld k = Some i \<Longrightarrow> i < n) \<Longrightarrow> tinv [] fld n"
  by (simp add: tinv_def)

lemma timers_ok_cleanup: "timers_ok s \<Longrightarrow> timers_ok (cleanup s)"
  using timers_ok_stopPing [of s] cleanup_timers [of s]
  unfolding timers_ok_def
  by (auto intro!: tinv_Nil simp: cleanup_def clear_timer_filter Let_def split: if_splits)
    (auto simp: tinv_def)

lemma timers_ok_add:
  assumes "timers_ok s" "\<And>t. t \<in> set (tr_timers s) \<Longrightarrow> tm_kind t \<noteq> k"
    and "k = TkPong \<Longrightarrow> \<exists>p\<in>set (tr_timers s). tm_kind p = TkPing \<and> tm_due p < tr_time s + d"
    and "\<And>k'. field_of k' s' = ((\<lambda>k. field_of k s)(k := Some (tr_fresh s))) k'"
    and "tr_timers s' = tr_timers (add_timer k d s)" "tr_fresh s' = Suc (tr_fresh s)"
  shows "timers_ok s'"
  using tinv_add [OF assms(1) [unfolded timers_ok_def] assms(2,3)] assms(4-)
  by (simp add: timers_ok_def add_timer_def fun_upd_def)

lemma earliest_fold:
  "fold (\<lambda>x best. if tm_due x < tm_due best then x else best) ts t \<in> insert t (set ts) \<and>
   (\<forall>y\<in>insert t (set ts). tm_due (fold (\<lambda>x best. if tm_due x < tm_due best then x else best) ts t) \<le> tm_due y)"
proof (induction ts arbitrary: t)
  case (Cons x ts)
  show ?case
    using Cons.IH [of x] Cons.IH [of t] by (cases "tm_due x < tm_due t") (auto intro: order_trans less_imp_le)
qed simp

lemma earliest_spec:
  "earliest ts = Some t \<Longrightarrow> t \<in> set ts \<and> (\<forall>y\<in>set ts. tm_due t \<le> tm_due y)"
  using earliest_fold by (cases ts) (auto simp: earliest_def)

lemma earliest_not_pong:
  assumes "timers_ok s" "earliest (tr_timers s) = Some t"
  shows "tm_kind t \<noteq> TkPong"
  using earliest_spec [OF assms(2)] assms(1) unfolding timers_ok_def tinv_def by (metis leD)

lemma timers_ok_same:
  "timers_ok s \<Longrightarrow> tr_timers s' = tr_timers s \<Longrightarrow> tr_fresh s' = tr_fresh s \<Longrightarrow>
   (\<And>k. field_of k s' = field_of k s) \<Longrightarrow> timers_ok s'"
  by (simp add: timers_ok_def)

lemma timers_ok_startPing: "timers_ok s \<Longrightarrow> timers_ok (startPing cfg s)"
  unfolding startPing_def Let_def
  by (rule timers_ok_add [OF timers_ok_stopPing, of s TkPing "2 * pingInterval cfg"])
    (simp_all add: stopPing_timers add_timer_def)

lemma timers_ok_maybe_reconnect:
  assumes "timers_ok s" "\<And>t. t \<in> set (tr_timers s) \<Longrightarrow> tm_kind t \<noteq> TkReconnect"
  shows "timers_ok (fst (maybe_reconnect cfg s))"
proof -
  let ?s = "s\<lparr>tr_attempts := Suc (tr_attempts s)\<rparr>"
  have "timers_ok ?s" by (rule timers_ok_same [OF assms(1)]) simp_all
  then have "timers_ok ((add_timer TkReconnect d ?s)\<lparr>tr_reconnectTimer := Some (tr_fresh ?s)\<rparr>)" for d
    by (rule timers_ok_add [where k = TkReconnect and d = d]) (simp_all add: add_timer_def assms(2))
  with assms(1) show ?thesis
    by (simp add: maybe_reconnect_def scheduleReconnect_def Let_def split: option.split)
qed

lemma timers_ok_flush: "timers_ok s \<Longrightarrow> timers_ok (fst (flushQueue s))"
proof -
  assume ok: "timers_ok s"
  have "tr_timers (fst (flush_loop ms t)) = tr_timers t \<and> tr_fresh (fst (flush_loop ms t)) = tr_fresh t \<and>
      (\<forall>k. field_of k (fst (flush_loop ms t)) = field_of k t)" for ms and t :: "'a transport"
    by (induction ms) (simp_all add: Let_def split_def)
  then show ?thesis
    by (intro timers_ok_same [OF ok]) (simp_all add: flushQueue_def Let_def split_def)
qed

lemma timers_ok_upd_sock [simp]: "timers_ok (upd_sock r f s) = timers_ok s"
  by (simp add: timers_ok_def)

lemma timers_ok_fields [simp]:
  "timers_ok (s\<lparr>tr_connected := b\<rparr>) = timers_ok s"
  "timers_ok (s\<lparr>tr_attempts := n\<rparr>) = timers_ok s"
  "timers_ok (s\<lparr>tr_lastPong := l\<rparr>) = timers_ok s"
  "timers_ok (s\<lparr>tr_queue := q\<rparr>) = timers_ok s"
  "timers_ok (s\<lparr>tr_time := m\<rparr>) = timers_ok s"
  "timers_ok (s\<lparr>tr_intentional := c\<rparr>) = timers_ok s"
  "timers_ok (s\<lparr>tr_ws := w\<rparr>) = timers_ok s"
  "timers_ok (s\<lparr>tr_socks := ss\<rparr>) = timers_ok s"
  by (simp_all add: timers_ok_def)

lemma timers_ok_onopen: "timers_ok s \<Longrightarrow> timers_ok (fst (ws_onopen cfg now r s))"
  by (simp add: ws_onopen_def Let_def split_def timers_ok_flush timers_ok_startPing)

lemma timers_ok_onclose: "timers_ok s \<Longrightarrow> timers_ok (fst (ws_onclose cfg r s))"
  by (auto simp: ws_onclose_def Let_def split_def timers_ok_cleanup cleanup_timers
      intro!: timers_ok_maybe_reconnect)

lemma timers_ok_close: "timers_ok s \<Longrightarrow> timers_ok (fst (tr_close s))"
  by (simp add: tr_close_def ws_close_def Let_def timers_ok_cleanup split: option.split)

lemma timers_ok_remove:
  assumes "timers_ok s" "t \<in> set (tr_timers s)" "tm_kind t = TkReconnect"
  shows "timers_ok (s\<lparr>tr_time := m, tr_timers := filter (\<lambda>x. tm_id x \<noteq> tm_id t) (tr_timers s)\<rparr>)"
    and "x \<in> set (tr_timers s) \<Longrightarrow> tm_id x \<noteq> tm_id t \<Longrightarrow> tm_kind x \<noteq> TkReconnect"
proof -
  have t: "tr_reconnectTimer s = Some (tm_id t)" using timers_ok_field [OF assms(1,2), of TkReconnect] assms(3) by simp
  show "x \<in> set (tr_timers s) \<Longrightarrow> tm_id x \<noteq> tm_id t \<Longrightarrow> tm_kind x \<noteq> TkReconnect"
    using timers_ok_field [OF assms(1), of x TkReconnect] t by auto
  have "tm_id p \<noteq> tm_id t" if "p \<in> set (tr_timers s)" "tm_kind p = TkPing" for p
    using timers_ok_field [OF assms(1) that(1), of TkReconnect] that(2) t by auto
  then show "timers_ok (s\<lparr>tr_time := m, tr_timers := filter (\<lambda>x. tm_id x \<noteq> tm_id t) (tr_timers s)\<rparr>)"
    using assms(1) by (simp add: timers_ok_def) (erule tinv_filter; auto)
qed

lemma timers_ok_connect:
  assumes "timers_ok s" "auto \<Longrightarrow> \<not> ok \<Longrightarrow> (\<And>t. t \<in> set (tr_timers s) \<Longrightarrow> tm_kind t \<noteq> TkReconnect)"
  shows "timers_ok (fst (tr_connect cfg auto ok s))"
  using assms by (auto simp: tr_connect_def Let_def intro!: timers_ok_maybe_reconnect)

text \<open>
  A ping re-arms itself one interval ahead and the pong check it schedules is due two and a half
  intervals ahead, so the next ping always comes first and replaces the check.
\<close>

lemma timers_ok_ping:
  assumes "timers_ok s" "t \<in> set (tr_timers s)" "tm_kind t = TkPing" "0 < pingInterval cfg"
  shows "timers_ok (schedulePongCheck cfg
    (s\<lparr>tr_time := m, tr_timers := filter (\<lambda>x. tm_id x \<noteq> tm_id t) (tr_timers s)
         @ [t\<lparr>tm_due := m + 2 * pingInterval cfg\<rparr>]\<rparr>))"
proof -
  define t' where "t' = t\<lparr>tm_due := m + 2 * pingInterval cfg\<rparr>"
  define ts where "ts = filter (\<lambda>x. tr_pongTimer s \<noteq> Some (tm_id x)) (filter (\<lambda>x. tm_id x \<noteq> tm_id t) (tr_timers s))"
  define s3 where "s3 = s\<lparr>tr_time := m, tr_timers := ts @ [t']\<rparr>"
  have t': "tm_id t' = tm_id t" "tm_kind t' = TkPing" "tm_due t' = m + 2 * pingInterval cfg"
    using assms(3) by (simp_all add: t'_def)
  have pong: "tr_pongTimer s \<noteq> Some (tm_id t)"
    using timers_ok_field [OF assms(1,2), of TkPong] assms(3) by simp
  have mem: "x \<in> set (tr_timers s) \<and> tm_kind x \<noteq> TkPong" if "x \<in> set ts" for x
    using that timers_ok_field [OF assms(1), of x TkPong] by (simp add: ts_def)
  have tinv: "tinv (tr_timers s) (\<lambda>k. field_of k s) (tr_fresh s)" using assms(1) by (simp add: timers_ok_def)
  have "tinv (ts @ [t']) (\<lambda>k. field_of k s) (tr_fresh s)"
    unfolding tinv_def set_append
  proof (intro conjI ballI)
    fix x assume x: "x \<in> set ts \<union> set [t']"
    obtain y where y: "y \<in> set (tr_timers s)" "tm_id x = tm_id y" "tm_kind x = tm_kind y" "tm_kind y \<noteq> TkPong"
      using x mem [of x] assms(2,3) t' by auto
    show "tm_id x < tr_fresh s" "\<forall>k. (field_of k s = Some (tm_id x)) = (tm_kind x = k)"
      using tinv y unfolding tinv_def by auto
    show "tm_kind x = TkPong \<longrightarrow> (\<exists>p\<in>set ts \<union> set [t']. tm_kind p = TkPing \<and> tm_due p < tm_due x)"
      using y by simp
  qed (use tinv in \<open>simp add: tinv_def\<close>)
  then have "timers_ok s3" by (simp add: timers_ok_def s3_def)
  then have "timers_ok ((add_timer TkPong (pong_timeout cfg) s3)\<lparr>tr_pongTimer := Some (tr_fresh s3)\<rparr>)"
  proof (rule timers_ok_add [where k = TkPong and d = "pong_timeout cfg"])
    show "tm_kind x \<noteq> TkPong" if "x \<in> set (tr_timers s3)" for x
      using that mem [of x] t' by (auto simp: s3_def)
    show "\<exists>p\<in>set (tr_timers s3). tm_kind p = TkPing \<and> tm_due p < tr_time s3 + pong_timeout cfg"
      using t' assms(4) by (simp add: s3_def pong_timeout_def)
  qed (simp_all add: add_timer_def)
  then show ?thesis
    using pong by (simp add: schedulePongCheck_def clear_timer_filter Let_def s3_def ts_def t'_def)
qed

lemma timers_ok_fire:
  assumes "timers_ok s" "0 < pingInterval cfg"
  shows "timers_ok (fst (fire_timer cfg now ok s))"
proof (cases "earliest (tr_timers s)")
  case (Some t)
  then have t: "t \<in> set (tr_timers s)" "tm_kind t \<noteq> TkPong"
    using earliest_spec earliest_not_pong [OF assms(1)] by auto
  let ?s = "s\<lparr>tr_time := max (tr_time s) (tm_due t), tr_timers := filter (\<lambda>x. tm_id x \<noteq> tm_id t) (tr_timers s)\<rparr>"
  show ?thesis
  proof (cases "tm_kind t")
    case TkPing
    then show ?thesis
      using timers_ok_ping [OF assms(1) t(1) TkPing assms(2), of "max (tr_time s) (tm_due t)"] Some
      by (simp add: fire_timer_def Let_def)
  next
    case TkReconnect
    note r = timers_ok_remove [OF assms(1) t(1) TkReconnect]
    have "timers_ok (fst (tr_connect cfg True ok ?s))"
      by (rule timers_ok_connect [OF r(1)]) (use r(2) in auto)
    with TkReconnect Some show ?thesis by (simp add: fire_timer_def Let_def)
  qed (use t in simp)
qed (use assms in \<open>simp add: fire_timer_def\<close>)

lemma timers_ok_step:
  assumes "timers_ok s" "0 < pingInterval cfg"
  shows "timers_ok (fst (tr_step cfg s e))"
  using assms
  by (cases e) (auto simp: tr_send_def clearQueue_def ws_onmessage_def Let_def timers_ok_onopen
      timers_ok_onclose timers_ok_close timers_ok_fire intro!: timers_ok_connect split: incoming_frame.split)

lemma timers_ok_new: "timers_ok new_Transport"
  by (auto simp: timers_ok_def new_Transport_def intro!: tinv_Nil) (metis field_of.simps option.distinct(1)
      timer_kind.exhaust transport.select_convs)

fun is_pong_close :: "'m tr_out \<Rightarrow> bool" where
  "is_pong_close (WsClose r code) = (code = 4000)"
| "is_pong_close _ = False"

lemma no_pong_close_flush: "list_all (\<lambda>x. \<not> is_pong_close x) (snd (flush_loop ms s))"
  by (induction ms arbitrary: s) (simp_all add: Let_def split_def)

lemma no_pong_close_reconnect: "list_all (\<lambda>x. \<not> is_pong_close x) (snd (maybe_reconnect cfg s))"
  by (simp add: maybe_reconnect_def scheduleReconnect_def Let_def split: option.split)

lemma no_pong_close_step:
  assumes "timers_ok s"
  shows "list_all (\<lambda>x. \<not> is_pong_close x) (snd (tr_step cfg s e))"
proof (cases e)
  case (FireTimer now ok)
  show ?thesis
  proof (cases "earliest (tr_timers s)")
    case (Some t)
    then have "tm_kind t \<noteq> TkPong" by (rule earliest_not_pong [OF assms])
    with Some FireTimer show ?thesis
      by (cases "tm_kind t") (simp_all add: fire_timer_def Let_def sendRaw_def tr_connect_def no_pong_close_reconnect)
  qed (simp add: FireTimer fire_timer_def)
qed (simp_all add: tr_connect_def tr_send_def tr_close_def ws_close_def ws_onopen_def ws_onclose_def
      ws_onmessage_def flushQueue_def sendRaw_def Let_def split_def no_pong_close_flush no_pong_close_reconnect
      split: option.split incoming_frame.split)

text \<open>
  C14. The keep-alive check never runs.  With any positive ping interval, in every state the
  transport can reach the earliest timer is never the pong check: the next ping is due after one
  interval and replaces the check, which is due after two and a half.  So in no run does the
  transport close a socket with the code of a pong timeout, even if the server has stopped
  answering.
\<close>

theorem pong_check_never_runs:
  assumes "0 < pingInterval cfg" "run (tr_step cfg) new_Transport es = (s, out)"
  shows "(\<forall>t. earliest (tr_timers s) = Some t \<longrightarrow> tm_kind t \<noteq> TkPong) \<and> (\<forall>r. WsClose r 4000 \<notin> set out)"
proof -
  have inv: "timers_ok (run_state (tr_step cfg) new_Transport es)"
    and out: "list_all (\<lambda>x. \<not> is_pong_close x) (snd (run (tr_step cfg) new_Transport es))"
  proof -
    have "timers_ok (run_state (tr_step cfg) s0 es) \<and>
        list_all (\<lambda>x. \<not> is_pong_close x) (snd (run (tr_step cfg) s0 es))"
      if "timers_ok s0" for s0 :: "'a transport"
      using that
    proof (induction es arbitrary: s0)
      case (Cons e es)
      show ?case
        using Cons.IH [OF timers_ok_step [OF Cons.prems assms(1)]] no_pong_close_step [OF Cons.prems]
        by (simp add: Let_def split_def)
    qed simp
    from this [OF timers_ok_new]
    show "timers_ok (run_state (tr_step cfg) new_Transport es)"
      "list_all (\<lambda>x. \<not> is_pong_close x) (snd (run (tr_step cfg) new_Transport es))" by simp_all
  qed
  show ?thesis
    using earliest_not_pong [OF inv] out assms(2) by (auto simp: list_all_iff)
qed

definition demo_silent :: "nat tr_event list" where
  "demo_silent = [Connect True, SockOpen 0 0, FireTimer 25000 True, FireTimer 50000 True, FireTimer 75000 True,
     FireTimer 100000 True]"

theorem pong_check_never_runs_witness:
  "0 < pingInterval demo_cfg \<and>
   (\<forall>r. WsClose r 4000 \<notin> set (snd (run (tr_step demo_cfg) new_Transport demo_silent)))"
  using pong_check_never_runs [OF _ surjective_pairing, of demo_cfg demo_silent]
  by (simp add: demo_cfg_def)

section \<open>Reconnection\<close>

fun backoff_ok :: "tr_config \<Rightarrow> 'm tr_out \<Rightarrow> bool" where
  "backoff_ok cfg (TrReconnecting n d) \<longleftrightarrow>
     0 < n \<and> d = backoff cfg (n - 1) \<and> (\<forall>m. maxReconnectAttempts cfg = Some m \<longrightarrow> n \<le> m)"
| "backoff_ok cfg _ \<longleftrightarrow> True"

lemma backoff_ok_flush: "list_all (backoff_ok cfg) (snd (flush_loop ms s))"
  by (induction ms arbitrary: s) (simp_all add: Let_def split_def)

lemma backoff_ok_reconnect: "list_all (backoff_ok cfg) (snd (maybe_reconnect cfg s))"
  by (simp add: maybe_reconnect_def scheduleReconnect_def Let_def split: option.split)

lemma backoff_ok_step: "list_all (backoff_ok cfg) (snd (tr_step cfg s e))"
  by (cases e) (simp_all add: tr_connect_def tr_send_def tr_close_def ws_close_def ws_onopen_def ws_onclose_def
      ws_onmessage_def flushQueue_def sendRaw_def fire_timer_def pong_check_def Let_def split_def
      backoff_ok_flush backoff_ok_reconnect split: option.split incoming_frame.split timer_kind.split)


definition demo_flaky :: "nat tr_event list" where
  "demo_flaky = [Connect True, SockOpen 0 0, SockClose 0, FireTimer 0 False]"

lemma demo_flaky_run:
  "TrReconnecting 2 2000 \<in> set (snd (run (tr_step demo_cfg) new_Transport demo_flaky))"
  by (simp add: demo_flaky_def demo_cfg_def tr_run_defs)


section \<open>Closing\<close>

text \<open>
  A socket is dead when no event on it runs a handler.  If \<open>connect\<close> is only called
  when nothing is in progress, at most one socket is alive, it is the current one, and none is
  alive while a reconnection is pending.
\<close>

definition dead :: "socket \<Rightarrow> bool" where
  "dead k \<longleftrightarrow> sk_state k = WsClosed \<or> (sk_state k = WsClosing \<and> \<not> sk_handlers k)"

definition idle :: "'m transport \<Rightarrow> bool" where
  "idle s \<longleftrightarrow> list_all dead (tr_socks s) \<and> (\<forall>t\<in>set (tr_timers s). tm_kind t \<noteq> TkReconnect)"

definition sole :: "'m transport \<Rightarrow> bool" where
  "sole s \<longleftrightarrow>
     (\<forall>r<length (tr_socks s). \<not> dead (tr_socks s ! r) \<longrightarrow> tr_ws s = Some r) \<and>
     ((\<exists>t\<in>set (tr_timers s). tm_kind t = TkReconnect) \<longrightarrow> list_all dead (tr_socks s))"

inductive tr_trans :: "tr_config \<Rightarrow> 'm transport \<Rightarrow> 'm tr_event \<Rightarrow> 'm transport \<Rightarrow> bool" for cfg where
  "(\<And>ok. e = Connect ok \<Longrightarrow> idle s) \<Longrightarrow> tr_trans cfg s e (fst (tr_step cfg s e))"

lemma sole_connect:
  assumes "idle s"
  shows "sole (fst (tr_connect cfg auto ok s))"
proof -
  have "tr_socks (fst (maybe_reconnect cfg (s\<lparr>tr_intentional := b\<rparr>))) = tr_socks s" for b by simp
  with assms show ?thesis
    by (auto simp: tr_connect_def Let_def sole_def idle_def list_all_length nth_append less_Suc_eq)
qed

lemma sole_dead: "list_all dead (tr_socks s) \<Longrightarrow> sole s"
  by (simp add: sole_def list_all_length)

lemma flush_socks: "tr_socks (fst (flushQueue s)) = tr_socks s \<and> tr_timers (fst (flushQueue s)) = tr_timers s
    \<and> tr_ws (fst (flushQueue s)) = tr_ws s"
proof -
  have "tr_socks (fst (flush_loop ms t)) = tr_socks t \<and> tr_timers (fst (flush_loop ms t)) = tr_timers t
      \<and> tr_ws (fst (flush_loop ms t)) = tr_ws t" for ms and t :: "'a transport"
    by (induction ms) (simp_all add: Let_def split_def)
  then show ?thesis by (simp add: flushQueue_def Let_def split_def)
qed

lemma startPing_kinds:
  "timers_ok s \<Longrightarrow> t \<in> set (tr_timers (startPing cfg s)) \<Longrightarrow> tm_kind t = TkReconnect \<Longrightarrow> t \<in> set (tr_timers s)"
  by (auto simp: startPing_def add_timer_def stopPing_timers Let_def)

lemma sole_alone:
  assumes "sole s" "r < length (tr_socks s)" "\<not> dead (tr_socks s ! r)" "dead (f (tr_socks s ! r))"
  shows "list_all dead (tr_socks (upd_sock r f s))"
proof -
  have "dead (tr_socks s ! n)" if "n < length (tr_socks s)" "n \<noteq> r" for n
    using assms(1-3) that unfolding sole_def by (metis option.inject)
  with assms(2,4) show ?thesis by (simp add: list_all_length upd_sock_def nth_list_update)
qed

lemma sole_current:
  assumes "sole s" "tr_ws s = Some r" "\<forall>t\<in>set (tr_timers s). tm_kind t \<noteq> TkReconnect"
  shows "sole (upd_sock r f s)"
proof -
  have "tr_ws s = Some q" if "q < length (tr_socks s)" "\<not> dead ((tr_socks s)[r := f (tr_socks s ! r)] ! q)" for q
    using assms(1,2) that by (cases "q = r") (auto simp: sole_def)
  with assms(3) show ?thesis by (simp add: sole_def upd_sock_def)
qed

lemma sole_upd_sock:
  assumes "sole s" "\<And>k. dead k \<Longrightarrow> dead (f k)"
  shows "sole (upd_sock r f s)"
  using assms
  by (cases "r < length (tr_socks s)")
    (auto simp: sole_def list_all_length upd_sock_def nth_list_update list_update_beyond)

lemma sole_same:
  "sole s \<Longrightarrow> tr_socks s' = tr_socks s \<Longrightarrow> tr_ws s' = tr_ws s \<Longrightarrow>
   (\<And>t. t \<in> set (tr_timers s') \<Longrightarrow> tm_kind t = TkReconnect \<Longrightarrow> t \<in> set (tr_timers s)) \<Longrightarrow> sole s'"
  by (auto simp: sole_def)

lemma sole_onopen:
  assumes "sole s" "timers_ok s" "r < length (tr_socks s)" "sk_state (tr_socks s ! r) = WsConnecting"
  shows "sole (fst (ws_onopen cfg now r (upd_sock r (\<lambda>k. k\<lparr>sk_state := WsOpen\<rparr>) s)))"
proof -
  let ?s1 = "upd_sock r (\<lambda>k. k\<lparr>sk_settled := True\<rparr>) (upd_sock r (\<lambda>k. k\<lparr>sk_state := WsOpen\<rparr>) s)"
  let ?s2 = "startPing cfg (?s1\<lparr>tr_connected := True, tr_attempts := 0, tr_lastPong := now\<rparr>)"
  have alive: "\<not> dead (tr_socks s ! r)" using assms(4) by (simp add: dead_def)
  with assms(1,3) have ws: "tr_ws s = Some r" and none: "\<forall>t\<in>set (tr_timers s). tm_kind t \<noteq> TkReconnect"
    by (auto simp: sole_def list_all_length)
  have "sole ?s1" by (intro sole_current assms(1)) (simp_all add: ws none)
  then have "sole ?s2"
    by (rule sole_same) (simp_all add: startPing_kinds [of "?s1\<lparr>tr_connected := True, tr_attempts := 0, tr_lastPong := now\<rparr>"] assms(2),
        use startPing_kinds [of "?s1\<lparr>tr_connected := True, tr_attempts := 0, tr_lastPong := now\<rparr>"] assms(2) in simp)
  then have "sole (fst (flushQueue ?s2))"
    by (rule sole_same) (simp_all add: flush_socks)
  then have "sole (upd_sock r (\<lambda>k. k\<lparr>sk_promise := p k\<rparr>) (fst (flushQueue ?s2)))" for p
    by (rule sole_upd_sock) (simp add: dead_def)
  then show ?thesis by (simp add: ws_onopen_def Let_def split_def)
qed

lemma sole_onclose:
  assumes "sole s" "r < length (tr_socks s)" "sk_state (tr_socks s ! r) \<noteq> WsClosed"
    "sk_handlers (tr_socks s ! r)"
  shows "sole (fst (ws_onclose cfg r (upd_sock r (\<lambda>k. k\<lparr>sk_state := WsClosed\<rparr>) s)))"
proof (rule sole_dead)
  let ?s = "upd_sock r (\<lambda>k. k\<lparr>sk_state := WsClosed\<rparr>) s"
  have "list_all dead (tr_socks ?s)"
    using assms by (intro sole_alone) (auto simp: dead_def)
  moreover have "list_all dead (tr_socks (upd_sock r (\<lambda>k. k\<lparr>sk_settled := True, sk_promise := p k\<rparr>) t))"
    if "list_all dead (tr_socks t)" for p and t :: "'a transport"
    using that by (cases "r < length (tr_socks t)")
      (auto simp: list_all_length upd_sock_def nth_list_update list_update_beyond dead_def)
  ultimately show "list_all dead (tr_socks (fst (ws_onclose cfg r ?s)))"
    by (simp add: ws_onclose_def Let_def split_def)
qed

lemma close_dead:
  assumes "sole s"
  shows "list_all dead (tr_socks (fst (tr_close s)))"
proof (cases "tr_ws s")
  case None
  with assms show ?thesis
    by (simp add: sole_def tr_close_def Let_def list_all_length)
next
  case (Some r)
  have others: "dead (tr_socks s ! q)" if "q < length (tr_socks s)" "q \<noteq> r" for q
    using assms Some that unfolding sole_def by (metis option.inject)
  let ?k = "tr_socks s ! r"
  have "dead ((if sk_state ?k = WsConnecting \<or> sk_state ?k = WsOpen then ?k\<lparr>sk_state := WsClosing\<rparr> else ?k)
      \<lparr>sk_handlers := False\<rparr>)"
    by (cases "sk_state ?k") (simp_all add: dead_def)
  with Some others show ?thesis
    by (cases "r < length (tr_socks s)")
      (auto simp: tr_close_def ws_close_def upd_sock_def Let_def list_all_length nth_list_update list_update_beyond)
qed

lemma sole_fire:
  assumes "sole s" "timers_ok s"
  shows "sole (fst (fire_timer cfg now ok s))"
proof (cases "earliest (tr_timers s)")
  case (Some t)
  then have t: "t \<in> set (tr_timers s)" "tm_kind t \<noteq> TkPong"
    using earliest_spec earliest_not_pong [OF assms(2)] by auto
  let ?s = "s\<lparr>tr_time := max (tr_time s) (tm_due t), tr_timers := filter (\<lambda>x. tm_id x \<noteq> tm_id t) (tr_timers s)\<rparr>"
  show ?thesis
  proof (cases "tm_kind t")
    case TkPing
    have "sole (schedulePongCheck cfg (?s\<lparr>tr_timers := tr_timers ?s @ [t\<lparr>tm_due := d\<rparr>]\<rparr>))" for d
      by (rule sole_same [OF assms(1)])
        (auto simp: schedulePongCheck_def clear_timer_filter add_timer_def Let_def TkPing split: if_splits)
    with TkPing Some show ?thesis by (simp add: fire_timer_def Let_def)
  next
    case TkReconnect
    have "list_all dead (tr_socks s)" using assms(1) t TkReconnect by (auto simp: sole_def)
    then have "idle ?s"
      using timers_ok_remove(2) [OF assms(2) t(1) TkReconnect] by (auto simp: idle_def)
    from sole_connect [OF this] TkReconnect Some show ?thesis by (simp add: fire_timer_def Let_def)
  qed (use t in simp)
qed (use assms in \<open>simp add: fire_timer_def\<close>)

lemma sole_step:
  assumes "tr_trans cfg s e s'" "timers_ok s" "sole s"
  shows "sole s'"
proof -
  have s': "s' = fst (tr_step cfg s e)" and con: "\<And>ok. e = Connect ok \<Longrightarrow> idle s"
    using assms(1) by (auto elim: tr_trans.cases)
  show ?thesis unfolding s'
  proof (cases e)
    case (SockClose r)
    have "sole (upd_sock r (\<lambda>k. k\<lparr>sk_state := WsClosed\<rparr>) s)"
      by (rule sole_upd_sock [OF assms(3)]) (simp add: dead_def)
    with SockClose sole_onclose [OF assms(3)] assms(3) show "sole (fst (tr_step cfg s e))"
      by (simp add: Let_def)
  next
    case CloseCall
    then show "sole (fst (tr_step cfg s e))" by (simp add: sole_dead close_dead [OF assms(3)])
  qed (use assms(2,3) con in \<open>auto simp: sole_connect sole_onopen sole_fire tr_send_def clearQueue_def
      ws_onmessage_def elim: sole_same split: incoming_frame.split\<close>)
qed

lemma timers_ok_trans: "tr_trans cfg s e s' \<Longrightarrow> timers_ok s \<Longrightarrow> 0 < pingInterval cfg \<Longrightarrow> timers_ok s'"
  by (auto elim!: tr_trans.cases intro: timers_ok_step)

definition tr_good :: "'m transport \<Rightarrow> bool" where
  "tr_good s \<longleftrightarrow> timers_ok s \<and> sole s"

interpretation transport_sys: inv_system "\<lambda>s. s = new_Transport" "tr_trans cfg"
    "\<lambda>s. 0 < pingInterval cfg \<longrightarrow> tr_good s" for cfg
proof
  show "s = new_Transport \<Longrightarrow> 0 < pingInterval cfg \<longrightarrow> tr_good s" for s :: "'m transport"
    using timers_ok_new by (auto simp: tr_good_def sole_def) (simp_all add: new_Transport_def)
  show "tr_trans cfg s e t \<Longrightarrow> 0 < pingInterval cfg \<longrightarrow> tr_good s \<Longrightarrow> 0 < pingInterval cfg \<longrightarrow> tr_good t"
    for s :: "'m transport" and e t
    unfolding tr_good_def by (blast intro: timers_ok_trans sole_step)
qed

text \<open>After \<open>close\<close> nothing on the object runs any more.\<close>

definition shut :: "'m transport \<Rightarrow> bool" where
  "shut s \<longleftrightarrow> list_all dead (tr_socks s) \<and> tr_timers s = [] \<and> tr_ws s = None \<and> \<not> tr_connected s"

lemma shut_step:
  assumes "shut s" "\<And>ok. e \<noteq> Connect ok"
  shows "shut (fst (tr_step cfg s e)) \<and> snd (tr_step cfg s e) = [] \<and>
    length (tr_socks (fst (tr_step cfg s e))) = length (tr_socks s)"
proof -
  have dead: "dead (tr_socks s ! r)" if "r < length (tr_socks s)" for r
    using assms(1) that by (simp add: shut_def list_all_length)
  have clean: "tr_timers (cleanup t) = []" if "tr_timers t = []" for t :: "'a transport"
    using that by (simp add: cleanup_def stopPing_def clear_timer_filter Let_def)
  show ?thesis
  proof (cases e)
    case (SockClose r)
    then show ?thesis
      using assms(1) dead [of r]
      by (auto simp: shut_def list_all_length upd_sock_def nth_list_update dead_def Let_def)
  next
    case (SockOpen r now)
    then have "tr_step cfg s e = (s, [])" using dead [of r] by (auto simp: dead_def)
    then show ?thesis using assms(1) by simp
  next
    case (SockMessage r f now)
    then have "tr_step cfg s e = (s, [])" using dead [of r] by (auto simp: dead_def)
    then show ?thesis using assms(1) by simp
  next
    case (SockError r)
    then have "tr_step cfg s e = (s, [])" using dead [of r] by (auto simp: dead_def)
    then show ?thesis using assms(1) by simp
  qed (use assms in \<open>auto simp: shut_def tr_send_def tr_close_def clearQueue_def clean fire_timer_def earliest_def\<close>)
qed

lemma shut_run:
  "shut s \<Longrightarrow> \<forall>e\<in>set es. \<forall>ok. e \<noteq> Connect ok \<Longrightarrow>
   shut (run_state (tr_step cfg) s es) \<and> snd (run (tr_step cfg) s es) = [] \<and>
   length (tr_socks (run_state (tr_step cfg) s es)) = length (tr_socks s)"
proof (induction es arbitrary: s)
  case (Cons e es)
  have "shut (fst (tr_step cfg s e)) \<and> snd (tr_step cfg s e) = [] \<and>
      length (tr_socks (fst (tr_step cfg s e))) = length (tr_socks s)"
    using Cons.prems by (intro shut_step) simp_all
  with Cons.IH [of "fst (tr_step cfg s e)"] Cons.prems(2) show ?case
    by (simp add: Let_def split_def)
qed simp

lemma shut_close:
  assumes "tr_good s"
  shows "shut (fst (tr_close s))"
proof -
  have "timers_ok (s\<lparr>tr_intentional := True, tr_connected := False\<rparr>)" using assms by (simp add: tr_good_def)
  from cleanup_timers [OF this] close_dead [of s] assms show ?thesis
    by (simp add: shut_def tr_good_def) (simp add: tr_close_def ws_close_def Let_def split: option.split)
qed


lemma reachable_tr_step:
  assumes "reachable init (tr_trans cfg) s" "\<And>ok. e = Connect ok \<Longrightarrow> idle s"
  shows "reachable init (tr_trans cfg) (fst (tr_step cfg s e))"
  by (rule reachable.step [OF assms(1), of e]) (rule tr_trans.intros [OF assms(2)])

definition demo_dropped :: "nat transport" where
  "demo_dropped = run_state (tr_step demo_cfg) new_Transport [Connect True, SockOpen 0 5, SockClose 0]"

lemma demo_dropped_reachable: "reachable (\<lambda>s. s = new_Transport) (tr_trans demo_cfg) demo_dropped"
proof -
  let ?step = "\<lambda>s e. fst (tr_step demo_cfg s e)"
  let ?R = "reachable (\<lambda>s. s = new_Transport) (tr_trans demo_cfg)"
  have "?R new_Transport" by (rule reachable.start) simp
  moreover have "idle new_Transport" by (simp add: idle_def new_Transport_def)
  ultimately have "?R (?step new_Transport (Connect True))"
    by (intro reachable_tr_step)
  then have "?R (?step (?step new_Transport (Connect True)) (SockOpen 0 5))"
    by (rule reachable_tr_step) simp
  then have "?R (?step (?step (?step new_Transport (Connect True)) (SockOpen 0 5)) (SockClose 0))"
    by (rule reachable_tr_step) simp
  then show ?thesis by (simp only: demo_dropped_def run_state_Cons run.simps(1) fst_conv)
qed


text \<open>A socket with an unsettled promise that no event can settle.\<close>

definition lost :: "nat \<Rightarrow> 'm transport \<Rightarrow> bool" where
  "lost r s \<longleftrightarrow> r < length (tr_socks s) \<and> sk_promise (tr_socks s ! r) = Pending \<and> dead (tr_socks s ! r) \<and>
     \<not> sk_handlers (tr_socks s ! r)"

lemma lost_same: "lost r s \<Longrightarrow> tr_socks s' = tr_socks s \<Longrightarrow> lost r s'"
  by (simp add: lost_def)

lemma lost_upd_sock:
  "lost r s \<Longrightarrow> q \<noteq> r \<or> (\<forall>k. sk_promise (f k) = sk_promise k \<and> (dead k \<and> \<not> sk_handlers k \<longrightarrow> dead (f k) \<and> \<not> sk_handlers (f k)))
   \<Longrightarrow> lost r (upd_sock q f s)"
  by (cases "q = r") (auto simp: lost_def upd_sock_def)

lemma lost_alive: "lost r s \<Longrightarrow> sk_state (tr_socks s ! q) = WsConnecting \<or> sk_handlers (tr_socks s ! q) \<Longrightarrow> q \<noteq> r"
  by (auto simp: lost_def dead_def)

lemma lost_connect: "lost r s \<Longrightarrow> lost r (fst (tr_connect cfg auto ok s))"
  by (auto simp: tr_connect_def Let_def elim: lost_same) (auto simp: lost_def nth_append)

lemma lost_ws_close: "lost r s \<Longrightarrow> lost r (fst (ws_close q code s))"
  unfolding ws_close_def fst_conv by (erule lost_upd_sock) (auto simp: dead_def)

lemma lost_onopen: "lost r s \<Longrightarrow> q \<noteq> r \<Longrightarrow> lost r (fst (ws_onopen cfg now q s))"
  by (simp add: ws_onopen_def Let_def split_def)
    (intro lost_upd_sock, auto intro: lost_same [OF lost_upd_sock] simp: flush_socks)

lemma lost_onclose:
  assumes "lost r s" "q \<noteq> r"
  shows "lost r (fst (ws_onclose cfg q s))"
proof -
  let ?s = "cleanup (s\<lparr>tr_connected := False\<rparr>)"
  have 1: "lost r ?s" by (rule lost_same [OF assms(1)]) simp
  have 2: "lost r (upd_sock q f ?s)" for f by (rule lost_upd_sock [OF 1]) (simp add: assms(2))
  have "lost r (fst (maybe_reconnect cfg t))" if "lost r t" for t :: "'a transport"
    by (rule lost_same [OF that]) simp
  with 1 2 show ?thesis by (simp add: ws_onclose_def Let_def split_def)
qed

lemma lost_close:
  assumes "lost r s"
  shows "lost r (fst (tr_close s))"
proof -
  let ?s = "(cleanup (s\<lparr>tr_intentional := True, tr_connected := False\<rparr>))\<lparr>tr_queue := []\<rparr>"
  have 1: "lost r ?s" by (rule lost_same [OF assms]) simp
  have "lost r ((upd_sock q (\<lambda>k. k\<lparr>sk_handlers := False\<rparr>) (fst (ws_close q 1000 ?s)))\<lparr>tr_ws := None\<rparr>)" for q
    by (rule lost_same [OF lost_upd_sock [OF lost_ws_close [OF 1], of q]]) (auto simp: dead_def)
  with 1 show ?thesis by (simp add: tr_close_def Let_def split_def split: option.split)
qed

lemma lost_fire: "lost r s \<Longrightarrow> lost r (fst (fire_timer cfg now ok s))"
proof -
  assume l: "lost r s"
  have 1: "lost r (s\<lparr>tr_time := m, tr_timers := ts\<rparr>)" for m ts by (rule lost_same [OF l]) simp
  have "lost r (fst (pong_check cfg now t))" if "lost r t" for t :: "'a transport"
    using that lost_ws_close [OF lost_same [OF that, of "t\<lparr>tr_connected := False\<rparr>"]]
    by (auto simp: pong_check_def Let_def elim: lost_same split: option.split)
  with 1 l show ?thesis
    by (auto simp: fire_timer_def Let_def lost_connect elim!: lost_same split: option.split timer_kind.split)
qed

lemma lost_step:
  assumes "lost r s"
  shows "lost r (fst (tr_step cfg s e))"
proof (cases e)
  case (SockOpen q now)
  show ?thesis
  proof (cases "q < length (tr_socks s) \<and> sk_state (tr_socks s ! q) = WsConnecting")
    case True
    then have "q \<noteq> r" using lost_alive [OF assms] by blast
    with assms True SockOpen show ?thesis by (simp add: lost_onopen lost_upd_sock)
  qed (use assms SockOpen in auto)
next
  case (SockClose q)
  have 1: "lost r (upd_sock q (\<lambda>k. k\<lparr>sk_state := WsClosed\<rparr>) s)"
    by (rule lost_upd_sock [OF assms]) (simp add: dead_def)
  with assms SockClose lost_onclose [OF 1] lost_alive [OF assms, of q] show ?thesis by (simp add: Let_def)
next
  case (SockMessage q f now)
  with assms show ?thesis by (auto simp: ws_onmessage_def elim: lost_same split: incoming_frame.split)
qed (use assms in \<open>auto simp: lost_connect lost_close lost_fire tr_send_def clearQueue_def elim: lost_same\<close>)

text \<open>
  Closing while connecting abandons the promise of \<open>connect\<close>.  If
  \<open>close\<close> is called while the current socket is still connecting, the handlers that would
  settle the promise are removed, and it stays pending after every later sequence of calls, socket
  events and timers.
\<close>

theorem close_abandons_connect:
  assumes "tr_ws s = Some r" "r < length (tr_socks s)" "sk_state (tr_socks s ! r) = WsConnecting"
    and "sk_promise (tr_socks s ! r) = Pending"
  shows "sk_promise (tr_socks (run_state (tr_step cfg) (fst (tr_close s)) es) ! r) = Pending"
proof -
  have "lost r (fst (tr_close s))"
    using assms by (simp add: lost_def dead_def tr_close_def ws_close_def upd_sock_def Let_def)
  moreover have "lost r (run_state (tr_step cfg) t es)" if "lost r t" for t :: "'a transport"
    using that by (induction es arbitrary: t) (simp_all del: run.simps(2) add: lost_step)
  ultimately show ?thesis by (simp add: lost_def)
qed


theorem close_abandons_connect_witness:
  "sk_promise (tr_socks (run_state (tr_step demo_cfg)
     (fst (tr_close (fst (tr_step demo_cfg new_Transport (Connect True))))) [SockOpen 0 1, SockClose 0 :: nat tr_event]) ! 0)
   = Pending"
  by (rule close_abandons_connect) (simp_all add: tr_run_defs)

end
