(* ===== verification/Client.thy ===== *)
theory Client
  imports Types
begin

text \<open>
  The class \<open>PeerClient\<close> of packages/peer-client/src/core/client.ts.  Every asynchronous
  call makes a request object: its promise, its timer and the listeners its closure attached to the
  client's events.  Requests and peers are objects in stores, because a closure may run after the
  tables of the client have forgotten it.  The emitter calls the closures in the order in which
  they were attached, which is the order of the requests.  Listeners of the application are outside
  the model; what they are told is an output.  The transport, the peers' own work and the key
  operations of the identity are reached through outputs and answered by events.
  \<open>JSON.parse\<close> and \<open>JSON.stringify\<close> are the arguments \<open>parse\<close>
  (\<open>None\<close> when it throws) and \<open>stringify\<close>.
\<close>

section \<open>State\<close>

datatype cpromise = Waiting | Fulfilled js | Failed js

datatype rkind =
    RJoin string
  | RDiscover string
  | RMatch string
  | RCreateRoom string
  | RJoinRoom string
  | RRoomInfo string
  | RRegister bool          \<comment> \<open>made by the \<open>open\<close> listener\<close>

record request =
  rq_kind :: rkind
  rq_promise :: cpromise
  rq_timer :: bool          \<comment> \<open>its timeout is armed\<close>
  rq_live :: bool           \<comment> \<open>its listeners are attached\<close>

record client_peer =
  cp_fp :: string
  cp_alias :: string
  cp_closed :: bool
  cp_state :: string        \<comment> \<open>\<open>connectionState\<close> of the underlying connection\<close>

record identity_keys =
  ik_fingerprint :: string
  ik_alias :: string
  ik_pub :: string

record client_config =
  cc_alias :: string
  cc_meta :: js
  cc_identityKeys :: "identity_keys option"

record client =
  c_reqs :: "request list"
  c_heap :: "client_peer list"
  c_peers :: "(string, nat) jsmap"
  c_namespaces :: "string list"
  c_match :: "(string, nat) jsmap"      \<comment> \<open>\<open>matchResolvers\<close>\<close>
  c_register :: "nat option"            \<comment> \<open>\<open>registerPromise\<close>\<close>
  c_pendingJoins :: "string list"
  c_pendingDiscovers :: "string list"
  c_fp :: js                            \<comment> \<open>\<open>identity.fingerprint\<close>\<close>
  c_alias :: js
  c_pub :: string
  c_connecting :: nat                   \<comment> \<open>calls of \<open>connect\<close> that await the transport\<close>
  c_idjobs :: "nat list"                \<comment> \<open>calls of \<open>doRegister\<close> that await the identity\<close>
  c_rejoins :: "nat list"               \<comment> \<open>continuations of the \<open>open\<close> listener\<close>

record server_msg =
  sm_type :: string
  sm_from :: "string option"
  sm_to :: "string option"
  sm_namespace :: "string option"
  sm_payload :: js

datatype client_out =
    Emit string "js list"
  | Tx server_msg
  | TransportConnect
  | TransportClose
  | IdentityOp nat
  | PeerNew nat
  | PeerOffer nat
  | PeerSignal nat js
  | PeerClose nat
  | HandlerThrows

definition new_PeerClient :: client where
  "new_PeerClient = \<lparr>c_reqs = [], c_heap = [], c_peers = [], c_namespaces = [], c_match = [],
     c_register = None, c_pendingJoins = [], c_pendingDiscovers = [], c_fp = JStr [], c_alias = JStr [],
     c_pub = [], c_connecting = 0, c_idjobs = [], c_rejoins = []\<rparr>"

section \<open>Values\<close>

text \<open>Property access throws on \<open>undefined\<close> and \<open>null\<close>.\<close>

fun js_prop :: "js \<Rightarrow> string \<Rightarrow> js option" where
  "js_prop Undef k = None"
| "js_prop Null k = None"
| "js_prop v k = Some (prop_opt v k)"

fun opt_js :: "string option \<Rightarrow> js" where
  "opt_js None = Undef"
| "opt_js (Some s) = JStr s"

text \<open>Lookup in a \<open>Map\<close> with string keys by an arbitrary value, and the like deletion.\<close>

fun js_get :: "(string, 'v) jsmap \<Rightarrow> js \<Rightarrow> 'v option" where
  "js_get m (JStr k) = map_get m k"
| "js_get m v = None"

fun js_del :: "js \<Rightarrow> (string, 'v) jsmap \<Rightarrow> (string, 'v) jsmap" where
  "js_del (JStr k) m = map_del k m"
| "js_del v m = m"

fun js_set_del :: "js \<Rightarrow> string list \<Rightarrow> string list" where
  "js_set_del (JStr k) xs = set_del k xs"
| "js_set_del v xs = xs"

text \<open>\<open>typeof p === 'string' ? JSON.parse(p) : p\<close>\<close>

fun parsed :: "(string \<Rightarrow> js option) \<Rightarrow> js \<Rightarrow> js option" where
  "parsed parse (JStr t) = parse t"
| "parsed parse v = Some v"

text \<open>\<open>typeof err === 'string' ? err : err?.message ?? dflt\<close>\<close>

fun err_msg :: "js \<Rightarrow> string \<Rightarrow> js" where
  "err_msg (JStr t) dflt = JStr t"
| "err_msg v dflt = coalesce (prop_opt v ''message'') (JStr dflt)"

text \<open>The own properties an object spread copies.\<close>

fun dec_digits :: "nat \<Rightarrow> string" where
  "dec_digits n = (if n < 10 then [char_of (48 + n)] else dec_digits (n div 10) @ [char_of (48 + n mod 10)])"

definition indexed :: "'a list \<Rightarrow> (string \<times> 'a) list" where
  "indexed xs = map (\<lambda>i. (dec_digits i, xs ! i)) [0..<length xs]"

fun spread :: "js \<Rightarrow> (string \<times> js) list" where
  "spread (JObj fs) = fs"
| "spread (JArr xs) = indexed xs"
| "spread (JStr t) = indexed (map (\<lambda>c. JStr [c]) t)"
| "spread v = []"

section \<open>Requests\<close>

definition upd_req :: "nat \<Rightarrow> (request \<Rightarrow> request) \<Rightarrow> client \<Rightarrow> client" where
  "upd_req i f s = s\<lparr>c_reqs := (c_reqs s)[i := f (c_reqs s ! i)]\<rparr>"

text \<open>\<open>resolve\<close> and \<open>reject\<close>: only the first call has an effect.\<close>

definition settle_req :: "nat \<Rightarrow> cpromise \<Rightarrow> client \<Rightarrow> client" where
  "settle_req i p = upd_req i (\<lambda>q. if rq_promise q = Waiting then q\<lparr>rq_promise := p\<rparr> else q)"

text \<open>\<open>clearTimeout(timer)\<close> and the removal of the closure's listeners.\<close>

definition clear_req :: "nat \<Rightarrow> client \<Rightarrow> client" where
  "clear_req i = upd_req i (\<lambda>q. q\<lparr>rq_timer := False, rq_live := False\<rparr>)"

definition new_req :: "rkind \<Rightarrow> bool \<Rightarrow> bool \<Rightarrow> client \<Rightarrow> client" where
  "new_req k timer live s =
     s\<lparr>c_reqs := c_reqs s @ [\<lparr>rq_kind = k, rq_promise = Waiting, rq_timer = timer, rq_live = live\<rparr>]\<rparr>"

definition msg :: "string \<Rightarrow> js \<Rightarrow> client_out" where
  "msg t p = Tx \<lparr>sm_type = t, sm_from = None, sm_to = None, sm_namespace = None, sm_payload = p\<rparr>"

definition msg_to :: "string \<Rightarrow> string \<Rightarrow> js \<Rightarrow> client_out" where
  "msg_to t fp p = Tx \<lparr>sm_type = t, sm_from = None, sm_to = Some fp, sm_namespace = None, sm_payload = p\<rparr>"

text \<open>The \<open>cleanup\<close> closures of the methods.\<close>

definition req_cleanup :: "nat \<Rightarrow> client \<Rightarrow> client" where
  "req_cleanup i s =
     (let s1 = clear_req i s in
      case rq_kind (c_reqs s ! i) of
        RJoin ns \<Rightarrow> s1\<lparr>c_pendingJoins := set_del ns (c_pendingJoins s1)\<rparr>
      | RDiscover ns \<Rightarrow> s1\<lparr>c_pendingDiscovers := set_del ns (c_pendingDiscovers s1)\<rparr>
      | _ \<Rightarrow> s1)"

definition join :: "string \<Rightarrow> js \<Rightarrow> js \<Rightarrow> client \<Rightarrow> client \<times> client_out list" where
  "join ns appType version s =
     (new_req (RJoin ns) True True
        (s\<lparr>c_namespaces := set_add ns (c_namespaces s), c_pendingJoins := set_add ns (c_pendingJoins s)\<rparr>),
      [msg ''join'' (JObj [(''namespace'', JStr ns), (''app_type'', appType), (''version'', version)])])"

definition leave :: "string \<Rightarrow> client \<Rightarrow> client \<times> client_out list" where
  "leave ns s = (s\<lparr>c_namespaces := set_del ns (c_namespaces s)\<rparr>,
     [msg ''leave'' (JObj [(''namespace'', JStr ns)])])"

definition discover :: "string \<Rightarrow> int \<Rightarrow> client \<Rightarrow> client \<times> client_out list" where
  "discover ns lim s =
     (new_req (RDiscover ns) True True (s\<lparr>c_pendingDiscovers := set_add ns (c_pendingDiscovers s)\<rparr>),
      [msg ''discover'' (JObj [(''namespace'', JStr ns), (''limit'', JNum lim)])])"

text \<open>What \<open>match\<close>, \<open>cancelMatch\<close>, \<open>matched\<close> and the timeout do to an entry.\<close>

definition drop_match :: "string \<Rightarrow> cpromise \<Rightarrow> client \<Rightarrow> client" where
  "drop_match ns p s =
     (case map_get (c_match s) ns of
        None \<Rightarrow> s
      | Some i \<Rightarrow> (settle_req i p (clear_req i s))\<lparr>c_match := map_del ns (c_match s)\<rparr>)"

definition cl_match :: "string \<Rightarrow> js \<Rightarrow> js \<Rightarrow> client \<Rightarrow> client \<times> client_out list" where
  "cl_match ns criteria groupSize s =
     (let s1 = drop_match ns (Failed (JStr ''match superseded'')) s;
          s2 = new_req (RMatch ns) True False s1
      in (s2\<lparr>c_match := map_set ns (length (c_reqs s1)) (c_match s2)\<rparr>,
          [msg ''match'' (JObj [(''namespace'', JStr ns), (''criteria'', criteria), (''group_size'', groupSize)])]))"

definition cancelMatch :: "string \<Rightarrow> client \<Rightarrow> client" where
  "cancelMatch ns = drop_match ns (Failed (JStr ''match cancelled''))"

definition createRoom :: "string \<Rightarrow> js \<Rightarrow> client \<Rightarrow> client \<times> client_out list" where
  "createRoom roomId maxSize s =
     (new_req (RCreateRoom roomId) True True s,
      [msg ''create_room'' (JObj [(''room_id'', JStr roomId), (''max_size'', coalesce maxSize (JNum 20))])])"

definition joinRoom :: "string \<Rightarrow> client \<Rightarrow> client \<times> client_out list" where
  "joinRoom roomId s =
     (new_req (RJoinRoom roomId) True True (s\<lparr>c_namespaces := set_add roomId (c_namespaces s)\<rparr>),
      [msg ''join_room'' (JObj [(''room_id'', JStr roomId)])])"

definition roomInfo :: "string \<Rightarrow> client \<Rightarrow> client \<times> client_out list" where
  "roomInfo roomId s =
     (new_req (RRoomInfo roomId) True True s, [msg ''room_info'' (JObj [(''room_id'', JStr roomId)])])"

definition kick :: "string \<Rightarrow> string \<Rightarrow> client_out list" where
  "kick roomId fp = [msg ''kick'' (JObj [(''room_id'', JStr roomId), (''fingerprint'', JStr fp)])]"

definition relay :: "string \<Rightarrow> js \<Rightarrow> client_out list" where
  "relay fp payload = [msg_to ''relay'' fp payload]"

definition broadcast :: "string \<Rightarrow> js \<Rightarrow> client_out list" where
  "broadcast ns data = [msg ''broadcast'' (JObj [(''namespace'', JStr ns), (''data'', data)])]"

definition updateMetadata :: "js \<Rightarrow> client_out list" where
  "updateMetadata meta = [msg ''metadata'' meta]"

text \<open>The timeout callback of a request.\<close>

definition req_timeout :: "nat \<Rightarrow> client \<Rightarrow> client" where
  "req_timeout i s =
     (if i < length (c_reqs s) \<and> rq_timer (c_reqs s ! i) then
        (case rq_kind (c_reqs s ! i) of
           RJoin ns \<Rightarrow> settle_req i (Failed (JStr (''join timeout: '' @ ns))) (req_cleanup i s)
         | RDiscover ns \<Rightarrow> settle_req i (Failed (JStr (''discover timeout: '' @ ns))) (req_cleanup i s)
         | RMatch ns \<Rightarrow> settle_req i (Failed (JStr (''match timeout: '' @ ns)))
             ((clear_req i s)\<lparr>c_match := map_del ns (c_match s)\<rparr>)
         | RCreateRoom r \<Rightarrow> settle_req i (Failed (JStr ''create_room timeout'')) (req_cleanup i s)
         | RJoinRoom r \<Rightarrow> settle_req i (Failed (JStr ''join_room timeout''))
             ((req_cleanup i s)\<lparr>c_namespaces := set_del r (c_namespaces s)\<rparr>)
         | RRoomInfo r \<Rightarrow> settle_req i (Failed (JStr ''room_info timeout'')) (clear_req i s)
         | RRegister b \<Rightarrow> s)
      else s)"

section \<open>Peers\<close>

definition upd_peer :: "nat \<Rightarrow> (client_peer \<Rightarrow> client_peer) \<Rightarrow> client \<Rightarrow> client" where
  "upd_peer r f s = s\<lparr>c_heap := (c_heap s)[r := f (c_heap s ! r)]\<rparr>"

text \<open>\<open>peer.close()\<close>; it also drops the listeners of the peer.\<close>

definition peer_close :: "nat \<Rightarrow> client \<Rightarrow> client \<times> client_out list" where
  "peer_close r s =
     (if cp_closed (c_heap s ! r) then (s, []) else (upd_peer r (\<lambda>p. p\<lparr>cp_closed := True\<rparr>) s, [PeerClose r]))"

fun close_all :: "nat list \<Rightarrow> client \<Rightarrow> client \<times> client_out list" where
  "close_all [] s = (s, [])"
| "close_all (r # rs) s = (let (s1, o1) = peer_close r s; (s2, o2) = close_all rs s1 in (s2, o1 @ o2))"

definition createPeer :: "string \<Rightarrow> string \<Rightarrow> client \<Rightarrow> client \<times> nat \<times> client_out list" where
  "createPeer fp al s =
     (let fresh = (\<lambda>s. (s\<lparr>c_heap := c_heap s @ [\<lparr>cp_fp = fp, cp_alias = al, cp_closed = False, cp_state = ''new''\<rparr>],
                          c_peers := map_set fp (length (c_heap s)) (c_peers s)\<rparr>,
                        length (c_heap s), [PeerNew (length (c_heap s))]))
      in case map_get (c_peers s) fp of
           None \<Rightarrow> fresh s
         | Some r \<Rightarrow>
             if \<not> cp_closed (c_heap s ! r) then (s, r, [])
             else fresh (s\<lparr>c_peers := map_del fp (c_peers s)\<rparr>))"

definition connectToPeer :: "string \<Rightarrow> string \<Rightarrow> client \<Rightarrow> client \<times> nat \<times> client_out list" where
  "connectToPeer fp al s =
     (let make = (let (s1, r, out) = createPeer fp al s in (s1, r, out @ [PeerOffer r]))
      in case map_get (c_peers s) fp of
           None \<Rightarrow> make
         | Some r \<Rightarrow> if \<not> cp_closed (c_heap s ! r) then (s, r, []) else make)"

definition closePeer :: "js \<Rightarrow> client \<Rightarrow> client \<times> client_out list" where
  "closePeer fp s =
     (case js_get (c_peers s) fp of
        None \<Rightarrow> (s, [])
      | Some r \<Rightarrow> (let (s1, out) = peer_close r s in (s1\<lparr>c_peers := js_del fp (c_peers s1)\<rparr>, out)))"

definition is_stale :: "client_peer \<Rightarrow> bool" where
  "is_stale p = (cp_closed p \<or> cp_state p = ''failed'' \<or> cp_state p = ''closed'')"

fun cleanup_loop :: "(string \<times> nat) list \<Rightarrow> client \<Rightarrow> client \<times> client_out list" where
  "cleanup_loop [] s = (s, [])"
| "cleanup_loop ((fp, r) # es) s =
     (if is_stale (c_heap s ! r) then
        (let (s1, o1) = peer_close r s;
             (s2, o2) = cleanup_loop es (s1\<lparr>c_peers := map_del fp (c_peers s1)\<rparr>)
         in (s2, o1 @ o2))
      else cleanup_loop es s)"

definition cleanupStalePeers :: "client \<Rightarrow> client \<times> client_out list" where
  "cleanupStalePeers s = cleanup_loop (c_peers s) s"

text \<open>
  The connection of a peer changes state: an open peer reports the last three states as
  \<open>disconnected\<close>, whose listener deletes whatever peer has that fingerprint by now.
\<close>

definition peer_state :: "nat \<Rightarrow> string \<Rightarrow> client \<Rightarrow> client" where
  "peer_state r st s =
     (if r < length (c_heap s) then
        (let s1 = upd_peer r (\<lambda>p. p\<lparr>cp_state := st\<rparr>) s in
         if \<not> cp_closed (c_heap s ! r) \<and> st \<in> {''disconnected'', ''failed'', ''closed''}
         then s1\<lparr>c_peers := map_del (cp_fp (c_heap s ! r)) (c_peers s1)\<rparr> else s1)
      else s)"

section \<open>Registration and the end of a session\<close>

definition reject_register :: "js \<Rightarrow> client \<Rightarrow> client" where
  "reject_register e s =
     (case c_register s of None \<Rightarrow> s | Some i \<Rightarrow> (settle_req i (Failed e) s)\<lparr>c_register := None\<rparr>)"

definition send_register :: "client_config \<Rightarrow> nat \<Rightarrow> client \<Rightarrow> client \<times> client_out list" where
  "send_register cfg i s =
     (s\<lparr>c_register := Some i\<rparr>,
      [msg ''register'' (JObj [(''public_key'', JStr (c_pub s)), (''alias'', JStr (cc_alias cfg)), (''meta'', cc_meta cfg)])])"

definition doRegister :: "client_config \<Rightarrow> bool \<Rightarrow> client \<Rightarrow> client \<times> client_out list" where
  "doRegister cfg fromOpen s =
     (let s1 = reject_register (JStr ''Register superseded'') s;
          i = length (c_reqs s1);
          s2 = new_req (RRegister fromOpen) False False s1
      in if c_pub s2 = [] then (s2\<lparr>c_idjobs := c_idjobs s2 @ [i]\<rparr>, [IdentityOp i])
         else send_register cfg i s2)"

text \<open>The continuation of \<open>doRegister\<close> after \<open>restore\<close> or \<open>generate\<close>.\<close>

definition identity_done :: "client_config \<Rightarrow> nat \<Rightarrow> string \<Rightarrow> client \<Rightarrow> client \<times> client_out list" where
  "identity_done cfg i pub s =
     (if i \<in> set (c_idjobs s) then
        (let s1 = s\<lparr>c_idjobs := removeAll i (c_idjobs s)\<rparr>;
             s2 = (case cc_identityKeys cfg of
                     Some k \<Rightarrow> s1\<lparr>c_fp := JStr (ik_fingerprint k), c_alias := JStr (ik_alias k), c_pub := ik_pub k\<rparr>
                   | None \<Rightarrow> s1\<lparr>c_pub := pub\<rparr>)
         in send_register cfg i s2)
      else (s, []))"

definition identity_failed :: "nat \<Rightarrow> js \<Rightarrow> client \<Rightarrow> client" where
  "identity_failed i e s =
     (if i \<in> set (c_idjobs s) then settle_req i (Failed e) (s\<lparr>c_idjobs := removeAll i (c_idjobs s)\<rparr>) else s)"

definition on_open :: "client_config \<Rightarrow> client \<Rightarrow> client \<times> client_out list" where
  "on_open cfg s =
     (if truthy (c_fp s) then
        (let (s1, o1) = cleanupStalePeers s; (s2, o2) = doRegister cfg True s1 in (s2, o1 @ o2))
      else (s, []))"

text \<open>The \<open>then\<close> of the \<open>open\<close> listener.\<close>

definition rejoin :: "nat \<Rightarrow> client \<Rightarrow> client \<times> client_out list" where
  "rejoin i s =
     (if i \<in> set (c_rejoins s) then
        (s\<lparr>c_rejoins := removeAll i (c_rejoins s)\<rparr>,
         map (\<lambda>ns. msg ''join'' (JObj [(''namespace'', JStr ns)])) (c_namespaces s) @ [Emit ''reconnected'' []])
      else (s, []))"

definition disconnect :: "client \<Rightarrow> client \<times> client_out list" where
  "disconnect s =
     (let (s1, out) = close_all (map_vals (c_peers s)) s;
          s2 = s1\<lparr>c_peers := [], c_namespaces := []\<rparr>;
          s3 = fold (\<lambda>i. settle_req i (Failed (JStr ''Disconnected'')) \<circ> clear_req i) (map_vals (c_match s2)) s2;
          s4 = reject_register (JStr ''Disconnected'') (s3\<lparr>c_match := []\<rparr>)
      in (s4, out @ [TransportClose]))"

section \<open>Messages from the server\<close>

text \<open>
  The closures attached to \<open>peer_list\<close>, \<open>error\<close> and \<open>room_created\<close>, called in
  order.  Each is called only while it is attached.
\<close>

definition on_peer_list :: "js \<Rightarrow> js \<Rightarrow> nat \<Rightarrow> client \<Rightarrow> client" where
  "on_peer_list ns peers i s =
     (if rq_live (c_reqs s ! i) then
        (case rq_kind (c_reqs s ! i) of
           RJoin n \<Rightarrow> if ns = JStr n then settle_req i (Fulfilled peers) (req_cleanup i s) else s
         | RDiscover n \<Rightarrow> if ns = JStr n then settle_req i (Fulfilled peers) (req_cleanup i s) else s
         | RJoinRoom n \<Rightarrow> if ns = JStr n then settle_req i (Fulfilled peers) (req_cleanup i s) else s
         | _ \<Rightarrow> s)
      else s)"

definition on_error :: "js \<Rightarrow> nat \<Rightarrow> client \<Rightarrow> client" where
  "on_error err i s =
     (if rq_live (c_reqs s ! i) then
        (case rq_kind (c_reqs s ! i) of
           RJoin n \<Rightarrow>
             if n \<notin> set (c_pendingJoins s) then s
             else settle_req i (Failed (err_msg err ''join failed''))
                    ((req_cleanup i s)\<lparr>c_namespaces := set_del n (c_namespaces s)\<rparr>)
         | RDiscover n \<Rightarrow>
             if n \<notin> set (c_pendingDiscovers s) then s
             else settle_req i (Failed (err_msg err ''discover failed'')) (req_cleanup i s)
         | RCreateRoom n \<Rightarrow> settle_req i (Failed (err_msg err ''create_room failed'')) (req_cleanup i s)
         | RJoinRoom n \<Rightarrow> settle_req i (Failed (err_msg err ''join_room failed''))
             ((req_cleanup i s)\<lparr>c_namespaces := set_del n (c_namespaces s)\<rparr>)
         | _ \<Rightarrow> s)
      else s)"

definition on_room_created :: "js \<Rightarrow> nat \<Rightarrow> client \<Rightarrow> client" where
  "on_room_created res i s =
     (if rq_live (c_reqs s ! i) then
        (case rq_kind (c_reqs s ! i) of
           RCreateRoom n \<Rightarrow>
             if js_prop res ''room_id'' = Some (JStr n)
             then settle_req i (Fulfilled res) ((req_cleanup i s)\<lparr>c_namespaces := set_add n (c_namespaces s)\<rparr>)
             else s
         | _ \<Rightarrow> s)
      else s)"

text \<open>The \<open>message\<close> listener of \<open>roomInfo\<close> on the transport.\<close>

definition on_room_info :: "(string \<Rightarrow> js option) \<Rightarrow> server_msg \<Rightarrow> nat \<Rightarrow> client \<Rightarrow> client" where
  "on_room_info parse m i s =
     (if rq_live (c_reqs s ! i) \<and> sm_type m = ''room_info'' then
        (case (rq_kind (c_reqs s ! i), parsed parse (sm_payload m)) of
           (RRoomInfo n, Some info) \<Rightarrow>
             if js_prop info ''room_id'' = Some (JStr n) then settle_req i (Fulfilled info) (clear_req i s) else s
         | _ \<Rightarrow> s)
      else s)"

definition each_req :: "(nat \<Rightarrow> client \<Rightarrow> client) \<Rightarrow> client \<Rightarrow> client" where
  "each_req f s = fold f [0..<length (c_reqs s)] s"

definition on_registered :: "(string \<Rightarrow> js option) \<Rightarrow> js \<Rightarrow> client \<Rightarrow> client \<times> client_out list" where
  "on_registered parse p s =
     (case parsed parse p of
        None \<Rightarrow> (s, [HandlerThrows])
      | Some reg \<Rightarrow>
          (case (js_prop reg ''fingerprint'', js_prop reg ''alias'') of
             (Some fp, Some al) \<Rightarrow>
               (let s1 = s\<lparr>c_fp := fp, c_alias := al\<rparr>;
                    s2 = (case c_register s1 of
                            None \<Rightarrow> s1
                          | Some i \<Rightarrow>
                              (let s' = settle_req i (Fulfilled Undef) s1
                               in s'\<lparr>c_register := None,
                                     c_rejoins := (if rq_kind (c_reqs s1 ! i) = RRegister True
                                                   then c_rejoins s' @ [i] else c_rejoins s')\<rparr>))
                in (s2, [Emit ''registered'' [fp, al]]))
           | _ \<Rightarrow> (s, [HandlerThrows])))"

definition on_signal :: "server_msg \<Rightarrow> client \<Rightarrow> client \<times> client_out list" where
  "on_signal m s =
     (let fp = (case sm_from m of None \<Rightarrow> [] | Some f \<Rightarrow> f);
          make = (\<lambda>s. let (s1, r, out) = createPeer fp [] s in (s1, out @ [PeerSignal r (sm_payload m)]))
      in case map_get (c_peers s) fp of
           None \<Rightarrow> make s
         | Some r \<Rightarrow>
             if cp_closed (c_heap s ! r) then make (s\<lparr>c_peers := map_del fp (c_peers s)\<rparr>)
             else (s, [PeerSignal r (sm_payload m)]))"

definition on_matched :: "(string \<Rightarrow> js option) \<Rightarrow> js \<Rightarrow> client \<Rightarrow> client \<times> client_out list" where
  "on_matched parse p s =
     (case parsed parse p of
        None \<Rightarrow> (s, [HandlerThrows])
      | Some res \<Rightarrow>
          (case js_prop res ''namespace'' of
             None \<Rightarrow> (s, [HandlerThrows])
           | Some ns \<Rightarrow>
               ((case ns of JStr n \<Rightarrow> drop_match n (Fulfilled res) s | _ \<Rightarrow> s), [Emit ''matched'' [res]])))"

text \<open>\<open>room_closed\<close> and \<open>kick\<close>.\<close>

definition on_room_gone :: "(string \<Rightarrow> js option) \<Rightarrow> string \<Rightarrow> js \<Rightarrow> client \<Rightarrow> client \<times> client_out list" where
  "on_room_gone parse ev p s =
     (case parsed parse p of
        None \<Rightarrow> (s, [HandlerThrows])
      | Some res \<Rightarrow>
          ((if truthy (prop_opt res ''room_id'')
            then s\<lparr>c_namespaces := js_set_del (prop_opt res ''room_id'') (c_namespaces s)\<rparr> else s),
           [Emit ev [res]]))"

definition handleMessage ::
  "(string \<Rightarrow> js option) \<Rightarrow> (js \<Rightarrow> js) \<Rightarrow> server_msg \<Rightarrow> client \<Rightarrow> client \<times> client_out list" where
  "handleMessage parse stringify m s =
     (let p = sm_payload m; ns = opt_js (sm_namespace m); frm = opt_js (sm_from m) in
      if sm_type m = ''registered'' then on_registered parse p s
      else if sm_type m = ''peer_list'' then
        (let n = coalesce ns (coalesce (prop_opt p ''namespace'') (JStr []));
             peers = coalesce (prop_opt p ''peers'') (coalesce p (JArr []))
         in (each_req (on_peer_list n peers) s, [Emit ''peer_list'' [n, peers]]))
      else if sm_type m = ''peer_joined'' then
        (case (case p of JStr t \<Rightarrow> parse t
                 | _ \<Rightarrow> Some (coalesce p (JObj [(''fingerprint'', coalesce frm (JStr [])), (''alias'', JStr [])]))) of
           None \<Rightarrow> (s, [HandlerThrows])
         | Some info \<Rightarrow>
             (s, [Emit ''peer_joined'' [JObj (map_set ''namespace'' (coalesce ns (JStr [])) (spread info))]]))
      else if sm_type m = ''peer_left'' then
        (let fp = coalesce frm (coalesce (prop_opt p ''fingerprint'') (JStr []));
             (s1, out) = closePeer fp s
         in (s1, out @ [Emit ''peer_left'' [fp, coalesce ns (JStr [])]]))
      else if sm_type m = ''signal'' then on_signal m s
      else if sm_type m = ''matched'' then on_matched parse p s
      else if sm_type m = ''relay'' then (s, [Emit ''relay'' [frm, p]])
      else if sm_type m = ''broadcast'' then
        (s, [Emit ''broadcast'' [frm, coalesce ns (coalesce (prop_opt p ''namespace'') (JStr [])),
                                 coalesce (prop_opt p ''data'') p]])
      else if sm_type m = ''room_created'' then
        (case parsed parse p of
           None \<Rightarrow> (s, [HandlerThrows])
         | Some res \<Rightarrow> (each_req (on_room_created res) s, [Emit ''room_created'' [res]]))
      else if sm_type m = ''room_closed'' then on_room_gone parse ''room_closed'' p s
      else if sm_type m = ''kick'' then on_room_gone parse ''kicked'' p s
      else if sm_type m = ''error'' then
        (reject_register (case p of JStr t \<Rightarrow> p | _ \<Rightarrow> stringify p) (each_req (on_error p) s), [Emit ''error'' [p]])
      else (s, []))"

text \<open>
  A message of the transport reaches \<open>handleMessage\<close>, attached by the constructor, and then
  the listeners of the pending \<open>roomInfo\<close> calls.
\<close>

definition on_message ::
  "(string \<Rightarrow> js option) \<Rightarrow> (js \<Rightarrow> js) \<Rightarrow> server_msg \<Rightarrow> client \<Rightarrow> client \<times> client_out list" where
  "on_message parse stringify m s =
     (let (s1, out) = handleMessage parse stringify m s in (each_req (on_room_info parse m) s1, out))"

section \<open>The machine\<close>

datatype client_event =
    ConnectCall
  | ConnectDone
  | ConnectFailed
  | IdentityDone nat string
  | IdentityFailed nat js
  | TransportOpen
  | TransportClosed
  | TransportReconnecting int int
  | TransportMessage server_msg
  | Rejoin nat
  | JoinCall string js js
  | LeaveCall string
  | DiscoverCall string int
  | MatchCall string js js
  | CancelMatch string
  | CreateRoomCall string js
  | JoinRoomCall string
  | RoomInfoCall string
  | KickCall string string
  | RelayCall string js
  | BroadcastCall string js
  | MetadataCall js
  | ConnectToPeer string string
  | CreatePeerCall string string
  | ClosePeerCall string
  | PeerClosedByOwner nat
  | PeerState nat string
  | Timeout nat
  | DisconnectCall

fun client_step ::
  "(string \<Rightarrow> js option) \<Rightarrow> (js \<Rightarrow> js) \<Rightarrow> client_config \<Rightarrow> client \<Rightarrow> client_event \<Rightarrow> client \<times> client_out list" where
  "client_step parse stringify cfg s ConnectCall =
     (s\<lparr>c_connecting := Suc (c_connecting s)\<rparr>, [TransportConnect])"
| "client_step parse stringify cfg s ConnectDone =
     (if c_connecting s = 0 then (s, []) else doRegister cfg False (s\<lparr>c_connecting := c_connecting s - 1\<rparr>))"
| "client_step parse stringify cfg s ConnectFailed = (s\<lparr>c_connecting := c_connecting s - 1\<rparr>, [])"
| "client_step parse stringify cfg s (IdentityDone i pub) = identity_done cfg i pub s"
| "client_step parse stringify cfg s (IdentityFailed i e) = (identity_failed i e s, [])"
| "client_step parse stringify cfg s TransportOpen = on_open cfg s"
| "client_step parse stringify cfg s TransportClosed = (s, [Emit ''disconnected'' []])"
| "client_step parse stringify cfg s (TransportReconnecting a d) = (s, [Emit ''reconnecting'' [JNum a, JNum d]])"
| "client_step parse stringify cfg s (TransportMessage m) = on_message parse stringify m s"
| "client_step parse stringify cfg s (Rejoin i) = rejoin i s"
| "client_step parse stringify cfg s (JoinCall ns a v) = join ns a v s"
| "client_step parse stringify cfg s (LeaveCall ns) = leave ns s"
| "client_step parse stringify cfg s (DiscoverCall ns l) = discover ns l s"
| "client_step parse stringify cfg s (MatchCall ns c g) = cl_match ns c g s"
| "client_step parse stringify cfg s (CancelMatch ns) = (cancelMatch ns s, [])"
| "client_step parse stringify cfg s (CreateRoomCall r mx) = createRoom r mx s"
| "client_step parse stringify cfg s (JoinRoomCall r) = joinRoom r s"
| "client_step parse stringify cfg s (RoomInfoCall r) = roomInfo r s"
| "client_step parse stringify cfg s (KickCall r fp) = (s, kick r fp)"
| "client_step parse stringify cfg s (RelayCall fp p) = (s, relay fp p)"
| "client_step parse stringify cfg s (BroadcastCall ns d) = (s, broadcast ns d)"
| "client_step parse stringify cfg s (MetadataCall meta) = (s, updateMetadata meta)"
| "client_step parse stringify cfg s (ConnectToPeer fp al) = (let (s1, r, out) = connectToPeer fp al s in (s1, out))"
| "client_step parse stringify cfg s (CreatePeerCall fp al) = (let (s1, r, out) = createPeer fp al s in (s1, out))"
| "client_step parse stringify cfg s (ClosePeerCall fp) = closePeer (JStr fp) s"
| "client_step parse stringify cfg s (PeerClosedByOwner r) = (if r < length (c_heap s) then peer_close r s else (s, []))"
| "client_step parse stringify cfg s (PeerState r st) = (peer_state r st s, [])"
| "client_step parse stringify cfg s (Timeout i) = (req_timeout i s, [])"
| "client_step parse stringify cfg s DisconnectCall = disconnect s"

end
