(* ===== verification/Client_Props.thy ===== *)
theory Client_Props
  imports Client
begin

text \<open>
  The properties of \<open>PeerClient\<close>: the bookkeeping invariant of requests and peers, settlement of
  every request, the effect of a server error and of \<open>disconnect\<close> on what is pending, and what
  happens to a peer whose connection is interrupted.
\<close>

section \<open>Request primitives\<close>

lemma upd_req_fields [simp]:
  "c_match (upd_req i f s) = c_match s" "c_register (upd_req i f s) = c_register s"
  "c_pendingJoins (upd_req i f s) = c_pendingJoins s" "c_pendingDiscovers (upd_req i f s) = c_pendingDiscovers s"
  "c_namespaces (upd_req i f s) = c_namespaces s" "c_idjobs (upd_req i f s) = c_idjobs s"
  "c_peers (upd_req i f s) = c_peers s" "c_heap (upd_req i f s) = c_heap s"
  "c_reqs (upd_req i f s) = (c_reqs s)[i := f (c_reqs s ! i)]"
  "c_rejoins (upd_req i f s) = c_rejoins s"
  by (simp_all add: upd_req_def)

definition closed_req :: "cpromise \<Rightarrow> request \<Rightarrow> request" where
  "closed_req p q =
     (let r = q\<lparr>rq_timer := False, rq_live := False\<rparr> in if rq_promise r = Waiting then r\<lparr>rq_promise := p\<rparr> else r)"

lemma closed_req_sel [simp]:
  "rq_kind (closed_req p q) = rq_kind q" "\<not> rq_timer (closed_req p q)" "\<not> rq_live (closed_req p q)"
  "rq_promise (closed_req p q) = (if rq_promise q = Waiting then p else rq_promise q)"
  by (simp_all add: closed_req_def Let_def)

lemma settle_clear: "settle_req i p (clear_req i s) = s\<lparr>c_reqs := (c_reqs s)[i := closed_req p (c_reqs s ! i)]\<rparr>"
  by (cases "i < length (c_reqs s)")
    (simp_all add: settle_req_def clear_req_def upd_req_def closed_req_def list_update_beyond Let_def)

lemma clear_req_cong: "clear_req i (s\<lparr>c_match := a\<rparr>) = (clear_req i s)\<lparr>c_match := a\<rparr>"
  by (simp add: clear_req_def upd_req_def)

lemma settle_req_cong:
  "settle_req i p (s\<lparr>c_match := a\<rparr>) = (settle_req i p s)\<lparr>c_match := a\<rparr>"
  "settle_req i p (s\<lparr>c_namespaces := n\<rparr>) = (settle_req i p s)\<lparr>c_namespaces := n\<rparr>"
  "settle_req i p (s\<lparr>c_pendingJoins := n\<rparr>) = (settle_req i p s)\<lparr>c_pendingJoins := n\<rparr>"
  "settle_req i p (s\<lparr>c_pendingDiscovers := n\<rparr>) = (settle_req i p s)\<lparr>c_pendingDiscovers := n\<rparr>"
  by (simp_all add: settle_req_def upd_req_def)

text \<open>The pending sets after the request \<open>q\<close> has been cleaned up.\<close>

definition drop_join :: "request \<Rightarrow> string list \<Rightarrow> string list" where
  "drop_join q J = (case rq_kind q of RJoin n \<Rightarrow> set_del n J | _ \<Rightarrow> J)"

definition drop_discover :: "request \<Rightarrow> string list \<Rightarrow> string list" where
  "drop_discover q D = (case rq_kind q of RDiscover n \<Rightarrow> set_del n D | _ \<Rightarrow> D)"

definition finish :: "nat \<Rightarrow> cpromise \<Rightarrow> client \<Rightarrow> client" where
  "finish i p s = s\<lparr>c_reqs := (c_reqs s)[i := closed_req p (c_reqs s ! i)],
     c_pendingJoins := drop_join (c_reqs s ! i) (c_pendingJoins s),
     c_pendingDiscovers := drop_discover (c_reqs s ! i) (c_pendingDiscovers s)\<rparr>"

lemma finish_fields [simp]:
  "c_match (finish i p s) = c_match s" "c_register (finish i p s) = c_register s"
  "c_namespaces (finish i p s) = c_namespaces s" "c_idjobs (finish i p s) = c_idjobs s"
  "c_peers (finish i p s) = c_peers s" "c_heap (finish i p s) = c_heap s"
  "c_reqs (finish i p s) = (c_reqs s)[i := closed_req p (c_reqs s ! i)]"
  by (simp_all add: finish_def)

lemma settle_cleanup: "settle_req i p (req_cleanup i s) = finish i p s"
proof -
  have "req_cleanup i s = (clear_req i s)
      \<lparr>c_pendingJoins := drop_join (c_reqs s ! i) (c_pendingJoins s),
       c_pendingDiscovers := drop_discover (c_reqs s ! i) (c_pendingDiscovers s)\<rparr>"
    by (simp add: req_cleanup_def drop_join_def drop_discover_def clear_req_def upd_req_def split: rkind.split)
  then show ?thesis by (simp add: settle_clear finish_def settle_req_cong)
qed

lemma finish_namespaces:
  "settle_req i p ((req_cleanup i s)\<lparr>c_namespaces := N\<rparr>) = (finish i p s)\<lparr>c_namespaces := N\<rparr>"
  by (simp add: settle_req_cong settle_cleanup)

section \<open>The bookkeeping invariant\<close>

text \<open>A request whose promise is open has its timer armed and its way of being answered in place.\<close>

definition req_ok :: "(string, nat) jsmap \<Rightarrow> nat \<Rightarrow> request \<Rightarrow> bool" where
  "req_ok mt i q = (case rq_kind q of
      RRegister b \<Rightarrow> \<not> rq_timer q \<and> \<not> rq_live q
    | RMatch n \<Rightarrow> \<not> rq_live q \<and> (rq_timer q \<longleftrightarrow> rq_promise q = Waiting)
        \<and> (map_get mt n = Some i \<longleftrightarrow> rq_promise q = Waiting)
    | _ \<Rightarrow> (rq_timer q \<longleftrightarrow> rq_promise q = Waiting) \<and> (rq_live q \<longleftrightarrow> rq_promise q = Waiting))"

definition open_req :: "client \<Rightarrow> rkind \<Rightarrow> bool" where
  "open_req s k = (\<exists>i<length (c_reqs s). rq_kind (c_reqs s ! i) = k \<and> rq_promise (c_reqs s ! i) = Waiting)"

definition is_register :: "rkind \<Rightarrow> bool" where
  "is_register k = (k = RRegister True \<or> k = RRegister False)"

definition reqs_inv :: "client \<Rightarrow> bool" where
  "reqs_inv s = (\<forall>i<length (c_reqs s). req_ok (c_match s) i (c_reqs s ! i))"

definition match_inv :: "client \<Rightarrow> bool" where
  "match_inv s = (map_wf (c_match s) \<and>
     (\<forall>n i. map_get (c_match s) n = Some i \<longrightarrow> i < length (c_reqs s) \<and> rq_kind (c_reqs s ! i) = RMatch n))"

definition waiting_register :: "client \<Rightarrow> nat \<Rightarrow> bool" where
  "waiting_register s i = (i < length (c_reqs s) \<and> is_register (rq_kind (c_reqs s ! i))
     \<and> rq_promise (c_reqs s ! i) = Waiting)"

definition register_inv :: "client \<Rightarrow> bool" where
  "register_inv s = ((\<forall>i. c_register s = Some i \<longrightarrow> waiting_register s i) \<and>
     (\<forall>i\<in>set (c_idjobs s). waiting_register s i \<and> c_register s \<noteq> Some i))"

definition pending_inv :: "client \<Rightarrow> bool" where
  "pending_inv s = ((\<forall>n\<in>set (c_pendingJoins s). open_req s (RJoin n)) \<and>
     (\<forall>n\<in>set (c_pendingDiscovers s). open_req s (RDiscover n)))"

definition peers_inv :: "client \<Rightarrow> bool" where
  "peers_inv s = (map_wf (c_peers s) \<and>
     (\<forall>fp r. map_get (c_peers s) fp = Some r \<longrightarrow> r < length (c_heap s) \<and> cp_fp (c_heap s ! r) = fp))"

definition client_inv :: "client \<Rightarrow> bool" where
  "client_inv s = (reqs_inv s \<and> match_inv s \<and> register_inv s \<and> pending_inv s \<and> peers_inv s)"

lemmas inv_parts = reqs_inv_def match_inv_def register_inv_def pending_inv_def waiting_register_def open_req_def

text \<open>The request parts depend on these fields only.\<close>

definition same_reqs :: "client \<Rightarrow> client \<Rightarrow> bool" where
  "same_reqs s t = (c_reqs s = c_reqs t \<and> c_match s = c_match t \<and> c_register s = c_register t \<and>
     c_pendingJoins s = c_pendingJoins t \<and> c_pendingDiscovers s = c_pendingDiscovers t \<and> c_idjobs s = c_idjobs t)"

definition same_peers :: "client \<Rightarrow> client \<Rightarrow> bool" where
  "same_peers s t = (c_peers s = c_peers t \<and> c_heap s = c_heap t)"

definition req_inv :: "client \<Rightarrow> bool" where
  "req_inv s = (reqs_inv s \<and> match_inv s \<and> register_inv s \<and> pending_inv s)"

lemma client_inv_split: "client_inv s \<longleftrightarrow> req_inv s \<and> peers_inv s"
  by (auto simp: client_inv_def req_inv_def)

lemma req_inv_same: "req_inv s \<Longrightarrow> same_reqs s t \<Longrightarrow> req_inv t"
  by (simp add: req_inv_def inv_parts same_reqs_def)

lemma peers_inv_same: "peers_inv s \<Longrightarrow> same_peers s t \<Longrightarrow> peers_inv t"
  by (simp add: peers_inv_def same_peers_def)

lemma same_reqs_refl [simp, intro]: "same_reqs s s" by (simp add: same_reqs_def)
lemma same_peers_refl [simp, intro]: "same_peers s s" by (simp add: same_peers_def)
lemma same_reqs_trans: "same_reqs s t \<Longrightarrow> same_reqs t u \<Longrightarrow> same_reqs s u" by (simp add: same_reqs_def)
lemma same_peers_trans: "same_peers s t \<Longrightarrow> same_peers t u \<Longrightarrow> same_peers s u" by (simp add: same_peers_def)

section \<open>Operations on requests keep the invariant\<close>

definition is_listener :: "rkind \<Rightarrow> bool" where
  "is_listener k = (\<not> is_register k \<and> (\<forall>n. k \<noteq> RMatch n))"

lemma req_ok_listener:
  "is_listener (rq_kind q) \<Longrightarrow>
    req_ok mt i q \<longleftrightarrow> (rq_timer q \<longleftrightarrow> rq_promise q = Waiting) \<and> (rq_live q \<longleftrightarrow> rq_promise q = Waiting)"
  by (cases "rq_kind q") (auto simp: req_ok_def is_listener_def is_register_def)

lemma live_is_listener: "req_ok mt i q \<Longrightarrow> rq_live q \<Longrightarrow> is_listener (rq_kind q)"
  by (cases "rq_kind q") (auto simp: req_ok_def is_listener_def is_register_def)

lemma req_ok_match_cong:
  "(\<And>n. rq_kind q = RMatch n \<Longrightarrow> map_get mt' n = Some i \<longleftrightarrow> map_get mt n = Some i) \<Longrightarrow> req_ok mt' i q = req_ok mt i q"
  by (cases "rq_kind q") (auto simp: req_ok_def)

lemma open_req_append:
  "c_reqs t = c_reqs s @ [q] \<Longrightarrow> open_req s k \<Longrightarrow> open_req t k"
  by (auto simp: open_req_def nth_append intro: less_SucI)

lemma open_req_fresh:
  "c_reqs t = c_reqs s @ [q] \<Longrightarrow> rq_kind q = k \<Longrightarrow> rq_promise q = Waiting \<Longrightarrow> open_req t k"
  by (auto simp: open_req_def nth_append intro!: exI [of _ "length (c_reqs s)"])

lemma waiting_register_append:
  "c_reqs t = c_reqs s @ [q] \<Longrightarrow> waiting_register s i \<Longrightarrow> waiting_register t i"
  by (simp add: waiting_register_def nth_append)

lemma new_listener_inv:
  assumes inv: "req_inv s" and k: "is_listener k"
    and t: "c_reqs t = c_reqs s @ [\<lparr>rq_kind = k, rq_promise = Waiting, rq_timer = True, rq_live = True\<rparr>]"
      "c_match t = c_match s" "c_register t = c_register s" "c_idjobs t = c_idjobs s"
    and J: "set (c_pendingJoins t) \<subseteq> set (c_pendingJoins s) \<union> {n. k = RJoin n}"
    and D: "set (c_pendingDiscovers t) \<subseteq> set (c_pendingDiscovers s) \<union> {n. k = RDiscover n}"
  shows "req_inv t"
proof -
  have "reqs_inv t" using inv k t
    by (auto simp: req_inv_def reqs_inv_def nth_append less_Suc_eq req_ok_listener)
  moreover have "match_inv t" using inv t by (auto simp: req_inv_def match_inv_def nth_append intro: less_SucI)
  moreover have "register_inv t"
    using inv t(3,4) by (auto simp: req_inv_def register_inv_def intro: waiting_register_append [OF t(1)])
  moreover have "open_req t (RJoin n)" if "n \<in> set (c_pendingJoins t)" for n
    using subsetD [OF J that] inv
    by (auto simp: req_inv_def pending_inv_def intro: open_req_append [OF t(1)] open_req_fresh [OF t(1)])
  moreover have "open_req t (RDiscover n)" if "n \<in> set (c_pendingDiscovers t)" for n
    using subsetD [OF D that] inv
    by (auto simp: req_inv_def pending_inv_def intro: open_req_append [OF t(1)] open_req_fresh [OF t(1)])
  ultimately show ?thesis by (simp add: req_inv_def pending_inv_def)
qed

text \<open>What closing the request \<open>i\<close> means for the other requests.\<close>

lemma open_req_close:
  assumes "open_req s k" "c_reqs t = (c_reqs s)[i := q]" "rq_kind (c_reqs s ! i) \<noteq> k"
  shows "open_req t k"
proof -
  from assms(1) obtain j where "j < length (c_reqs s)" "rq_kind (c_reqs s ! j) = k" "rq_promise (c_reqs s ! j) = Waiting"
    by (auto simp: open_req_def)
  moreover from this assms(3) have "i \<noteq> j" by auto
  ultimately show ?thesis using assms(2) by (auto simp: open_req_def intro!: exI [of _ j])
qed

lemma waiting_register_close:
  "waiting_register s j \<Longrightarrow> c_reqs t = (c_reqs s)[i := q] \<Longrightarrow> j \<noteq> i \<Longrightarrow> waiting_register t j"
  by (simp add: waiting_register_def)

lemma finish_inv:
  assumes inv: "req_inv s" and i: "i < length (c_reqs s)" "rq_live (c_reqs s ! i)" and p: "p \<noteq> Waiting"
  shows "req_inv (finish i p s)"
proof -
  let ?t = "finish i p s"
  have ok: "req_ok (c_match s) i (c_reqs s ! i)" using inv i by (simp add: req_inv_def reqs_inv_def)
  note k = live_is_listener [OF ok i(2)]
  have reg: "\<not> waiting_register s i" using k by (auto simp: waiting_register_def is_listener_def)
  have "reqs_inv ?t" using inv p k i
    by (auto simp: req_inv_def reqs_inv_def nth_list_update req_ok_listener)
  moreover have "match_inv ?t" using inv i(1)
    by (auto simp: req_inv_def match_inv_def nth_list_update)
  moreover have "register_inv ?t"
    using inv waiting_register_close [OF _ finish_fields(7)] reg
    unfolding req_inv_def register_inv_def finish_fields by metis
  moreover have "open_req ?t (RJoin n)" if "n \<in> set (c_pendingJoins ?t)" for n
  proof -
    from that have "n \<in> set (c_pendingJoins s)" "rq_kind (c_reqs s ! i) \<noteq> RJoin n"
      by (auto simp: finish_def drop_join_def split: rkind.splits)
    with inv show ?thesis
      by (auto simp: req_inv_def pending_inv_def intro: open_req_close [OF _ finish_fields(7)])
  qed
  moreover have "open_req ?t (RDiscover n)" if "n \<in> set (c_pendingDiscovers ?t)" for n
  proof -
    from that have "n \<in> set (c_pendingDiscovers s)" "rq_kind (c_reqs s ! i) \<noteq> RDiscover n"
      by (auto simp: finish_def drop_discover_def split: rkind.splits)
    with inv show ?thesis
      by (auto simp: req_inv_def pending_inv_def intro: open_req_close [OF _ finish_fields(7)])
  qed
  ultimately show ?thesis by (simp add: req_inv_def pending_inv_def)
qed

lemma drop_match_inv:
  assumes inv: "req_inv s" and p: "p \<noteq> Waiting"
  shows "req_inv (drop_match n p s)"
proof (cases "map_get (c_match s) n")
  case None
  with inv show ?thesis by (simp add: drop_match_def)
next
  case (Some i)
  let ?t = "drop_match n p s"
  have t: "?t = s\<lparr>c_reqs := (c_reqs s)[i := closed_req p (c_reqs s ! i)], c_match := map_del n (c_match s)\<rparr>"
    using Some by (simp add: drop_match_def settle_clear)
  have i: "i < length (c_reqs s)" "rq_kind (c_reqs s ! i) = RMatch n"
    using inv Some by (auto simp: req_inv_def match_inv_def)
  have others: "map_get (c_match s) m = Some i \<Longrightarrow> m = n" for m
    using inv i(2) by (auto simp: req_inv_def match_inv_def)
  have "req_ok (map_del n (c_match s)) j (c_reqs s ! j)" if "j < length (c_reqs s)" "j \<noteq> i" for j
  proof -
    have "req_ok (c_match s) j (c_reqs s ! j)" using inv that by (simp add: req_inv_def reqs_inv_def)
    then show ?thesis by (rule iffD2 [OF req_ok_match_cong, rotated]) (use Some that in auto)
  qed
  moreover have "req_ok (map_del n (c_match s)) i (closed_req p (c_reqs s ! i))"
  proof -
    have "req_ok (c_match s) i (c_reqs s ! i)" using inv i by (simp add: req_inv_def reqs_inv_def)
    with i p Some show ?thesis by (simp add: req_ok_def)
  qed
  ultimately have "reqs_inv ?t" using i(1) by (simp add: t reqs_inv_def nth_list_update)
  moreover have "match_inv ?t" using inv i
    by (auto simp: t req_inv_def match_inv_def nth_list_update)
  moreover have upd: "c_reqs ?t = (c_reqs s)[i := closed_req p (c_reqs s ! i)]" by (simp add: t)
  have "\<not> waiting_register s i" using i by (auto simp: waiting_register_def is_register_def)
  then have "register_inv ?t" using inv waiting_register_close [OF _ upd]
    unfolding req_inv_def register_inv_def by (simp add: t) metis
  moreover have "pending_inv ?t" using inv open_req_close [OF _ upd] i(2)
    unfolding req_inv_def pending_inv_def by (simp add: t)
  ultimately show ?thesis by (simp add: req_inv_def)
qed

lemma cl_match_inv:
  assumes inv: "req_inv s"
  shows "req_inv (fst (cl_match n c g s))"
proof -
  let ?u = "drop_match n (Failed (JStr ''match superseded'')) s" and ?t = "fst (cl_match n c g s)"
  have u: "req_inv ?u" by (rule drop_match_inv [OF inv]) simp
  have none: "map_get (c_match ?u) n = None"
    by (cases "map_get (c_match s) n") (simp_all add: drop_match_def)
  let ?q = "\<lparr>rq_kind = RMatch n, rq_promise = Waiting, rq_timer = True, rq_live = False\<rparr>"
  have t: "c_reqs ?t = c_reqs ?u @ [?q]" "c_match ?t = map_set n (length (c_reqs ?u)) (c_match ?u)"
    "c_register ?t = c_register ?u" "c_idjobs ?t = c_idjobs ?u"
    "c_pendingJoins ?t = c_pendingJoins ?u" "c_pendingDiscovers ?t = c_pendingDiscovers ?u"
    by (simp_all add: cl_match_def Let_def new_req_def)
  have old: "req_ok (c_match ?t) j (c_reqs ?u ! j)" if "j < length (c_reqs ?u)" for j
  proof -
    have "req_ok (c_match ?u) j (c_reqs ?u ! j)" using u that by (simp add: req_inv_def reqs_inv_def)
    then show ?thesis by (rule iffD2 [OF req_ok_match_cong, rotated]) (use none that t(2) in auto)
  qed
  then have "reqs_inv ?t" by (auto simp: reqs_inv_def t(1) nth_append less_Suc_eq) (simp add: req_ok_def t(2))
  moreover have "match_inv ?t" using u
    by (auto simp: req_inv_def match_inv_def t(1,2) nth_append intro: less_SucI)
  moreover have "register_inv ?t"
    using u t(3,4) by (auto simp: req_inv_def register_inv_def intro: waiting_register_append [OF t(1)])
  moreover have "pending_inv ?t"
    using u t(5,6) by (auto simp: req_inv_def pending_inv_def intro: open_req_append [OF t(1)])
  ultimately show ?thesis by (simp add: req_inv_def)
qed

lemma settle_register_inv:
  assumes inv: "req_inv s" and i: "waiting_register s i" and p: "p \<noteq> Waiting"
    and t: "c_reqs t = (c_reqs s)[i := (c_reqs s ! i)\<lparr>rq_promise := p\<rparr>]" "c_match t = c_match s"
      "c_pendingJoins t = c_pendingJoins s" "c_pendingDiscovers t = c_pendingDiscovers s"
      "c_register t = (if c_register s = Some i then None else c_register s)" "set (c_idjobs t) = set (c_idjobs s) - {i}"
  shows "req_inv t"
proof -
  have i': "i < length (c_reqs s)" "is_register (rq_kind (c_reqs s ! i))"
    using i by (simp_all add: waiting_register_def)
  have "req_ok (c_match s) i (c_reqs s ! i)" using inv i' by (simp add: req_inv_def reqs_inv_def)
  with i' have "req_ok (c_match s) i ((c_reqs s ! i)\<lparr>rq_promise := p\<rparr>)" by (auto simp: req_ok_def is_register_def)
  then have "reqs_inv t" using inv i' t by (auto simp: req_inv_def reqs_inv_def nth_list_update)
  moreover have "match_inv t" using inv t i'
    by (auto simp: req_inv_def match_inv_def nth_list_update is_register_def)
  moreover have "register_inv t" using inv t(5,6)
    by (auto simp: req_inv_def register_inv_def split: if_splits intro!: waiting_register_close [OF _ t(1)])
  moreover have "pending_inv t" using inv i' t(3,4)
    by (auto simp: req_inv_def pending_inv_def is_register_def intro!: open_req_close [OF _ t(1)])
  ultimately show ?thesis by (simp add: req_inv_def)
qed

lemma reject_register_inv:
  assumes "req_inv s"
  shows "req_inv (reject_register e s)"
proof (cases "c_register s")
  case None
  with assms show ?thesis by (simp add: reject_register_def)
next
  case (Some i)
  with assms have i: "waiting_register s i" "i \<notin> set (c_idjobs s)"
    by (auto simp: req_inv_def register_inv_def)
  then show ?thesis
    by (intro settle_register_inv [OF assms i(1), of "Failed e"])
      (simp_all add: reject_register_def Some settle_req_def waiting_register_def)
qed

lemma reject_register_None [simp]: "c_register (reject_register e s) = None"
  by (simp add: reject_register_def split: option.split)

lemma new_register_inv:
  assumes inv: "req_inv s" "c_register s = None"
    and t: "c_reqs t = c_reqs s @ [\<lparr>rq_kind = RRegister b, rq_promise = Waiting, rq_timer = False, rq_live = False\<rparr>]"
      "c_match t = c_match s" "c_pendingJoins t = c_pendingJoins s" "c_pendingDiscovers t = c_pendingDiscovers s"
    and r: "c_register t = Some (length (c_reqs s)) \<and> c_idjobs t = c_idjobs s
      \<or> c_register t = None \<and> c_idjobs t = c_idjobs s @ [length (c_reqs s)]"
  shows "req_inv t"
proof -
  have new: "waiting_register t (length (c_reqs s))"
    by (cases b) (simp_all add: waiting_register_def t nth_append is_register_def)
  have bound: "i \<in> set (c_idjobs s) \<Longrightarrow> i < length (c_reqs s)" for i
    using inv by (auto simp: req_inv_def register_inv_def waiting_register_def)
  have "reqs_inv t" using inv t(1,2)
    by (auto simp: req_inv_def reqs_inv_def nth_append less_Suc_eq) (simp add: req_ok_def)
  moreover have "match_inv t" using inv t(1,2)
    by (auto simp: req_inv_def match_inv_def nth_append intro: less_SucI)
  moreover have "register_inv t" using inv r new
    by (auto simp: req_inv_def register_inv_def intro: waiting_register_append [OF t(1)] dest: bound)
  moreover have "pending_inv t"
    using inv t(3,4) by (auto simp: req_inv_def pending_inv_def intro: open_req_append [OF t(1)])
  ultimately show ?thesis by (simp add: req_inv_def)
qed

lemma doRegister_inv:
  assumes "req_inv s"
  shows "req_inv (fst (doRegister cfg b s))"
  by (rule new_register_inv [OF reject_register_inv [OF assms], where b = b])
    (auto simp: doRegister_def send_register_def new_req_def Let_def)

lemma identity_done_inv:
  assumes "req_inv s"
  shows "req_inv (fst (identity_done cfg i pub s))"
proof (cases "i \<in> set (c_idjobs s)")
  case True
  with assms show ?thesis
    by (auto simp: identity_done_def send_register_def Let_def req_inv_def inv_parts split: option.split)
qed (use assms in \<open>simp add: identity_done_def\<close>)

lemma identity_failed_inv:
  assumes "req_inv s"
  shows "req_inv (identity_failed i e s)"
proof (cases "i \<in> set (c_idjobs s)")
  case True
  with assms have i: "waiting_register s i" "c_register s \<noteq> Some i" by (auto simp: req_inv_def register_inv_def)
  then show ?thesis
    by (intro settle_register_inv [OF assms i(1), of "Failed e"])
      (simp_all add: identity_failed_def True settle_req_def waiting_register_def)
qed (use assms in \<open>simp add: identity_failed_def\<close>)

section \<open>The listeners\<close>

text \<open>A listener of request \<open>i\<close> leaves the client alone or closes that request.\<close>

definition closes :: "nat \<Rightarrow> client \<Rightarrow> client \<Rightarrow> bool" where
  "closes i s t = (t = s \<or> rq_live (c_reqs s ! i) \<and> (\<exists>p N. p \<noteq> Waiting \<and> t = (finish i p s)\<lparr>c_namespaces := N\<rparr>))"

lemma closes_refl [simp]: "closes i s s" by (simp add: closes_def)

lemma finish_same: "(finish i p s)\<lparr>c_namespaces := c_namespaces s\<rparr> = finish i p s"
  by (simp add: finish_def)

lemma closes_finish: "rq_live (c_reqs s ! i) \<Longrightarrow> p \<noteq> Waiting \<Longrightarrow> closes i s (finish i p s)"
  unfolding closes_def using finish_same [symmetric] by metis

lemma closes_finish_ns:
  "rq_live (c_reqs s ! i) \<Longrightarrow> p \<noteq> Waiting \<Longrightarrow> closes i s ((finish i p s)\<lparr>c_namespaces := N\<rparr>)"
  unfolding closes_def by blast

lemmas closes_intros = closes_refl closes_finish closes_finish_ns

lemma closes_on_peer_list: "closes i s (on_peer_list ns peers i s)"
  by (auto simp: on_peer_list_def settle_cleanup closes_intros split: rkind.split)

lemma closes_on_error: "closes i s (on_error e i s)"
  by (auto simp: on_error_def settle_cleanup finish_namespaces closes_intros split: rkind.split)

lemma closes_on_room_created: "closes i s (on_room_created res i s)"
  by (auto simp: on_room_created_def finish_namespaces closes_intros split: rkind.split)

lemma finish_plain:
  "rq_kind (c_reqs s ! i) = RRoomInfo n \<Longrightarrow> settle_req i p (clear_req i s) = finish i p s"
  by (simp add: settle_clear finish_def drop_join_def drop_discover_def)

lemma closes_on_room_info: "closes i s (on_room_info parse m i s)"
  by (auto simp: on_room_info_def finish_plain closes_intros split: rkind.split option.split)

text \<open>
  How the requests may change from one state to another: none disappears, none changes its kind
  and a settled promise keeps its outcome.
\<close>

definition reqs_le :: "client \<Rightarrow> client \<Rightarrow> bool" where
  "reqs_le s t = (length (c_reqs s) \<le> length (c_reqs t) \<and>
     (\<forall>i<length (c_reqs s). rq_kind (c_reqs t ! i) = rq_kind (c_reqs s ! i) \<and>
        (rq_promise (c_reqs s ! i) \<noteq> Waiting \<longrightarrow> rq_promise (c_reqs t ! i) = rq_promise (c_reqs s ! i))))"

lemma reqs_le_refl [simp, intro]: "reqs_le s s" by (simp add: reqs_le_def)

lemma reqs_le_trans: "reqs_le s t \<Longrightarrow> reqs_le t u \<Longrightarrow> reqs_le s u"
  by (auto simp: reqs_le_def dest: order_less_le_trans)

lemma reqs_le_same: "c_reqs t = c_reqs s \<Longrightarrow> reqs_le s t" by (simp add: reqs_le_def)

lemma reqs_le_upd:
  assumes "c_reqs t = (c_reqs s)[i := q]" "rq_kind q = rq_kind (c_reqs s ! i)"
    "rq_promise (c_reqs s ! i) \<noteq> Waiting \<Longrightarrow> rq_promise q = rq_promise (c_reqs s ! i)"
  shows "reqs_le s t"
  using assms by (cases "i < length (c_reqs s)") (auto simp: reqs_le_def nth_list_update)

lemma reqs_le_append: "c_reqs t = c_reqs s @ qs \<Longrightarrow> reqs_le s t"
  by (auto simp: reqs_le_def nth_append)

lemma reqs_le_settle: "reqs_le s (settle_req i p s)"
  unfolding settle_req_def by (rule reqs_le_upd [OF upd_req_fields(9)]) auto

lemma reqs_le_clear: "reqs_le s (clear_req i s)"
  unfolding clear_req_def by (rule reqs_le_upd [OF upd_req_fields(9)]) auto

lemma reqs_le_finish: "reqs_le s (finish i p s)"
  by (rule reqs_le_upd [OF finish_fields(7)]) auto

text \<open>What a step does to requests: it keeps the invariant and settled promises, and leaves the peers.\<close>

definition req_step :: "client \<Rightarrow> client \<Rightarrow> bool" where
  "req_step s t = (req_inv s \<longrightarrow> req_inv t \<and> reqs_le s t)"

lemma req_step_refl [simp, intro]: "req_step s s" by (simp add: req_step_def)

lemma req_step_trans: "req_step s t \<Longrightarrow> req_step t u \<Longrightarrow> req_step s u"
  unfolding req_step_def using reqs_le_trans by blast

lemma req_step_same: "same_reqs s t \<Longrightarrow> req_step s t"
  unfolding req_step_def using req_inv_same reqs_le_same by (metis same_reqs_def)

lemma closes_step:
  assumes "closes i s t" "i < length (c_reqs s)"
  shows "req_step s t \<and> same_peers s t \<and> length (c_reqs t) = length (c_reqs s)"
proof (cases "t = s")
  case False
  with assms(1) obtain p N where p: "rq_live (c_reqs s ! i)" "p \<noteq> Waiting" "t = (finish i p s)\<lparr>c_namespaces := N\<rparr>"
    by (auto simp: closes_def)
  have "same_reqs (finish i p s) t" by (simp add: p same_reqs_def)
  then have "req_step s t"
    using finish_inv [OF _ assms(2) p(1,2)] req_inv_same reqs_le_finish reqs_le_trans reqs_le_same
    unfolding req_step_def same_reqs_def by (metis (full_types))
  then show ?thesis by (simp add: p same_peers_def)
qed simp

lemma fold_closes_step:
  assumes "\<And>i s. closes i s (f i s)"
  shows "\<forall>i\<in>set is. i < length (c_reqs s) \<Longrightarrow>
    req_step s (fold f is s) \<and> same_peers s (fold f is s) \<and> length (c_reqs (fold f is s)) = length (c_reqs s)"
proof (induction "is" arbitrary: s)
  case (Cons i "is")
  from closes_step [OF assms, of i s] Cons.prems
  have one: "req_step s (f i s)" "same_peers s (f i s)" "length (c_reqs (f i s)) = length (c_reqs s)" by auto
  with Cons.IH [of "f i s"] Cons.prems show ?case
    by (auto intro: req_step_trans [OF one(1)] same_peers_trans [OF one(2)])
qed simp

lemma each_req_step:
  assumes "\<And>i s. closes i s (f i s)"
  shows "req_step s (each_req f s)" "same_peers s (each_req f s)" "length (c_reqs (each_req f s)) = length (c_reqs s)"
  using fold_closes_step [of f "[0..<length (c_reqs s)]" s] assms by (auto simp: each_req_def)

lemmas each_steps = each_req_step [OF closes_on_peer_list] each_req_step [OF closes_on_error]
  each_req_step [OF closes_on_room_created] each_req_step [OF closes_on_room_info]

lemma req_stepI: "(req_inv s \<Longrightarrow> req_inv t) \<Longrightarrow> reqs_le s t \<Longrightarrow> req_step s t"
  by (simp add: req_step_def)

lemma drop_match_step: "p \<noteq> Waiting \<Longrightarrow> req_step s (drop_match n p s)" "same_peers s (drop_match n p s)"
proof -
  have "reqs_le s (drop_match n p s)"
    by (auto simp: drop_match_def settle_clear split: option.split intro: reqs_le_upd)
  then show "p \<noteq> Waiting \<Longrightarrow> req_step s (drop_match n p s)" by (blast intro: req_stepI drop_match_inv)
  show "same_peers s (drop_match n p s)"
    by (simp add: drop_match_def settle_clear same_peers_def split: option.split)
qed

lemma reject_register_step: "req_step s (reject_register e s)" "same_peers s (reject_register e s)"
proof -
  have "reqs_le s (reject_register e s)"
    by (auto simp: reject_register_def settle_req_def split: option.split intro!: reqs_le_upd)
  then show "req_step s (reject_register e s)" by (blast intro: req_stepI reject_register_inv)
  show "same_peers s (reject_register e s)"
    by (simp add: reject_register_def settle_req_def same_peers_def split: option.split)
qed

section \<open>Every step keeps the invariant\<close>

text \<open>Peers stay where they are and keep their fingerprint.\<close>

definition heap_le :: "client \<Rightarrow> client \<Rightarrow> bool" where
  "heap_le s t = (length (c_heap s) \<le> length (c_heap t) \<and>
     (\<forall>r<length (c_heap s). cp_fp (c_heap t ! r) = cp_fp (c_heap s ! r)))"

lemma heap_le_refl [simp, intro]: "heap_le s s" by (simp add: heap_le_def)

lemma heap_le_trans: "heap_le s t \<Longrightarrow> heap_le t u \<Longrightarrow> heap_le s u"
  by (auto simp: heap_le_def dest: order_less_le_trans)

definition client_ok :: "client \<Rightarrow> client \<Rightarrow> bool" where
  "client_ok s t = (req_step s t \<and> (peers_inv s \<longrightarrow> peers_inv t) \<and> heap_le s t)"

lemma client_ok_refl [simp, intro]: "client_ok s s" by (simp add: client_ok_def)

lemma client_ok_trans: "client_ok s t \<Longrightarrow> client_ok t u \<Longrightarrow> client_ok s u"
  unfolding client_ok_def using req_step_trans heap_le_trans by blast

lemma client_ok_reqs: "req_step s t \<Longrightarrow> same_peers s t \<Longrightarrow> client_ok s t"
  unfolding client_ok_def using peers_inv_same by (simp add: heap_le_def same_peers_def)

lemma client_ok_peers: "same_reqs s t \<Longrightarrow> heap_le s t \<Longrightarrow> (peers_inv s \<Longrightarrow> peers_inv t) \<Longrightarrow> client_ok s t"
  unfolding client_ok_def using req_step_same by blast

lemma client_ok_other: "same_reqs s t \<Longrightarrow> same_peers s t \<Longrightarrow> client_ok s t"
  by (blast intro: client_ok_reqs req_step_same)

lemmas client_okI = client_ok_refl client_ok_reqs [OF each_steps(1,2)] client_ok_reqs [OF each_steps(4,5)]
  client_ok_reqs [OF each_steps(7,8)] client_ok_reqs [OF each_steps(10,11)]
  client_ok_reqs [OF drop_match_step] client_ok_reqs [OF reject_register_step]

lemma new_listener_ok:
  assumes "is_listener k" "set J \<subseteq> set (c_pendingJoins s) \<union> {n. k = RJoin n}"
    "set D \<subseteq> set (c_pendingDiscovers s) \<union> {n. k = RDiscover n}"
  shows "client_ok s (new_req k True True (s\<lparr>c_namespaces := N, c_pendingJoins := J, c_pendingDiscovers := D\<rparr>))"
    (is "client_ok s ?t")
proof (rule client_ok_reqs [OF req_stepI])
  show "req_inv s \<Longrightarrow> req_inv ?t"
    by (rule new_listener_inv [of s k]) (use assms in \<open>simp_all add: new_req_def\<close>)
  show "reqs_le s ?t" by (rule reqs_le_append) (simp add: new_req_def)
  show "same_peers s ?t" by (simp add: new_req_def same_peers_def)
qed

lemma is_listener_simps [simp]:
  "is_listener (RJoin n)" "is_listener (RDiscover n)" "is_listener (RCreateRoom n)" "is_listener (RJoinRoom n)"
  "is_listener (RRoomInfo n)" "\<not> is_listener (RMatch n)" "\<not> is_listener (RRegister b)"
  by (cases b; simp add: is_listener_def is_register_def)+

lemma join_ok: "client_ok s (fst (join ns a v s))"
  using new_listener_ok [of "RJoin ns" "set_add ns (c_pendingJoins s)" s "c_pendingDiscovers s" "set_add ns (c_namespaces s)"]
  by (simp add: join_def new_req_def)

lemma discover_ok: "client_ok s (fst (discover ns l s))"
  using new_listener_ok [of "RDiscover ns" "c_pendingJoins s" s "set_add ns (c_pendingDiscovers s)" "c_namespaces s"]
  by (simp add: discover_def new_req_def)

lemma createRoom_ok: "client_ok s (fst (createRoom r mx s))"
  using new_listener_ok [of "RCreateRoom r" "c_pendingJoins s" s "c_pendingDiscovers s" "c_namespaces s"]
  by (simp add: createRoom_def new_req_def)

lemma joinRoom_ok: "client_ok s (fst (joinRoom r s))"
  using new_listener_ok [of "RJoinRoom r" "c_pendingJoins s" s "c_pendingDiscovers s" "set_add r (c_namespaces s)"]
  by (simp add: joinRoom_def new_req_def)

lemma roomInfo_ok: "client_ok s (fst (roomInfo r s))"
  using new_listener_ok [of "RRoomInfo r" "c_pendingJoins s" s "c_pendingDiscovers s" "c_namespaces s"]
  by (simp add: roomInfo_def new_req_def)

lemma cl_match_ok: "client_ok s (fst (cl_match ns c g s))"
proof (rule client_ok_reqs [OF req_stepI])
  have "reqs_le (drop_match ns (Failed (JStr ''match superseded'')) s) (fst (cl_match ns c g s))"
    by (rule reqs_le_append) (simp add: cl_match_def Let_def new_req_def)
  moreover have "reqs_le s (drop_match ns (Failed (JStr ''match superseded'')) s)"
    by (auto simp: drop_match_def settle_clear split: option.split intro: reqs_le_upd)
  ultimately show "reqs_le s (fst (cl_match ns c g s))" by (rule reqs_le_trans [rotated])
  show "same_peers s (fst (cl_match ns c g s))"
    using drop_match_step(2) [of s ns "Failed (JStr ''match superseded'')"]
    by (simp add: cl_match_def Let_def new_req_def same_peers_def)
qed (rule cl_match_inv)

lemma doRegister_ok: "client_ok s (fst (doRegister cfg b s))"
proof (rule client_ok_reqs [OF req_stepI])
  let ?u = "reject_register (JStr ''Register superseded'') s"
  have "reqs_le ?u (fst (doRegister cfg b s))"
    by (rule reqs_le_append) (auto simp: doRegister_def Let_def new_req_def send_register_def)
  moreover have "reqs_le s ?u"
    by (auto simp: reject_register_def settle_req_def split: option.split intro!: reqs_le_upd)
  ultimately show "reqs_le s (fst (doRegister cfg b s))" by (rule reqs_le_trans [rotated])
  show "same_peers s (fst (doRegister cfg b s))"
    using reject_register_step(2) [of s "JStr ''Register superseded''"]
    by (simp add: doRegister_def Let_def new_req_def send_register_def same_peers_def)
qed (rule doRegister_inv)

lemma identity_done_ok: "client_ok s (fst (identity_done cfg i pub s))"
proof (rule client_ok_reqs [OF req_stepI])
  show "reqs_le s (fst (identity_done cfg i pub s))"
    by (rule reqs_le_same) (simp add: identity_done_def send_register_def Let_def split: option.split)
  show "same_peers s (fst (identity_done cfg i pub s))"
    by (simp add: identity_done_def send_register_def Let_def same_peers_def split: option.split)
qed (rule identity_done_inv)

lemma identity_failed_ok: "client_ok s (identity_failed i e s)"
proof (rule client_ok_reqs [OF req_stepI])
  show "reqs_le s (identity_failed i e s)"
    by (auto simp: identity_failed_def settle_req_def intro!: reqs_le_upd)
  show "same_peers s (identity_failed i e s)"
    by (simp add: identity_failed_def settle_req_def same_peers_def)
qed (rule identity_failed_inv)

text \<open>Settling the request that \<open>registerPromise\<close> points to.\<close>

lemma on_registered_ok: "client_ok s (fst (on_registered parse p s))"
proof -
  have "client_ok s (t\<lparr>c_register := None, c_rejoins := R\<rparr>)"
    if reg: "c_register s = Some i" "t = settle_req i (Fulfilled Undef) (s\<lparr>c_fp := a, c_alias := b\<rparr>)" for i t a b R
  proof (rule client_ok_reqs [OF req_stepI])
    let ?u = "t\<lparr>c_register := None, c_rejoins := R\<rparr>"
    show "req_inv ?u" if inv: "req_inv s"
    proof -
      from inv \<open>c_register s = Some i\<close> have w: "waiting_register s i" "i \<notin> set (c_idjobs s)"
        by (auto simp: req_inv_def register_inv_def)
      then show ?thesis
        by (intro settle_register_inv [OF inv w(1), of "Fulfilled Undef"])
          (simp_all add: reg settle_req_def waiting_register_def)
    qed
    show "reqs_le s ?u" by (auto simp: reg settle_req_def intro!: reqs_le_upd)
    show "same_peers s ?u" by (simp add: reg settle_req_def same_peers_def)
  qed
  moreover have "client_ok s (s\<lparr>c_fp := a, c_alias := b\<rparr>)" for a b
    by (rule client_ok_other) (simp_all add: same_reqs_def same_peers_def)
  ultimately show ?thesis by (auto simp: on_registered_def Let_def split: option.split)
qed

lemma req_timeout_ok: "client_ok s (req_timeout i s)"
proof (cases "i < length (c_reqs s) \<and> rq_timer (c_reqs s ! i)")
  case True
  have "client_ok s (req_timeout i s)" if "req_inv s"
  proof -
    have ok: "req_ok (c_match s) i (c_reqs s ! i)" using that True by (simp add: req_inv_def reqs_inv_def)
    show ?thesis
    proof (cases "is_listener (rq_kind (c_reqs s ! i))")
      case l: True
      with ok True have live: "rq_live (c_reqs s ! i)" by (simp add: req_ok_listener)
      have "closes i s (req_timeout i s)"
        using True l live
        by (auto simp: req_timeout_def settle_cleanup finish_namespaces finish_plain closes_intros split: rkind.split)
      then show ?thesis using closes_step True client_ok_reqs by blast
    next
      case False
      with ok True obtain n where n: "rq_kind (c_reqs s ! i) = RMatch n" "map_get (c_match s) n = Some i"
        by (cases "rq_kind (c_reqs s ! i)") (auto simp: req_ok_def)
      with True have "req_timeout i s = drop_match n (Failed (JStr (''match timeout: '' @ n))) s"
        by (simp add: req_timeout_def drop_match_def settle_req_cong)
      then show ?thesis by (simp add: client_okI)
    qed
  qed
  moreover have "same_peers s (req_timeout i s)"
    by (simp add: same_peers_def req_timeout_def settle_cleanup finish_namespaces settle_req_cong settle_clear split: rkind.split)
  ultimately show ?thesis
    unfolding client_ok_def req_step_def using peers_inv_same by (auto simp: heap_le_def same_peers_def)
qed (auto simp: req_timeout_def)

section \<open>Peers\<close>

lemma upd_peer_fields [simp]:
  "c_peers (upd_peer r f s) = c_peers s" "c_heap (upd_peer r f s) = (c_heap s)[r := f (c_heap s ! r)]"
  "same_reqs s (upd_peer r f s)"
  by (simp_all add: upd_peer_def same_reqs_def)

lemma same_reqs_peers [simp]: "same_reqs s (t\<lparr>c_peers := m\<rparr>) = same_reqs s t"
  by (simp add: same_reqs_def)

lemma peers_inv_mono:
  assumes "peers_inv s" "map_wf (c_peers t)" "map_get (c_peers t) \<subseteq>\<^sub>m map_get (c_peers s)"
    "length (c_heap s) \<le> length (c_heap t)" "\<And>r. r < length (c_heap s) \<Longrightarrow> cp_fp (c_heap t ! r) = cp_fp (c_heap s ! r)"
  shows "peers_inv t"
  using assms by (force simp: peers_inv_def map_le_def dom_def)

lemma peer_close_ok: "same_reqs s (fst (peer_close r s))" "c_peers (fst (peer_close r s)) = c_peers s"
  "length (c_heap (fst (peer_close r s))) = length (c_heap s)"
  "cp_fp (c_heap (fst (peer_close r s)) ! q) = cp_fp (c_heap s ! q)"
  "r < length (c_heap s) \<Longrightarrow> cp_closed (c_heap (fst (peer_close r s)) ! r)"
  "cp_closed (c_heap s ! q) \<Longrightarrow> cp_closed (c_heap (fst (peer_close r s)) ! q)"
  by (cases "r < length (c_heap s)"; cases "r = q"; simp add: peer_close_def list_update_beyond)+

lemma peer_close_heap: "heap_le s ((fst (peer_close r s))\<lparr>c_peers := m\<rparr>)" "heap_le s (fst (peer_close r s))"
  by (simp_all add: heap_le_def peer_close_ok)

lemma peers_inv_sub:
  assumes "peers_inv s" "map_wf m" "map_get m \<subseteq>\<^sub>m map_get (c_peers s)"
  shows "peers_inv ((fst (peer_close r s))\<lparr>c_peers := m\<rparr>)"
  using assms by (intro peers_inv_mono [OF assms(1)]) (simp_all add: peer_close_ok)

lemma map_del_sub: "map_get (map_del k m) \<subseteq>\<^sub>m map_get m"
  by (auto simp: map_le_def)

lemma js_del_sub: "map_get (js_del k m) \<subseteq>\<^sub>m map_get m" "map_wf m \<Longrightarrow> map_wf (js_del k m)"
  by (cases k; auto simp: map_le_def)+

lemma close_all_all: "same_reqs s (fst (close_all rs s)) \<and> c_peers (fst (close_all rs s)) = c_peers s
  \<and> length (c_heap (fst (close_all rs s))) = length (c_heap s)
  \<and> (\<forall>q. cp_fp (c_heap (fst (close_all rs s)) ! q) = cp_fp (c_heap s ! q))
  \<and> (\<forall>q. cp_closed (c_heap s ! q) \<or> q \<in> set rs \<and> q < length (c_heap s) \<longrightarrow> cp_closed (c_heap (fst (close_all rs s)) ! q))"
proof (induction rs arbitrary: s)
  case (Cons r rs)
  let ?u = "fst (peer_close r s)"
  have unf: "fst (close_all (r # rs) s) = fst (close_all rs ?u)" by (simp add: Let_def split_def)
  from Cons.IH [of ?u] show ?case unfolding unf
    using peer_close_ok [where s = s and r = r] same_reqs_trans by (metis set_ConsD)
qed simp

lemmas close_all_ok = close_all_all [THEN conjunct1] close_all_all [THEN conjunct2, THEN conjunct1]
  close_all_all [THEN conjunct2, THEN conjunct2, THEN conjunct1]

lemma close_all_heap: "heap_le s (fst (close_all rs s))"
  using close_all_all [of s rs] by (simp add: heap_le_def)

lemma close_all_closed:
  "cp_closed (c_heap s ! q) \<or> q \<in> set rs \<and> q < length (c_heap s) \<Longrightarrow> cp_closed (c_heap (fst (close_all rs s)) ! q)"
  using close_all_all by blast

lemma peers_inv_clear: "peers_inv (s\<lparr>c_peers := []\<rparr>)"
  by (simp add: peers_inv_def)

lemma closePeer_ok: "client_ok s (fst (closePeer fp s))"
  by (rule client_ok_peers)
    (auto simp: closePeer_def peer_close_ok peer_close_heap split_def Let_def split: option.split
      intro!: peers_inv_sub js_del_sub dest: peers_inv_def [THEN iffD1])

lemma createPeer_ok: "client_ok s (fst (createPeer fp al s))"
  "fst (snd (createPeer fp al s)) < length (c_heap (fst (createPeer fp al s))) \<or> \<not> peers_inv s"
proof -
  have grow: "peers_inv (s\<lparr>c_heap := c_heap s @ [\<lparr>cp_fp = fp, cp_alias = al, cp_closed = False, cp_state = st\<rparr>],
      c_peers := map_set fp (length (c_heap s)) m\<rparr>)" if "peers_inv s" "map_wf m" "map_get m \<subseteq>\<^sub>m map_get (c_peers s)" for m st
    using that by (force simp: peers_inv_def nth_append map_le_def dom_def)
  show "client_ok s (fst (createPeer fp al s))"
  proof (rule client_ok_peers)
    show "same_reqs s (fst (createPeer fp al s))"
      by (simp add: createPeer_def Let_def same_reqs_def split: option.split)
    show "heap_le s (fst (createPeer fp al s))"
      by (simp add: createPeer_def Let_def heap_le_def nth_append split: option.split)
    show "peers_inv (fst (createPeer fp al s))" if "peers_inv s"
      using that grow [OF that, of "c_peers s" "''new''"] grow [OF that, of "map_del fp (c_peers s)" "''new''"] map_del_sub
      by (auto simp: createPeer_def Let_def split: option.split dest: peers_inv_def [THEN iffD1])
  qed
  show "fst (snd (createPeer fp al s)) < length (c_heap (fst (createPeer fp al s))) \<or> \<not> peers_inv s"
    by (auto simp: createPeer_def Let_def peers_inv_def split: option.split)
qed

lemma connectToPeer_ok: "client_ok s (fst (connectToPeer fp al s))"
  by (auto simp: connectToPeer_def createPeer_ok split_def Let_def split: option.split)

lemma peer_state_ok: "client_ok s (peer_state r st s)"
proof (rule client_ok_peers)
  show "same_reqs s (peer_state r st s)" by (simp add: peer_state_def Let_def)
  show "heap_le s (peer_state r st s)" by (simp add: peer_state_def Let_def heap_le_def nth_list_update)
  show "peers_inv (peer_state r st s)" if "peers_inv s"
    using that
    by (intro peers_inv_mono [OF that])
      (auto simp: peer_state_def Let_def nth_list_update map_le_def peers_inv_def)
qed

lemma cleanup_loop_ok: "client_ok s (fst (cleanup_loop es s))"
proof (induction es s rule: cleanup_loop.induct)
  case (2 fp r es s)
  show ?case
  proof (cases "is_stale (c_heap s ! r)")
    case True
    let ?u = "(fst (peer_close r s))\<lparr>c_peers := map_del fp (c_peers (fst (peer_close r s)))\<rparr>"
    have "client_ok s ?u"
      by (rule client_ok_peers) (auto simp: peer_close_ok peer_close_heap intro!: peers_inv_sub map_del_sub dest: peers_inv_def [THEN iffD1])
    moreover have "client_ok ?u (fst (cleanup_loop es ?u))"
      using 2(1) [OF True] by (metis prod.collapse)
    ultimately show ?thesis using True by (auto simp: split_def Let_def intro: client_ok_trans)
  next
    case False
    with 2(2) show ?thesis by simp
  qed
qed simp

section \<open>Disconnecting\<close>

definition fail_reqs :: "cpromise \<Rightarrow> nat list \<Rightarrow> client \<Rightarrow> client" where
  "fail_reqs p is s = fold (\<lambda>i. settle_req i p \<circ> clear_req i) is s"

lemma closed_req_idem [simp]: "p \<noteq> Waiting \<Longrightarrow> closed_req p (closed_req p q) = closed_req p q"
  by (simp add: closed_req_def Let_def)

lemma fail_reqs_nth:
  assumes "p \<noteq> Waiting"
  shows "length (c_reqs (fail_reqs p is s)) = length (c_reqs s) \<and>
    (\<forall>i<length (c_reqs s). c_reqs (fail_reqs p is s) ! i =
      (if i \<in> set is then closed_req p (c_reqs s ! i) else c_reqs s ! i))"
proof (induction "is" arbitrary: s)
  case (Cons j "is")
  from Cons.IH [of "(settle_req j p \<circ> clear_req j) s"] assms show ?case
    by (cases "j < length (c_reqs s)") (auto simp: fail_reqs_def settle_clear nth_list_update list_update_beyond)
qed (simp add: fail_reqs_def)

lemma fail_reqs_fields: "fail_reqs p is s = s\<lparr>c_reqs := c_reqs (fail_reqs p is s)\<rparr>"
proof (induction "is" arbitrary: s)
  case (Cons j "is")
  from Cons.IH [of "(settle_req j p \<circ> clear_req j) s"] show ?case
    by (simp add: fail_reqs_def settle_clear)
qed (simp add: fail_reqs_def)

lemma fail_reqs_sel [simp]:
  "c_match (fail_reqs p is s) = c_match s" "c_register (fail_reqs p is s) = c_register s"
  "c_pendingJoins (fail_reqs p is s) = c_pendingJoins s" "c_pendingDiscovers (fail_reqs p is s) = c_pendingDiscovers s"
  "c_idjobs (fail_reqs p is s) = c_idjobs s" "c_peers (fail_reqs p is s) = c_peers s" "c_heap (fail_reqs p is s) = c_heap s"
  "c_namespaces (fail_reqs p is s) = c_namespaces s"
  by (subst fail_reqs_fields, simp)+

lemma match_vals: "match_inv s \<Longrightarrow> i \<in> set (map_vals (c_match s)) \<longleftrightarrow> (\<exists>n. map_get (c_match s) n = Some i)"
  unfolding match_inv_def by (force simp: map_wf_get_iff)

lemma fail_matches_inv:
  assumes inv: "req_inv s" and p: "p \<noteq> Waiting"
  shows "req_inv ((fail_reqs p (map_vals (c_match s)) s)\<lparr>c_match := []\<rparr>)" (is "req_inv ?t")
    and "reqs_le s ((fail_reqs p (map_vals (c_match s)) s)\<lparr>c_match := []\<rparr>)"
proof -
  have mt: "match_inv s" using inv by (simp add: req_inv_def)
  have len: "length (c_reqs ?t) = length (c_reqs s)" using fail_reqs_nth [OF p] by simp
  have at: "c_reqs ?t ! i = (if \<exists>n. map_get (c_match s) n = Some i then closed_req p (c_reqs s ! i) else c_reqs s ! i)"
    if "i < length (c_reqs s)" for i using fail_reqs_nth [OF p] that match_vals [OF mt] by simp
  have kind: "\<exists>n. rq_kind (c_reqs s ! i) = RMatch n" if "map_get (c_match s) m = Some i" for i m
    using mt that by (auto simp: match_inv_def)
  have other: "c_reqs ?t ! i = c_reqs s ! i" if "i < length (c_reqs s)" "\<forall>n. rq_kind (c_reqs s ! i) \<noteq> RMatch n" for i
    using at [OF that(1)] kind that(2) by auto
  have "req_ok [] i (c_reqs ?t ! i)" if i: "i < length (c_reqs s)" for i
  proof -
    have ok: "req_ok (c_match s) i (c_reqs s ! i)" using inv i by (simp add: req_inv_def reqs_inv_def)
    show ?thesis
    proof (cases "\<exists>n. rq_kind (c_reqs s ! i) = RMatch n")
      case True
      then obtain n where n: "rq_kind (c_reqs s ! i) = RMatch n" ..
      with ok have "rq_promise (c_reqs s ! i) = Waiting \<Longrightarrow> map_get (c_match s) n = Some i" by (simp add: req_ok_def)
      with ok n p show ?thesis unfolding at [OF i] by (auto simp: req_ok_def)
    next
      case False
      with ok req_ok_match_cong [of "c_reqs s ! i" "[]" i "c_match s"] show ?thesis
        unfolding other [OF i False [unfolded not_ex]] by simp
    qed
  qed
  then have "reqs_inv ?t" unfolding reqs_inv_def len by simp
  moreover have "match_inv ?t" by (simp add: match_inv_def)
  moreover have w: "waiting_register ?t i" if "waiting_register s i" for i
    using that other [of i] len by (auto simp: waiting_register_def is_register_def)
  then have "register_inv ?t" using inv by (auto simp: req_inv_def register_inv_def)
  moreover have o: "open_req ?t k" if k: "open_req s k" "\<forall>n. k \<noteq> RMatch n" for k
  proof -
    from k(1) obtain i where "i < length (c_reqs s)" "rq_kind (c_reqs s ! i) = k" "rq_promise (c_reqs s ! i) = Waiting"
      by (auto simp: open_req_def)
    with other [of i] k(2) len show ?thesis unfolding open_req_def by metis
  qed
  have "pending_inv ?t" using inv by (auto simp: req_inv_def pending_inv_def intro!: o)
  ultimately show "req_inv ?t" by (simp add: req_inv_def)
  show "reqs_le s ?t" unfolding reqs_le_def len using at by simp
qed

lemma disconnect_state:
  "fst (disconnect s) = reject_register (JStr ''Disconnected'')
     ((fail_reqs (Failed (JStr ''Disconnected'')) (map_vals (c_match s))
        ((fst (close_all (map_vals (c_peers s)) s))\<lparr>c_peers := [], c_namespaces := []\<rparr>))\<lparr>c_match := []\<rparr>)"
  using close_all_ok(1) [of s "map_vals (c_peers s)"]
  by (simp add: disconnect_def Let_def split_def fail_reqs_def same_reqs_def)

lemma disconnect_ok: "client_ok s (fst (disconnect s))"
proof -
  let ?u = "(fst (close_all (map_vals (c_peers s)) s))\<lparr>c_peers := [], c_namespaces := []\<rparr>"
  let ?v = "(fail_reqs (Failed (JStr ''Disconnected'')) (map_vals (c_match s)) ?u)\<lparr>c_match := []\<rparr>"
  have su: "same_reqs s ?u" using close_all_ok(1) [of s] by (simp add: same_reqs_def)
  have "heap_le s ?u" using close_all_heap [of s] by (simp add: heap_le_def)
  with su have "client_ok s ?u" by (rule client_ok_peers) (simp add: peers_inv_def)
  moreover have "client_ok ?u ?v"
    using fail_matches_inv [of ?u "Failed (JStr ''Disconnected'')"] su
    by (intro client_ok_reqs) (auto simp: req_step_def same_peers_def same_reqs_def)
  moreover have "client_ok ?v (fst (disconnect s))" unfolding disconnect_state by (rule client_okI)
  ultimately show ?thesis by (blast intro: client_ok_trans)
qed

section \<open>The machine\<close>

lemma on_open_ok: "client_ok s (fst (on_open cfg s))"
  unfolding on_open_def cleanupStalePeers_def
  using client_ok_trans [OF cleanup_loop_ok doRegister_ok] by (auto simp: split_def Let_def)

lemma on_signal_ok: "client_ok s (fst (on_signal m s))"
proof -
  have "client_ok s (s\<lparr>c_peers := map_del fp (c_peers s)\<rparr>)" for fp
    by (rule client_ok_peers) (auto simp: peers_inv_def heap_le_def)
  from client_ok_trans [OF this createPeer_ok(1)] show ?thesis
    by (auto simp: on_signal_def Let_def split_def createPeer_ok split: option.split)
qed

lemma on_matched_ok: "client_ok s (fst (on_matched parse p s))"
  by (auto simp: on_matched_def client_okI split: option.split js.split)

lemma client_ok_namespaces [simp]: "client_ok s (s\<lparr>c_namespaces := N\<rparr>)"
  by (rule client_ok_other) (simp_all add: same_reqs_def same_peers_def)

lemma on_room_gone_ok: "client_ok s (fst (on_room_gone parse ev p s))"
  by (auto simp: on_room_gone_def split: option.split)

lemma handleMessage_ok: "client_ok s (fst (handleMessage parse stringify m s))"
proof -
  have "client_ok s (reject_register x (each_req (on_error e) s))" for x e
    by (rule client_ok_trans [OF client_okI(3) client_okI(7)])
  then show ?thesis
    using closePeer_ok on_registered_ok on_signal_ok on_matched_ok on_room_gone_ok client_okI(2,4)
    by (simp add: handleMessage_def Let_def split_def split: option.split)
qed

lemma on_message_ok: "client_ok s (fst (on_message parse stringify m s))"
  unfolding on_message_def using client_ok_trans [OF handleMessage_ok client_okI(5)] by (simp add: split_def Let_def)

lemma same_other:
  "client_ok s (s\<lparr>c_connecting := n\<rparr>)" "client_ok s (s\<lparr>c_rejoins := r\<rparr>)"
  by (rule client_ok_other; simp add: same_reqs_def same_peers_def)+

lemma peer_close_client_ok: "client_ok s (fst (peer_close r s))"
  by (rule client_ok_peers [OF peer_close_ok(1) peer_close_heap(2)])
    (metis peers_inv_sub peer_close_ok(2) client.surjective client.update_convs(3) map_le_refl peers_inv_def)

lemma client_step_ok: "client_ok s (fst (client_step parse stringify cfg s e))"
proof (cases e)
  case ConnectDone
  then show ?thesis
    using client_ok_trans [OF same_other(1) doRegister_ok] by simp
next
  case (Rejoin i)
  then show ?thesis by (simp add: rejoin_def same_other)
next
  case (LeaveCall ns)
  then show ?thesis by (simp add: leave_def)
next
  case (CancelMatch ns)
  then show ?thesis by (simp add: cancelMatch_def client_okI)
qed (simp_all add: same_other split_def Let_def identity_done_ok identity_failed_ok on_open_ok on_message_ok
    join_ok discover_ok cl_match_ok createRoom_ok joinRoom_ok roomInfo_ok connectToPeer_ok createPeer_ok
    closePeer_ok peer_state_ok req_timeout_ok disconnect_ok peer_close_client_ok)

lemma client_inv_new: "client_inv new_PeerClient"
  by (simp add: client_inv_def new_PeerClient_def inv_parts peers_inv_def)

interpretation client_machine: machine "client_step parse stringify cfg" client_inv "\<lambda>e. True"
  for parse stringify cfg
  using client_step_ok by unfold_locales (auto simp: client_ok_def client_inv_split req_step_def)

section \<open>Properties\<close>

text \<open>
  C15. In every state a client can reach, its tables agree with its requests: a call that is still
  open has its timer armed and its listeners attached, a call that is over has neither; the waiting
  matches are exactly those in \<open>matchResolvers\<close>, one for each namespace; \<open>registerPromise\<close>
  is open; each namespace in a pending set has an open call; and every peer in the map exists and
  carries the fingerprint it is stored under.
\<close>

theorem client_bookkeeping:
  "client_inv (run_state (client_step parse stringify cfg) new_PeerClient es)"
  by (rule client_machine.run_inv [OF client_inv_new]) (simp add: list_all_iff)

lemma run_reqs_le:
  assumes "client_inv s"
  shows "reqs_le s (run_state (client_step parse stringify cfg) s fs)"
  using assms
proof (induction fs arbitrary: s)
  case (Cons e fs)
  have "reqs_le s (fst (client_step parse stringify cfg s e))"
    using client_step_ok Cons.prems by (simp add: client_ok_def req_step_def client_inv_split)
  with Cons.IH [OF client_machine.step_inv [OF Cons.prems]] show ?case
    by (auto simp del: run.simps intro: reqs_le_trans)
qed simp

lemma timeout_settles:
  assumes "client_inv s" "i < length (c_reqs s)" "\<not> is_register (rq_kind (c_reqs s ! i))"
  shows "rq_promise (c_reqs (req_timeout i s) ! i) \<noteq> Waiting"
proof -
  have ok: "req_ok (c_match s) i (c_reqs s ! i)" using assms by (simp add: client_inv_def reqs_inv_def)
  show ?thesis
  proof (cases "rq_timer (c_reqs s ! i)")
    case True
    with assms(2,3) show ?thesis
      by (auto simp: req_timeout_def settle_cleanup finish_namespaces settle_clear settle_req_cong is_register_def split: rkind.split)
  next
    case False
    with ok assms(2,3) show ?thesis
      by (auto simp: req_timeout_def req_ok_def is_register_def split: rkind.splits)
  qed
qed

text \<open>
  C16. Every call of \<open>join\<close>, \<open>discover\<close>, \<open>match\<close>, \<open>createRoom\<close>, \<open>joinRoom\<close> or
  \<open>roomInfo\<close> is settled once its timeout is due, at the latest, and with one outcome for good:
  whatever happened before, whatever comes between and whatever comes after cannot leave it open
  or change the outcome.
\<close>

theorem call_settles_once:
  assumes "s = run_state (client_step parse stringify cfg) new_PeerClient es"
    and "i < length (c_reqs s)" "\<forall>b. rq_kind (c_reqs s ! i) \<noteq> RRegister b"
  shows "\<exists>p. p \<noteq> Waiting \<and> (\<forall>gs.
    rq_promise (c_reqs (run_state (client_step parse stringify cfg) s (fs @ [Timeout i] @ gs)) ! i) = p)"
proof -
  let ?step = "client_step parse stringify cfg"
  have inv: "client_inv s" unfolding assms(1)
    by (rule client_machine.run_inv [OF client_inv_new]) (simp add: list_all_iff)
  let ?u = "run_state ?step s fs"
  have iu: "client_inv ?u" by (rule client_machine.run_inv [OF inv]) (simp add: list_all_iff)
  from run_reqs_le [OF inv, of parse stringify cfg fs] assms(2,3)
  have i: "i < length (c_reqs ?u)" "\<not> is_register (rq_kind (c_reqs ?u ! i))"
    by (auto simp: reqs_le_def is_register_def)
  let ?t = "req_timeout i ?u"
  have p: "rq_promise (c_reqs ?t ! i) \<noteq> Waiting" by (rule timeout_settles [OF iu i])
  have it: "client_inv ?t" using client_machine.step_inv [OF iu, where e = "Timeout i"] by simp
  have "i < length (c_reqs ?t)"
    using client_step_ok [of ?u parse stringify cfg "Timeout i"] iu i(1)
    by (auto simp: client_ok_def req_step_def client_inv_split reqs_le_def)
  with run_reqs_le [OF it] p
  have "rq_promise (c_reqs (run_state ?step ?t gs) ! i) = rq_promise (c_reqs ?t ! i)" for gs
    by (auto simp: reqs_le_def)
  moreover have "run_state ?step s (fs @ [Timeout i] @ gs) = run_state ?step ?t gs" for gs
    by (simp add: run_append del: run.simps)
  ultimately show ?thesis using p by auto
qed

lemmas client_run_defs = new_PeerClient_def join_def new_req_def msg_def set_add_def

theorem call_settles_once_witness:
  "\<exists>p. p \<noteq> Waiting \<and> (\<forall>gs. rq_promise (c_reqs (run_state
      (client_step (\<lambda>t. None) (\<lambda>v. v) \<lparr>cc_alias = ''a'', cc_meta = JObj [], cc_identityKeys = None\<rparr>)
      (fst (join ''room'' Undef Undef new_PeerClient)) ([DisconnectCall] @ [Timeout 0] @ gs)) ! 0) = p)"
  by (rule call_settles_once [where es = "[JoinCall ''room'' Undef Undef]"])
    (simp_all add: client_run_defs)

section \<open>A server error\<close>

definition waits :: "client \<Rightarrow> nat \<Rightarrow> rkind \<Rightarrow> bool" where
  "waits s i k = (rq_kind (c_reqs s ! i) = k \<and> rq_promise (c_reqs s ! i) = Waiting)"

text \<open>
  Which open calls an error message of the server fails: every \<open>createRoom\<close> and
  \<open>joinRoom\<close>, and of the calls of \<open>join\<close> (or \<open>discover\<close>) for a namespace in the
  pending set only the oldest.
\<close>

definition error_hits :: "client \<Rightarrow> nat \<Rightarrow> bool" where
  "error_hits s i = (rq_promise (c_reqs s ! i) = Waiting \<and>
     (case rq_kind (c_reqs s ! i) of
        RJoin n \<Rightarrow> n \<in> set (c_pendingJoins s) \<and> (\<forall>j<i. \<not> waits s j (RJoin n))
      | RDiscover n \<Rightarrow> n \<in> set (c_pendingDiscovers s) \<and> (\<forall>j<i. \<not> waits s j (RDiscover n))
      | RCreateRoom n \<Rightarrow> True
      | RJoinRoom n \<Rightarrow> True
      | _ \<Rightarrow> False))"

fun error_default :: "rkind \<Rightarrow> string" where
  "error_default (RJoin n) = ''join failed''"
| "error_default (RDiscover n) = ''discover failed''"
| "error_default (RCreateRoom n) = ''create_room failed''"
| "error_default (RJoinRoom n) = ''join_room failed''"
| "error_default k = []"

definition after_errors :: "js \<Rightarrow> client \<Rightarrow> nat \<Rightarrow> client \<Rightarrow> bool" where
  "after_errors e s k t = (length (c_reqs t) = length (c_reqs s) \<and>
     (\<forall>i<length (c_reqs s). c_reqs t ! i = (if i < k \<and> error_hits s i
        then closed_req (Failed (err_msg e (error_default (rq_kind (c_reqs s ! i))))) (c_reqs s ! i) else c_reqs s ! i)) \<and>
     set (c_pendingJoins t) = {n \<in> set (c_pendingJoins s). \<forall>j<k. \<not> waits s j (RJoin n)} \<and>
     set (c_pendingDiscovers t) = {n \<in> set (c_pendingDiscovers s). \<forall>j<k. \<not> waits s j (RDiscover n)})"

lemma on_error_closed:
  "on_error e i s = (if rq_live (c_reqs s ! i) \<and>
      (case rq_kind (c_reqs s ! i) of RJoin n \<Rightarrow> n \<in> set (c_pendingJoins s) | RDiscover n \<Rightarrow> n \<in> set (c_pendingDiscovers s)
       | RCreateRoom n \<Rightarrow> True | RJoinRoom n \<Rightarrow> True | _ \<Rightarrow> False)
    then (finish i (Failed (err_msg e (error_default (rq_kind (c_reqs s ! i))))) s)\<lparr>c_namespaces := c_namespaces (on_error e i s)\<rparr>
    else s)"
  by (auto simp: on_error_def settle_cleanup finish_namespaces finish_same split: rkind.split)

lemma after_errors_step:
  assumes inv: "reqs_inv s" and ae: "after_errors e s k t" and k: "k < length (c_reqs s)"
  shows "after_errors e s (Suc k) (on_error e k t)"
proof -
  let ?q = "c_reqs s ! k"
  have len: "length (c_reqs t) = length (c_reqs s)" and tk: "c_reqs t ! k = ?q"
    and J: "set (c_pendingJoins t) = {n \<in> set (c_pendingJoins s). \<forall>j<k. \<not> waits s j (RJoin n)}"
    and D: "set (c_pendingDiscovers t) = {n \<in> set (c_pendingDiscovers s). \<forall>j<k. \<not> waits s j (RDiscover n)}"
    using ae k by (simp_all add: after_errors_def)
  have ok: "req_ok (c_match s) k ?q" using inv k by (simp add: reqs_inv_def)
  have live: "rq_live ?q \<longleftrightarrow> rq_promise ?q = Waiting \<and> is_listener (rq_kind ?q)"
    using ok req_ok_listener live_is_listener by blast
  have hit: "(rq_live ?q \<and>
      (case rq_kind ?q of RJoin n \<Rightarrow> n \<in> set (c_pendingJoins t) | RDiscover n \<Rightarrow> n \<in> set (c_pendingDiscovers t)
       | RCreateRoom n \<Rightarrow> True | RJoinRoom n \<Rightarrow> True | _ \<Rightarrow> False)) = error_hits s k"
    unfolding live J D error_hits_def by (cases "rq_kind ?q") auto
  show ?thesis
  proof (cases "error_hits s k")
    case True
    let ?p = "Failed (err_msg e (error_default (rq_kind ?q)))"
    have t': "on_error e k t = (finish k ?p t)\<lparr>c_namespaces := c_namespaces (on_error e k t)\<rparr>"
      using on_error_closed [of e k t] hit True by (simp add: tk)
    have r: "c_reqs (on_error e k t) = (c_reqs t)[k := closed_req ?p ?q]" by (subst t') (simp add: tk)
    have J': "c_pendingJoins (on_error e k t) = drop_join ?q (c_pendingJoins t)"
      by (subst t') (simp add: tk finish_def)
    have D': "c_pendingDiscovers (on_error e k t) = drop_discover ?q (c_pendingDiscovers t)"
      by (subst t') (simp add: tk finish_def)
    have w: "waits s k k' \<longleftrightarrow> rq_kind ?q = k'" for k'
      using True by (auto simp: waits_def error_hits_def)
    have "set (drop_join ?q (c_pendingJoins t)) = {n \<in> set (c_pendingJoins s). \<forall>j<Suc k. \<not> waits s j (RJoin n)}"
      unfolding drop_join_def less_Suc_eq using J w by (auto split: rkind.split)
    moreover have "set (drop_discover ?q (c_pendingDiscovers t)) = {n \<in> set (c_pendingDiscovers s). \<forall>j<Suc k. \<not> waits s j (RDiscover n)}"
      unfolding drop_discover_def less_Suc_eq using D w by (auto split: rkind.split)
    moreover have "(c_reqs t)[k := closed_req ?p ?q] ! i = (if i < Suc k \<and> error_hits s i
        then closed_req (Failed (err_msg e (error_default (rq_kind (c_reqs s ! i))))) (c_reqs s ! i) else c_reqs s ! i)"
      if "i < length (c_reqs s)" for i
      using ae that k True len by (auto simp: after_errors_def nth_list_update less_Suc_eq)
    ultimately show ?thesis unfolding after_errors_def r J' D' by (simp add: len)
  next
    case False
    then have t': "on_error e k t = t" using on_error_closed [of e k t] hit by (simp add: tk)
    have "waits s k (RJoin n) \<Longrightarrow> n \<notin> set (c_pendingJoins t)" "waits s k (RDiscover n) \<Longrightarrow> n \<notin> set (c_pendingDiscovers t)" for n
      using False unfolding J D by (auto simp: error_hits_def waits_def)
    then have "set (c_pendingJoins t) = {n \<in> set (c_pendingJoins s). \<forall>j<Suc k. \<not> waits s j (RJoin n)}"
      "set (c_pendingDiscovers t) = {n \<in> set (c_pendingDiscovers s). \<forall>j<Suc k. \<not> waits s j (RDiscover n)}"
      unfolding less_Suc_eq using J D by (blast, blast)
    with ae False show ?thesis unfolding t' after_errors_def by (auto simp: less_Suc_eq)
  qed
qed

lemma after_errors_all:
  assumes "reqs_inv s" "k \<le> length (c_reqs s)"
  shows "after_errors e s k (fold (on_error e) [0..<k] s)"
  using assms(2)
proof (induction k)
  case 0
  then show ?case by (simp add: after_errors_def)
next
  case (Suc k)
  then show ?case using after_errors_step [OF assms(1), of e k "fold (on_error e) [0..<k] s"] by simp
qed


definition error_demo :: client where
  "error_demo = fst (join ''a'' Undef Undef (fst (joinRoom ''b'' (fst (join ''a'' Undef Undef new_PeerClient)))))"

lemma error_demo_run:
  "error_demo = run_state (client_step parse stringify cfg) new_PeerClient
     [JoinCall ''a'' Undef Undef, JoinRoomCall ''b'', JoinCall ''a'' Undef Undef]"
  by (simp add: error_demo_def split_def Let_def)


section \<open>Disconnecting and interrupted peers\<close>

text \<open>
  C18. \<open>disconnect\<close> empties the tables, closes every peer in the map and rejects every open
  match and the registration with \<open>Disconnected\<close>; but it leaves open calls of the other
  methods, which only their timeouts end.
\<close>

theorem disconnect_effect:
  assumes "client_inv s" "t = fst (client_step parse stringify cfg s DisconnectCall)"
  shows "c_peers t = [] \<and> c_namespaces t = [] \<and> c_match t = [] \<and> c_register t = None
    \<and> (\<forall>fp r. map_get (c_peers s) fp = Some r \<longrightarrow> cp_closed (c_heap t ! r))
    \<and> (\<forall>i<length (c_reqs s). rq_promise (c_reqs s ! i) = Waiting \<longrightarrow>
         rq_promise (c_reqs t ! i) =
           (if (\<exists>n. rq_kind (c_reqs s ! i) = RMatch n) \<or> c_register s = Some i
            then Failed (JStr ''Disconnected'') else Waiting))"
proof -
  let ?u = "(fst (close_all (map_vals (c_peers s)) s))\<lparr>c_peers := [], c_namespaces := []\<rparr>"
  let ?v = "fail_reqs (Failed (JStr ''Disconnected'')) (map_vals (c_match s)) ?u"
  have t: "t = reject_register (JStr ''Disconnected'') (?v\<lparr>c_match := []\<rparr>)"
    using assms(2) disconnect_state by simp
  have u: "c_reqs ?u = c_reqs s" "c_register ?u = c_register s" using close_all_ok(1) [of s] by (simp_all add: same_reqs_def)
  have inv: "reqs_inv s" "match_inv s" "register_inv s" "peers_inv s"
    using assms(1) by (simp_all add: client_inv_def)
  have heap: "c_heap t = c_heap (fst (close_all (map_vals (c_peers s)) s))"
    by (simp add: t reject_register_def settle_req_def split: option.split)
  have "cp_closed (c_heap t ! r)" if "map_get (c_peers s) fp = Some r" for fp r
    using inv(4) that unfolding heap
    by (intro close_all_closed) (auto simp: peers_inv_def dest: map_of_SomeD intro!: image_eqI [of _ snd "(fp, r)"])
  moreover have "rq_promise (c_reqs t ! i) =
      (if (\<exists>n. rq_kind (c_reqs s ! i) = RMatch n) \<or> c_register s = Some i then Failed (JStr ''Disconnected'') else Waiting)"
    if i: "i < length (c_reqs s)" "rq_promise (c_reqs s ! i) = Waiting" for i
  proof -
    have mt: "i \<in> set (map_vals (c_match s)) \<longleftrightarrow> (\<exists>n. rq_kind (c_reqs s ! i) = RMatch n)"
      using match_vals [OF inv(2)] inv(1,2) i by (fastforce simp: reqs_inv_def req_ok_def match_inv_def)
    have v: "c_reqs ?v ! i = (if \<exists>n. rq_kind (c_reqs s ! i) = RMatch n
        then closed_req (Failed (JStr ''Disconnected'')) (c_reqs s ! i) else c_reqs s ! i)"
      "length (c_reqs ?v) = length (c_reqs s)"
      using fail_reqs_nth [of "Failed (JStr ''Disconnected'')" "map_vals (c_match s)" ?u] i u mt by simp_all
    have "c_register s = Some i \<Longrightarrow> \<not> (\<exists>n. rq_kind (c_reqs s ! i) = RMatch n)"
      using inv(3) by (auto simp: register_inv_def waiting_register_def is_register_def)
    then show ?thesis using i v u(2)
      by (cases "c_register s = Some i"; cases "c_register s")
        (simp_all add: t reject_register_def settle_req_def)
  qed
  ultimately show ?thesis by (auto simp: t reject_register_def settle_req_def split: option.split)
qed

abbreviation demo_cfg :: client_config where
  "demo_cfg \<equiv> \<lparr>cc_alias = ''a'', cc_meta = Null, cc_identityKeys = None\<rparr>"

abbreviation demo_step :: "client \<Rightarrow> client_event \<Rightarrow> client \<times> client_out list" where
  "demo_step \<equiv> client_step (\<lambda>t. None) (\<lambda>v. v) demo_cfg"

definition disconnect_demo :: client where
  "disconnect_demo = fst (cl_match ''b'' Null Null (fst (join ''a'' Undef Undef new_PeerClient)))"

theorem disconnect_effect_witness:
  "rq_promise (c_reqs (fst (demo_step disconnect_demo DisconnectCall)) ! 0) = Waiting
   \<and> rq_promise (c_reqs (fst (demo_step disconnect_demo DisconnectCall)) ! 1) = Failed (JStr ''Disconnected'')"
proof -
  have run: "disconnect_demo = run_state demo_step new_PeerClient [JoinCall ''a'' Undef Undef, MatchCall ''b'' Null Null]"
    by (simp add: disconnect_demo_def split_def Let_def)
  have inv: "client_inv disconnect_demo" unfolding run
    by (rule client_machine.run_inv [OF client_inv_new]) (simp add: list_all_iff)
  have reqs: "c_reqs disconnect_demo =
      [\<lparr>rq_kind = RJoin ''a'', rq_promise = Waiting, rq_timer = True, rq_live = True\<rparr>,
       \<lparr>rq_kind = RMatch ''b'', rq_promise = Waiting, rq_timer = True, rq_live = False\<rparr>]"
    "c_register disconnect_demo = None"
    by (simp_all add: disconnect_demo_def join_def cl_match_def drop_match_def new_req_def new_PeerClient_def Let_def)
  from disconnect_effect [OF inv refl, of "\<lambda>t. None" "\<lambda>v. v" demo_cfg]
  have all: "\<forall>i<length (c_reqs disconnect_demo). rq_promise (c_reqs disconnect_demo ! i) = Waiting \<longrightarrow>
         rq_promise (c_reqs (fst (demo_step disconnect_demo DisconnectCall)) ! i) =
           (if (\<exists>n. rq_kind (c_reqs disconnect_demo ! i) = RMatch n) \<or> c_register disconnect_demo = Some i
            then Failed (JStr ''Disconnected'') else Waiting)" by blast
  from spec [OF all, of 0] spec [OF all, of 1] show ?thesis by (simp add: reqs)
qed

lemma orphan_untouched:
  assumes "peers_inv s" "map_get (c_peers s) (cp_fp (c_heap s ! r)) = None"
  shows "cp_closed (c_heap (fst (disconnect s)) ! r) = cp_closed (c_heap s ! r)"
proof -
  have "r \<notin> set (map_vals (c_peers s))"
    using assms by (auto simp: peers_inv_def map_wf_get_iff)
  moreover have "r \<notin> set rs \<Longrightarrow> c_heap (fst (close_all rs u)) ! r = c_heap u ! r" for rs u
    by (induction rs arbitrary: u) (auto simp: Let_def split_def peer_close_def)
  ultimately show ?thesis
    by (auto simp: disconnect_state reject_register_def settle_req_def split: option.split)
qed

text \<open>
  C19. An interrupted connection orphans its peer.  When the connection of an open peer reports
  \<open>disconnected\<close>, a state WebRTC may recover from, the client forgets the peer without closing
  it.  The next signal of the same remote makes a second peer, and when the first connection then
  fails, its listener removes the second peer from the map: both are open, neither is in the map,
  and \<open>disconnect\<close> closes neither.
\<close>

theorem interrupted_peer_orphaned:
  assumes inv: "client_inv s" and r: "map_get (c_peers s) fp = Some r" "\<not> cp_closed (c_heap s ! r)"
    and m: "sm_type m = ''signal''" "sm_from m = Some fp"
    and t: "t = run_state (client_step parse stringify cfg) s
      [PeerState r ''disconnected'', TransportMessage m, PeerState r ''failed'']"
  shows "\<exists>r'. r' \<noteq> r \<and> cp_fp (c_heap t ! r') = fp \<and> map_get (c_peers t) fp = None
    \<and> (\<forall>q\<in>{r, r'}. q < length (c_heap t) \<and> \<not> cp_closed (c_heap t ! q)
         \<and> \<not> cp_closed (c_heap (fst (client_step parse stringify cfg t DisconnectCall)) ! q))"
proof -
  let ?r' = "length (c_heap s)"
  have rfp: "r < ?r'" "cp_fp (c_heap s ! r) = fp" using inv r(1) by (auto simp: client_inv_def peers_inv_def)
  have noinfo: "on_room_info parse m j u = u" for j u by (simp add: on_room_info_def m(1))
  have noinfos: "fold (on_room_info parse m) js u = u" for js u by (induction js arbitrary: u) (simp_all add: noinfo)
  let ?s1 = "peer_state r ''disconnected'' s"
  have s1: "map_get (c_peers ?s1) fp = None" "length (c_heap ?s1) = ?r'" "c_heap ?s1 ! r = (c_heap s ! r)\<lparr>cp_state := ''disconnected''\<rparr>"
    using rfp r(2) by (simp_all add: peer_state_def Let_def)
  let ?s2 = "fst (client_step parse stringify cfg ?s1 (TransportMessage m))"
  have s2: "c_heap ?s2 = c_heap ?s1 @ [\<lparr>cp_fp = fp, cp_alias = [], cp_closed = False, cp_state = ''new''\<rparr>]"
    by (simp add: on_message_def handleMessage_def m on_signal_def createPeer_def s1 noinfos each_req_def Let_def)
  have t3: "t = peer_state r ''failed'' ?s2" unfolding t by (simp del: run.simps(2))
  have ht: "c_heap t ! ?r' = \<lparr>cp_fp = fp, cp_alias = [], cp_closed = False, cp_state = ''new''\<rparr>"
    "cp_fp (c_heap t ! r) = fp" "\<not> cp_closed (c_heap t ! r)" "length (c_heap t) = Suc ?r'"
    unfolding t3 using rfp r(2) s1 s2 by (simp_all add: peer_state_def Let_def nth_append)
  have none: "map_get (c_peers t) fp = None"
    unfolding t3 using rfp r(2) s1 s2 by (simp add: peer_state_def Let_def nth_append)
  have "client_inv t" unfolding t
    by (rule client_machine.run_inv [OF inv]) (simp add: list_all_iff)
  then have pt: "peers_inv t" by (simp add: client_inv_def)
  have "\<not> cp_closed (c_heap (fst (client_step parse stringify cfg t DisconnectCall)) ! q)" if "q \<in> {r, ?r'}" for q
    using orphan_untouched [OF pt, of q] that none ht by auto
  then show ?thesis using ht none rfp by (intro exI [of _ ?r']) auto
qed

definition orphan_demo :: client where
  "orphan_demo = run_state demo_step new_PeerClient [ConnectToPeer ''bob'' []]"

theorem interrupted_peer_orphaned_witness:
  "map_get (c_peers (run_state demo_step orphan_demo [PeerState 0 ''disconnected'',
      TransportMessage \<lparr>sm_type = ''signal'', sm_from = Some ''bob'', sm_to = None, sm_namespace = None, sm_payload = Undef\<rparr>,
      PeerState 0 ''failed''])) ''bob'' = None"
proof -
  have "client_inv orphan_demo" unfolding orphan_demo_def
    by (rule client_machine.run_inv [OF client_inv_new]) (simp add: list_all_iff)
  moreover have "map_get (c_peers orphan_demo) ''bob'' = Some 0" "\<not> cp_closed (c_heap orphan_demo ! 0)"
    by (simp_all add: orphan_demo_def connectToPeer_def createPeer_def new_PeerClient_def Let_def)
  ultimately show ?thesis
    using interrupted_peer_orphaned [of orphan_demo "''bob''" 0
        "\<lparr>sm_type = ''signal'', sm_from = Some ''bob'', sm_to = None, sm_namespace = None, sm_payload = Undef\<rparr>",
        OF _ _ _ _ _ refl, of "\<lambda>t. None" "\<lambda>v. v" demo_cfg] by (auto simp del: run.simps)
qed

end
