(* ===== verification/Room.thy ===== *)
theory Room
  imports Client_Props
begin

text \<open>
  The classes \<open>DirectRoom\<close> and \<open>GroupRoom\<close> of packages/peer-client/src/room.ts and
  \<open>JSONTransfer\<close> of transfer.ts, composed with the model of the client they are built on: a
  room's state is paired with the client's, its methods call the client's, and its listeners run
  on what the client emits.  Whether a peer's \<open>send\<close> returns is the argument
  \<open>ok\<close> of the methods that call it.  Fingerprints, aliases and namespaces are strings, as
  the interfaces declare them; an ill-typed value has no effect.
\<close>

section \<open>Shared by both rooms\<close>

datatype room_out =
    OfClient client_out
  | RoomEmit string "js list"
  | PeerSend nat js
  | PeerSendOn nat string js

definition str_prop :: "js \<Rightarrow> string \<Rightarrow> string option" where
  "str_prop v k = (case prop_opt v k of JStr t \<Rightarrow> Some t | _ \<Rightarrow> None)"

definition peer_entry :: "js \<Rightarrow> (string \<times> string) option" where
  "peer_entry v = (case (str_prop v ''fingerprint'', prop_opt v ''alias'') of
      (Some fp, JStr al) \<Rightarrow> Some (fp, al) | (Some fp, Undef) \<Rightarrow> Some (fp, []) | _ \<Rightarrow> None)"

text \<open>The list a call of \<open>joinRoom\<close> resolves with.\<close>

definition peer_entries :: "js \<Rightarrow> (string \<times> string) list" where
  "peer_entries v = (case v of JArr xs \<Rightarrow> List.map_filter peer_entry xs | _ \<Rightarrow> [])"

text \<open>The getter \<open>connectionState\<close> of a peer.\<close>

definition connectionState :: "nat \<Rightarrow> client \<Rightarrow> string" where
  "connectionState r c = (if cp_closed (c_heap c ! r) then ''closed'' else cp_state (c_heap c ! r))"

definition room_payload :: "string \<Rightarrow> js \<Rightarrow> js" where
  "room_payload room d = JObj [(''_room'', JStr room), (''data'', d)]"

definition other_than :: "client \<Rightarrow> string \<times> string \<Rightarrow> bool" where
  "other_than c p = (JStr (fst p) \<noteq> c_fp c)"

section \<open>\<open>GroupRoom\<close>\<close>

record group_room =
  gr_id :: string
  gr_maxSize :: int
  gr_connected :: "(string, nat) jsmap"
  gr_relay :: "string list"
  gr_closed :: bool
  gr_listens :: nat                      \<comment> \<open>times the listeners are attached to the client\<close>
  gr_awaits :: "(nat \<times> bool) list"       \<comment> \<open>requests awaited by \<open>create\<close> and \<open>join\<close>\<close>
  gr_subs :: "(nat \<times> string) list"       \<comment> \<open>listeners attached to peers\<close>

type_synonym gsys = "client \<times> group_room"

definition new_GroupRoom :: "string \<Rightarrow> int \<Rightarrow> group_room" where
  "new_GroupRoom room mx = \<lparr>gr_id = room, gr_maxSize = min mx (int MAX_GROUP_SIZE), gr_connected = [], gr_relay = [],
     gr_closed = False, gr_listens = 0, gr_awaits = [], gr_subs = []\<rparr>"

definition gr_attach :: "string \<Rightarrow> string \<Rightarrow> gsys \<Rightarrow> gsys \<times> room_out list" where
  "gr_attach fp al = (\<lambda>(c, g).
     (let (c1, r, out) = connectToPeer fp al c
      in ((c1, g\<lparr>gr_connected := map_set fp r (gr_connected g), gr_subs := gr_subs g @ [(r, fp)]\<rparr>), map OfClient out)))"

definition gr_connectTo :: "string \<Rightarrow> string \<Rightarrow> gsys \<Rightarrow> gsys \<times> room_out list" where
  "gr_connectTo fp al = (\<lambda>(c, g).
     (if map_has (gr_connected g) fp \<or> fp \<in> set (gr_relay g) then ((c, g), [])
      else if length (gr_connected g) \<ge> RELAY_THRESHOLD then ((c, g\<lparr>gr_relay := set_add fp (gr_relay g)\<rparr>), [])
      else gr_attach fp al (c, g)))"

definition gr_promote_one :: "string \<Rightarrow> gsys \<Rightarrow> gsys \<times> room_out list" where
  "gr_promote_one fp = (\<lambda>(c, g). gr_attach fp [] (c, g\<lparr>gr_relay := set_del fp (gr_relay g)\<rparr>))"

definition promoteRelayPeers :: "gsys \<Rightarrow> gsys \<times> room_out list" where
  "promoteRelayPeers = (\<lambda>(c, g).
     (if length (gr_connected g) \<ge> RELAY_THRESHOLD then ((c, g), [])
      else each gr_promote_one (take (RELAY_THRESHOLD - length (gr_connected g)) (gr_relay g)) (c, g)))"

text \<open>The listener each connected peer's \<open>disconnected\<close> event runs.\<close>

definition gr_demote :: "string \<Rightarrow> group_room \<Rightarrow> group_room" where
  "gr_demote fp g = g\<lparr>gr_connected := map_del fp (gr_connected g), gr_relay := set_add fp (gr_relay g)\<rparr>"

definition gr_close :: "gsys \<Rightarrow> gsys \<times> room_out list" where
  "gr_close = (\<lambda>(c, g).
     (if gr_closed g then ((c, g), [])
      else (let (c1, o1) = close_all (map_vals (gr_connected g)) c; (c2, o2) = leave (gr_id g) c1
            in ((c2, g\<lparr>gr_closed := True, gr_listens := 0, gr_connected := [], gr_relay := []\<rparr>),
                map OfClient (o1 @ o2) @ [RoomEmit ''closed'' []]))))"

text \<open>The listeners of \<open>listen\<close>.\<close>

definition gr_onJoined :: "js \<Rightarrow> gsys \<Rightarrow> gsys \<times> room_out list" where
  "gr_onJoined info = (\<lambda>(c, g).
     (if prop_opt info ''namespace'' \<noteq> Undef \<and> prop_opt info ''namespace'' \<noteq> JStr (gr_id g) then ((c, g), [])
      else (let (s, out) = (case peer_entry info of None \<Rightarrow> ((c, g), []) | Some (fp, al) \<Rightarrow> gr_connectTo fp al (c, g))
            in (s, RoomEmit ''peer_joined'' [info] # out))))"

definition gr_onLeft :: "js \<Rightarrow> js \<Rightarrow> gsys \<Rightarrow> gsys \<times> room_out list" where
  "gr_onLeft fp ns = (\<lambda>(c, g).
     (if ns \<noteq> Undef \<and> ns \<noteq> JStr (gr_id g) then ((c, g), [])
      else (let g1 = g\<lparr>gr_connected := js_del fp (gr_connected g), gr_relay := js_set_del fp (gr_relay g)\<rparr>;
                (s, out) = (if js_get (gr_connected g) fp \<noteq> None then promoteRelayPeers (c, g1) else ((c, g1), []))
            in (s, out @ [RoomEmit ''peer_left'' [fp]]))))"

definition gr_onRelay :: "js \<Rightarrow> js \<Rightarrow> gsys \<Rightarrow> gsys \<times> room_out list" where
  "gr_onRelay frm payload = (\<lambda>(c, g).
     ((c, g), if prop_opt payload ''_room'' = JStr (gr_id g) then [RoomEmit ''data'' [prop_opt payload ''data'', frm]] else []))"

definition gr_onBroadcast :: "js \<Rightarrow> js \<Rightarrow> js \<Rightarrow> gsys \<Rightarrow> gsys \<times> room_out list" where
  "gr_onBroadcast frm ns payload = (\<lambda>(c, g).
     ((c, g), if ns = JStr (gr_id g) then [RoomEmit ''data'' [payload, frm]] else []))"

definition gr_onKicked :: "js \<Rightarrow> gsys \<Rightarrow> gsys \<times> room_out list" where
  "gr_onKicked payload = (\<lambda>(c, g).
     (if prop_opt payload ''room_id'' = JStr (gr_id g) then gr_close (c, g) else ((c, g), [])))"

definition gr_listener :: "client_out \<Rightarrow> gsys \<Rightarrow> gsys \<times> room_out list" where
  "gr_listener out = (case out of
      Emit ev args \<Rightarrow>
        (if ev = ''peer_joined'' then (case args of [info] \<Rightarrow> gr_onJoined info | _ \<Rightarrow> (\<lambda>s. (s, [])))
         else if ev = ''peer_left'' then (case args of [fp, ns] \<Rightarrow> gr_onLeft fp ns | _ \<Rightarrow> (\<lambda>s. (s, [])))
         else if ev = ''relay'' then (case args of [frm, p] \<Rightarrow> gr_onRelay frm p | _ \<Rightarrow> (\<lambda>s. (s, [])))
         else if ev = ''broadcast'' then (case args of [frm, ns, p] \<Rightarrow> gr_onBroadcast frm ns p | _ \<Rightarrow> (\<lambda>s. (s, [])))
         else if ev = ''kicked'' then (case args of [p] \<Rightarrow> gr_onKicked p | _ \<Rightarrow> (\<lambda>s. (s, [])))
         else (\<lambda>s. (s, [])))
    | _ \<Rightarrow> (\<lambda>s. (s, [])))"

text \<open>What the client does, then the room's listeners, attached \<open>gr_listens\<close> times.\<close>

definition gr_dispatch :: "client_out \<Rightarrow> gsys \<Rightarrow> gsys \<times> room_out list" where
  "gr_dispatch out s = (let (s1, o1) = times (gr_listens (snd s)) (gr_listener out) s in (s1, OfClient out # o1))"

text \<open>The continuations of \<open>create\<close> and \<open>join\<close> once their request is settled.\<close>

definition gr_resume :: "nat \<Rightarrow> gsys \<Rightarrow> gsys \<times> room_out list" where
  "gr_resume i = (\<lambda>(c, g).
     (case map_get (gr_awaits g) i of
        None \<Rightarrow> ((c, g), [])
      | Some isJoin \<Rightarrow>
          (let g1 = g\<lparr>gr_awaits := map_del i (gr_awaits g)\<rparr> in
           case rq_promise (c_reqs c ! i) of
             Waiting \<Rightarrow> ((c, g), [])
           | Failed e \<Rightarrow> ((c, g1), [])
           | Fulfilled v \<Rightarrow>
               (let g2 = g1\<lparr>gr_listens := Suc (gr_listens g1)\<rparr> in
                if isJoin then each (\<lambda>(fp, al). gr_connectTo fp al) (filter (other_than c) (peer_entries v)) (c, g2)
                else ((c, g2), [])))))"

definition gr_create :: "gsys \<Rightarrow> gsys \<times> room_out list" where
  "gr_create = (\<lambda>(c, g).
     (let (c1, out) = createRoom (gr_id g) (JNum (gr_maxSize g)) c
      in ((c1, g\<lparr>gr_awaits := map_set (length (c_reqs c)) False (gr_awaits g)\<rparr>), map OfClient out)))"

definition gr_join :: "gsys \<Rightarrow> gsys \<times> room_out list" where
  "gr_join = (\<lambda>(c, g).
     (let (c1, out) = joinRoom (gr_id g) c
      in ((c1, g\<lparr>gr_awaits := map_set (length (c_reqs c)) True (gr_awaits g)\<rparr>), map OfClient out)))"

definition gr_relay_to :: "group_room \<Rightarrow> js \<Rightarrow> string \<Rightarrow> room_out list" where
  "gr_relay_to g d fp = map OfClient (relay fp (room_payload (gr_id g) d))"

definition gr_send_one :: "(nat \<Rightarrow> bool) \<Rightarrow> client \<Rightarrow> group_room \<Rightarrow> js \<Rightarrow> string \<times> nat \<Rightarrow> room_out list" where
  "gr_send_one ok c g d e =
     (if connectionState (snd e) c = ''connected'' \<and> ok (snd e) then [PeerSend (snd e) d] else gr_relay_to g d (fst e))"

definition gr_send :: "(nat \<Rightarrow> bool) \<Rightarrow> js \<Rightarrow> string option \<Rightarrow> gsys \<Rightarrow> room_out list" where
  "gr_send ok d dest = (\<lambda>(c, g).
     (if gr_closed g then []
      else case dest of
        Some fp \<Rightarrow>
          if fp = [] then concat (map (gr_send_one ok c g d) (gr_connected g)) @ concat (map (gr_relay_to g d) (gr_relay g))
          else (case map_get (gr_connected g) fp of
                  Some r \<Rightarrow> gr_send_one ok c g d (fp, r)
                | None \<Rightarrow> gr_relay_to g d fp)
      | None \<Rightarrow> concat (map (gr_send_one ok c g d) (gr_connected g)) @ concat (map (gr_relay_to g d) (gr_relay g))))"

definition getPeerCount :: "group_room \<Rightarrow> nat" where
  "getPeerCount g = length (gr_connected g) + length (gr_relay g)"

text \<open>Events of a peer reach the listeners the room attached to it, while the peer is open.\<close>

definition gr_peer_subs :: "nat \<Rightarrow> gsys \<Rightarrow> string list" where
  "gr_peer_subs r = (\<lambda>(c, g). if r < length (c_heap c) \<and> \<not> cp_closed (c_heap c ! r)
     then map snd (filter (\<lambda>e. fst e = r) (gr_subs g)) else [])"

datatype gr_event =
    GClient client_event
  | GCreate
  | GJoin
  | GResume nat
  | GSend js "string option" "nat \<Rightarrow> bool"
  | GBroadcast js
  | GKick string
  | GPeerData nat js
  | GClose

fun gr_step ::
  "(string \<Rightarrow> js option) \<Rightarrow> (js \<Rightarrow> js) \<Rightarrow> client_config \<Rightarrow> gsys \<Rightarrow> gr_event \<Rightarrow> gsys \<times> room_out list" where
  "gr_step parse stringify cfg (c, g) (GClient (PeerState r st)) =
     (let fps = gr_peer_subs r (c, g); c1 = peer_state r st c in
      if st = ''connected'' then ((c1, g), map (\<lambda>fp. RoomEmit ''peer_connected'' [JStr fp]) fps)
      else if st \<in> {''disconnected'', ''failed'', ''closed''} then ((c1, fold gr_demote fps g), [])
      else ((c1, g), []))"
| "gr_step parse stringify cfg (c, g) (GClient e) =
     (let (c1, out) = client_step parse stringify cfg c e in each gr_dispatch out (c1, g))"
| "gr_step parse stringify cfg s GCreate = gr_create s"
| "gr_step parse stringify cfg s GJoin = gr_join s"
| "gr_step parse stringify cfg s (GResume i) = gr_resume i s"
| "gr_step parse stringify cfg s (GSend d dest ok) = (s, gr_send ok d dest s)"
| "gr_step parse stringify cfg (c, g) (GBroadcast d) = ((c, g), map OfClient (broadcast (gr_id g) d))"
| "gr_step parse stringify cfg (c, g) (GKick fp) = ((c, g), map OfClient (kick (gr_id g) fp))"
| "gr_step parse stringify cfg s (GPeerData r d) = (s, map (\<lambda>fp. RoomEmit ''data'' [d, JStr fp]) (gr_peer_subs r s))"
| "gr_step parse stringify cfg s GClose = gr_close s"

section \<open>\<open>DirectRoom\<close>\<close>

record direct_room =
  dr_id :: string
  dr_remote :: "nat option"              \<comment> \<open>\<open>remotePeer\<close>\<close>
  dr_fp :: string                        \<comment> \<open>\<open>remoteFingerprint\<close>\<close>
  dr_closed :: bool
  dr_listens :: nat
  dr_awaits :: "(nat \<times> bool) list"
  dr_subs :: "(nat \<times> string) list"

type_synonym dsys = "client \<times> direct_room"

definition new_DirectRoom :: "string \<Rightarrow> direct_room" where
  "new_DirectRoom room = \<lparr>dr_id = room, dr_remote = None, dr_fp = [], dr_closed = False, dr_listens = 0,
     dr_awaits = [], dr_subs = []\<rparr>"

definition dr_connectTo :: "string \<Rightarrow> string \<Rightarrow> dsys \<Rightarrow> dsys \<times> room_out list" where
  "dr_connectTo fp al = (\<lambda>(c, g).
     (let (c1, r, out) = connectToPeer fp al c
      in ((c1, g\<lparr>dr_fp := fp, dr_remote := Some r, dr_subs := dr_subs g @ [(r, fp)]\<rparr>), map OfClient out)))"

definition dr_create :: "dsys \<Rightarrow> dsys \<times> room_out list" where
  "dr_create = (\<lambda>(c, g).
     (let (c1, out) = createRoom (dr_id g) (JNum 2) c
      in ((c1, g\<lparr>dr_awaits := map_set (length (c_reqs c)) False (dr_awaits g)\<rparr>), map OfClient out)))"

definition dr_join :: "dsys \<Rightarrow> dsys \<times> room_out list" where
  "dr_join = (\<lambda>(c, g).
     (let (c1, out) = joinRoom (dr_id g) c
      in ((c1, g\<lparr>dr_awaits := map_set (length (c_reqs c)) True (dr_awaits g)\<rparr>), map OfClient out)))"

definition dr_resume :: "nat \<Rightarrow> dsys \<Rightarrow> dsys \<times> room_out list" where
  "dr_resume i = (\<lambda>(c, g).
     (case map_get (dr_awaits g) i of
        None \<Rightarrow> ((c, g), [])
      | Some isJoin \<Rightarrow>
          (let g1 = g\<lparr>dr_awaits := map_del i (dr_awaits g)\<rparr> in
           case rq_promise (c_reqs c ! i) of
             Waiting \<Rightarrow> ((c, g), [])
           | Failed e \<Rightarrow> ((c, g1), [])
           | Fulfilled v \<Rightarrow>
               (let g2 = g1\<lparr>dr_listens := Suc (dr_listens g1)\<rparr> in
                if isJoin then (case find (other_than c) (peer_entries v) of
                                  None \<Rightarrow> ((c, g2), [])
                                | Some (fp, al) \<Rightarrow> dr_connectTo fp al (c, g2))
                else ((c, g2), [])))))"

definition dr_close :: "dsys \<Rightarrow> dsys \<times> room_out list" where
  "dr_close = (\<lambda>(c, g).
     (if dr_closed g then ((c, g), [])
      else (let (c1, o1) = (case dr_remote g of None \<Rightarrow> (c, []) | Some r \<Rightarrow> peer_close r c);
                (c2, o2) = leave (dr_id g) c1
            in ((c2, g\<lparr>dr_closed := True, dr_listens := 0\<rparr>), map OfClient (o1 @ o2) @ [RoomEmit ''closed'' []]))))"

definition dr_onJoined :: "js \<Rightarrow> dsys \<Rightarrow> dsys \<times> room_out list" where
  "dr_onJoined info = (\<lambda>(c, g).
     (if prop_opt info ''namespace'' \<noteq> Undef \<and> prop_opt info ''namespace'' \<noteq> JStr (dr_id g) then ((c, g), [])
      else (let (s, out) = (case (dr_remote g, peer_entry info) of
                              (None, Some (fp, al)) \<Rightarrow> dr_connectTo fp al (c, g) | _ \<Rightarrow> ((c, g), []))
            in (s, RoomEmit ''peer_joined'' [info] # out))))"

definition dr_onLeft :: "js \<Rightarrow> js \<Rightarrow> dsys \<Rightarrow> dsys \<times> room_out list" where
  "dr_onLeft fp ns = (\<lambda>(c, g).
     (if ns \<noteq> Undef \<and> ns \<noteq> JStr (dr_id g) then ((c, g), [])
      else if fp = JStr (dr_fp g) then ((c, g\<lparr>dr_remote := None, dr_fp := []\<rparr>), [RoomEmit ''peer_left'' [fp]])
      else ((c, g), [])))"

definition dr_onRelay :: "js \<Rightarrow> js \<Rightarrow> dsys \<Rightarrow> dsys \<times> room_out list" where
  "dr_onRelay frm payload = (\<lambda>(c, g).
     ((c, g), if frm = JStr (dr_fp g) \<and> prop_opt payload ''_room'' = JStr (dr_id g)
              then [RoomEmit ''data'' [prop_opt payload ''data'', frm]] else []))"

definition dr_onKicked :: "js \<Rightarrow> dsys \<Rightarrow> dsys \<times> room_out list" where
  "dr_onKicked payload = (\<lambda>(c, g).
     (if prop_opt payload ''room_id'' = JStr (dr_id g) then dr_close (c, g) else ((c, g), [])))"

definition dr_listener :: "client_out \<Rightarrow> dsys \<Rightarrow> dsys \<times> room_out list" where
  "dr_listener out = (case out of
      Emit ev args \<Rightarrow>
        (if ev = ''peer_joined'' then (case args of [info] \<Rightarrow> dr_onJoined info | _ \<Rightarrow> (\<lambda>s. (s, [])))
         else if ev = ''peer_left'' then (case args of [fp, ns] \<Rightarrow> dr_onLeft fp ns | _ \<Rightarrow> (\<lambda>s. (s, [])))
         else if ev = ''relay'' then (case args of [frm, p] \<Rightarrow> dr_onRelay frm p | _ \<Rightarrow> (\<lambda>s. (s, [])))
         else if ev = ''kicked'' then (case args of [p] \<Rightarrow> dr_onKicked p | _ \<Rightarrow> (\<lambda>s. (s, [])))
         else (\<lambda>s. (s, [])))
    | _ \<Rightarrow> (\<lambda>s. (s, [])))"

definition dr_dispatch :: "client_out \<Rightarrow> dsys \<Rightarrow> dsys \<times> room_out list" where
  "dr_dispatch out s = (let (s1, o1) = times (dr_listens (snd s)) (dr_listener out) s in (s1, OfClient out # o1))"

definition dr_send :: "(nat \<Rightarrow> bool) \<Rightarrow> js \<Rightarrow> dsys \<Rightarrow> room_out list" where
  "dr_send ok d = (\<lambda>(c, g).
     (let via_server = (if dr_fp g \<noteq> [] then map OfClient (relay (dr_fp g) (room_payload (dr_id g) d)) else []) in
      if dr_closed g then []
      else case dr_remote g of
        Some r \<Rightarrow> if connectionState r c = ''connected'' \<and> ok r then [PeerSend r d] else via_server
      | None \<Rightarrow> via_server))"

definition dr_peer_subs :: "nat \<Rightarrow> dsys \<Rightarrow> string list" where
  "dr_peer_subs r = (\<lambda>(c, g). if r < length (c_heap c) \<and> \<not> cp_closed (c_heap c ! r)
     then map snd (filter (\<lambda>e. fst e = r) (dr_subs g)) else [])"

datatype dr_event =
    DClient client_event
  | DCreate
  | DJoin
  | DResume nat
  | DSend js "nat \<Rightarrow> bool"
  | DPeerData nat js
  | DClose

fun dr_step ::
  "(string \<Rightarrow> js option) \<Rightarrow> (js \<Rightarrow> js) \<Rightarrow> client_config \<Rightarrow> dsys \<Rightarrow> dr_event \<Rightarrow> dsys \<times> room_out list" where
  "dr_step parse stringify cfg (c, g) (DClient (PeerState r st)) =
     (let fps = dr_peer_subs r (c, g); c1 = peer_state r st c in
      ((c1, g), if st = ''connected'' then map (\<lambda>fp. RoomEmit ''peer_connected'' [JStr fp]) fps
                else if st \<in> {''disconnected'', ''failed'', ''closed''} then map (\<lambda>fp. RoomEmit ''peer_left'' [JStr fp]) fps
                else []))"
| "dr_step parse stringify cfg (c, g) (DClient e) =
     (let (c1, out) = client_step parse stringify cfg c e in each dr_dispatch out (c1, g))"
| "dr_step parse stringify cfg s DCreate = dr_create s"
| "dr_step parse stringify cfg s DJoin = dr_join s"
| "dr_step parse stringify cfg s (DResume i) = dr_resume i s"
| "dr_step parse stringify cfg s (DSend d ok) = (s, dr_send ok d s)"
| "dr_step parse stringify cfg s (DPeerData r d) = (s, map (\<lambda>fp. RoomEmit ''data'' [d, JStr fp]) (dr_peer_subs r s))"
| "dr_step parse stringify cfg s DClose = dr_close s"

section \<open>\<open>JSONTransfer\<close>\<close>

definition json_payload :: "js \<Rightarrow> js" where
  "json_payload d = JObj [(''_json_transfer'', JBool True), (''data'', d)]"

definition sendToPeer :: "(nat \<Rightarrow> bool) \<Rightarrow> string \<Rightarrow> js \<Rightarrow> string \<Rightarrow> client \<Rightarrow> room_out list" where
  "sendToPeer ok fp d channel c =
     (let via_server = map OfClient (relay fp (json_payload d)) in
      case map_get (c_peers c) fp of
        Some r \<Rightarrow> if connectionState r c = ''connected'' \<and> ok r then [PeerSendOn r channel (json_payload d)] else via_server
      | None \<Rightarrow> via_server)"

definition sendToRoom :: "string \<Rightarrow> js \<Rightarrow> room_out list" where
  "sendToRoom room d = map OfClient (broadcast room (json_payload d))"

text \<open>The listeners: what the callback is called with, if it is called.\<close>

definition onReceive :: "string \<Rightarrow> js \<Rightarrow> (js \<times> js) option" where
  "onReceive fp raw = (if truthy (prop_opt raw ''_json_transfer'') then Some (prop_opt raw ''data'', JStr fp) else None)"

definition onRelayReceive :: "client_out \<Rightarrow> (js \<times> js) option" where
  "onRelayReceive out = (case out of
      Emit ev [frm, p] \<Rightarrow>
        if ev = ''relay'' \<and> truthy (prop_opt p ''_json_transfer'') then Some (prop_opt p ''data'', frm) else None
    | _ \<Rightarrow> None)"

definition onBroadcastReceive :: "string \<Rightarrow> client_out \<Rightarrow> (js \<times> js) option" where
  "onBroadcastReceive room out = (case out of
      Emit ev [frm, ns, p] \<Rightarrow>
        if ev = ''broadcast'' \<and> ns = JStr room \<and> truthy (prop_opt p ''_json_transfer'')
        then Some (prop_opt p ''data'', frm) else None
    | _ \<Rightarrow> None)"

text \<open>
  What the server does with a message it passes on (hub/hub.go): it stamps the sender's fingerprint.
\<close>

definition server_forward :: "string \<Rightarrow> server_msg \<Rightarrow> server_msg" where
  "server_forward sender m = m\<lparr>sm_from := Some sender\<rparr>"

end
