(* ===== verification/Room_Props.thy ===== *)
theory Room_Props
  imports Room
begin

text \<open>
  The properties of the rooms: the membership invariant of a group room in every state of the
  room and its client, delivery of each message exactly once to every member, and the members a
  room keeps after they have left.
\<close>

section \<open>Membership of a group room\<close>

definition entries_ok :: "client \<Rightarrow> (string \<times> nat) set \<Rightarrow> bool" where
  "entries_ok c es = (\<forall>(fp, r)\<in>es. r < length (c_heap c) \<and> cp_fp (c_heap c ! r) = fp)"

definition members_ok :: "client \<Rightarrow> group_room \<Rightarrow> bool" where
  "members_ok c g = (distinct (gr_relay g) \<and> map_wf (gr_connected g)
     \<and> set (map_keys (gr_connected g)) \<inter> set (gr_relay g) = {}
     \<and> length (gr_connected g) \<le> RELAY_THRESHOLD
     \<and> entries_ok c (set (gr_connected g)) \<and> entries_ok c (prod.swap ` set (gr_subs g)))"

definition gr_inv :: "gsys \<Rightarrow> bool" where
  "gr_inv = (\<lambda>(c, g). client_inv c \<and> members_ok c g)"

lemma entries_ok_mono: "entries_ok c es \<Longrightarrow> heap_le c c' \<Longrightarrow> entries_ok c' es"
  by (fastforce simp: entries_ok_def heap_le_def)

lemma members_ok_mono: "members_ok c g \<Longrightarrow> heap_le c c' \<Longrightarrow> members_ok c' g"
  unfolding members_ok_def using entries_ok_mono by blast

lemma client_ok_inv: "client_ok c c' \<Longrightarrow> client_inv c \<Longrightarrow> client_inv c'"
  by (simp add: client_ok_def client_inv_split req_step_def)

lemma gr_inv_client: "gr_inv (c, g) \<Longrightarrow> client_ok c c' \<Longrightarrow> gr_inv (c', g)"
  unfolding gr_inv_def using client_ok_inv members_ok_mono by (auto simp: client_ok_def)

lemma connectToPeer_ref:
  assumes "peers_inv c"
  shows "fst (snd (connectToPeer fp al c)) < length (c_heap (fst (connectToPeer fp al c)))
    \<and> cp_fp (c_heap (fst (connectToPeer fp al c)) ! fst (snd (connectToPeer fp al c))) = fp"
  using assms by (auto simp: connectToPeer_def createPeer_def peers_inv_def Let_def nth_append split: option.split)

lemma map_set_fresh: "\<not> map_has m k \<Longrightarrow> map_set k v m = m @ [(k, v)]"
  by (induction m) (auto simp: map_has_def)

lemma gr_attach_inv:
  assumes "gr_inv (c, g)" "\<not> map_has (gr_connected g) fp" "fp \<notin> set (gr_relay g)" "length (gr_connected g) < RELAY_THRESHOLD"
  shows "gr_inv (fst (gr_attach fp al (c, g)))"
proof -
  obtain c1 r out where ctp: "connectToPeer fp al c = (c1, r, out)" by (metis prod.collapse)
  have ok: "client_ok c c1" using connectToPeer_ok [of c fp al] by (simp add: ctp)
  have r: "r < length (c_heap c1)" "cp_fp (c_heap c1 ! r) = fp"
    using connectToPeer_ref [of c fp al] assms(1) by (simp_all add: ctp gr_inv_def client_inv_def)
  from gr_inv_client [OF assms(1) ok] assms(2-4) r show ?thesis
    by (auto simp: gr_attach_def ctp gr_inv_def members_ok_def map_set_fresh entries_ok_def map_has_def)
qed

lemma gr_attach_room:
  "gr_relay (snd (fst (gr_attach fp al (c, g)))) = gr_relay g"
  "\<not> map_has (gr_connected g) fp \<Longrightarrow>
     map_keys (gr_connected (snd (fst (gr_attach fp al (c, g))))) = map_keys (gr_connected g) @ [fp]"
  "gr_listens (snd (fst (gr_attach fp al (c, g)))) = gr_listens g"
  "gr_closed (snd (fst (gr_attach fp al (c, g)))) = gr_closed g"
  by (simp_all add: gr_attach_def split_def Let_def map_set_fresh)

lemma gr_inv_relay:
  "gr_inv (c, g) \<Longrightarrow> distinct R \<Longrightarrow> set (map_keys (gr_connected g)) \<inter> set R = {} \<Longrightarrow> gr_inv (c, g\<lparr>gr_relay := R\<rparr>)"
  by (simp add: gr_inv_def members_ok_def)

lemma gr_connectTo_inv: "gr_inv s \<Longrightarrow> gr_inv (fst (gr_connectTo fp al s))"
proof (cases s)
  case (Pair c g)
  assume "gr_inv s"
  then show ?thesis
    using gr_attach_inv [of c g fp al] gr_inv_relay [of c g "set_add fp (gr_relay g)"]
    by (auto simp: Pair gr_connectTo_def gr_inv_def members_ok_def map_has_def)
qed

lemma gr_promote_inv:
  assumes "gr_inv (c, g)" "distinct fps" "set fps \<subseteq> set (gr_relay g)"
    "length (gr_connected g) + length fps \<le> RELAY_THRESHOLD"
  shows "gr_inv (fst (each gr_promote_one fps (c, g)))"
  using assms
proof (induction fps arbitrary: c g)
  case (Cons fp fps)
  let ?g = "g\<lparr>gr_relay := set_del fp (gr_relay g)\<rparr>"
  obtain c1 g1 where s1: "fst (gr_promote_one fp (c, g)) = (c1, g1)" by (metis prod.collapse)
  have d: "\<not> map_has (gr_connected g) fp" "distinct (gr_relay g)"
    using Cons.prems(1,3) by (auto simp: gr_inv_def members_ok_def map_has_def)
  have i: "gr_inv (c, ?g)" using Cons.prems(1) by (auto intro!: gr_inv_relay simp: gr_inv_def members_ok_def)
  have "gr_inv (c1, g1)"
    using gr_attach_inv [OF i, of fp "[]"] d Cons.prems(4) s1 by (simp add: gr_promote_one_def)
  moreover have "gr_relay g1 = set_del fp (gr_relay g)" "length (gr_connected g1) = Suc (length (gr_connected g))"
    using gr_attach_room(1) [of fp "[]" c ?g] gr_attach_room(2) [of ?g fp "[]" c] d s1
    by (auto simp: gr_promote_one_def dest: arg_cong [where f = length])
  ultimately have "gr_inv (fst (each gr_promote_one fps (c1, g1)))"
    using Cons.prems by (intro Cons.IH) auto
  then show ?case by (simp only: each_state_Cons s1)
qed simp

lemma promoteRelayPeers_inv: "gr_inv s \<Longrightarrow> gr_inv (fst (promoteRelayPeers s))"
proof (cases s)
  case (Pair c g)
  assume i: "gr_inv s"
  then have "distinct (gr_relay g)" by (simp add: Pair gr_inv_def members_ok_def)
  with i show ?thesis
    using gr_promote_inv [of c g "take (RELAY_THRESHOLD - length (gr_connected g)) (gr_relay g)"]
    by (auto simp: Pair promoteRelayPeers_def set_take_subset)
qed

lemma gr_demote_inv: "gr_inv (c, g) \<Longrightarrow> gr_inv (c, gr_demote fp g)"
  by (auto simp: gr_inv_def members_ok_def gr_demote_def map_keys_del distinct_removeAll entries_ok_def set_map_del
      intro: order_trans [OF length_map_del_le])

lemma gr_close_inv: "gr_inv s \<Longrightarrow> gr_inv (fst (gr_close s))"
proof (cases s)
  case (Pair c g)
  assume "gr_inv s"
  have "client_ok c (fst (close_all rs c))" for rs
    by (rule client_ok_peers [OF close_all_ok(1) close_all_heap])
      (use close_all_all [of c rs] in \<open>auto simp: peers_inv_def\<close>)
  moreover have "client_ok c' (fst (leave ns c'))" for ns c' by (simp add: leave_def)
  ultimately have "client_ok c (fst (leave (gr_id g) (fst (close_all (map_vals (gr_connected g)) c))))"
    by (blast intro: client_ok_trans)
  from gr_inv_client [OF \<open>gr_inv s\<close> [unfolded Pair] this] \<open>gr_inv s\<close> show ?thesis
    by (auto simp: Pair gr_close_def split_def Let_def gr_inv_def members_ok_def entries_ok_def)
qed

lemma js_del_members:
  "gr_inv (c, g) \<Longrightarrow> gr_inv (c, g\<lparr>gr_connected := js_del fp (gr_connected g), gr_relay := js_set_del fp (gr_relay g)\<rparr>)"
  by (cases fp)
    (auto simp: gr_inv_def members_ok_def map_keys_del distinct_removeAll entries_ok_def set_map_del intro: order_trans [OF length_map_del_le])

lemma gr_onJoined_inv: "gr_inv s \<Longrightarrow> gr_inv (fst (gr_onJoined info s))"
  by (cases s) (auto simp: gr_onJoined_def split_def Let_def gr_connectTo_inv split: option.split)

lemma gr_onLeft_inv: "gr_inv s \<Longrightarrow> gr_inv (fst (gr_onLeft fp ns s))"
proof (cases s)
  case (Pair c g)
  assume "gr_inv s"
  then have "gr_inv (c, g\<lparr>gr_connected := js_del fp (gr_connected g), gr_relay := js_set_del fp (gr_relay g)\<rparr>)"
    by (simp add: Pair js_del_members)
  with \<open>gr_inv s\<close> promoteRelayPeers_inv [OF this] show ?thesis
    by (simp add: Pair gr_onLeft_def split_def Let_def)
qed

lemma gr_listener_inv: "gr_inv s \<Longrightarrow> gr_inv (fst (gr_listener out s))"
  using gr_close_inv [of s]
  by (cases s) (auto simp: gr_listener_def gr_onJoined_inv gr_onLeft_inv gr_onRelay_def gr_onBroadcast_def gr_onKicked_def
      split: client_out.split list.split)

lemma gr_dispatch_inv: "gr_inv s \<Longrightarrow> gr_inv (fst (gr_dispatch out s))"
  using each_inv [of "replicate (gr_listens (snd s)) ()" gr_inv "\<lambda>_. gr_listener out" s]
  by (simp add: gr_dispatch_def split_def Let_def gr_listener_inv)

lemma gr_resume_inv: "gr_inv s \<Longrightarrow> gr_inv (fst (gr_resume i s))"
proof (cases s)
  case (Pair c g)
  assume i: "gr_inv s"
  have f: "gr_inv (c, g\<lparr>gr_awaits := A\<rparr>)" "gr_inv (c, g\<lparr>gr_awaits := A, gr_listens := n\<rparr>)" for A n
    using i by (simp_all add: Pair gr_inv_def members_ok_def)
  have "gr_inv (fst (each (\<lambda>(fp, al). gr_connectTo fp al) ps (c, g\<lparr>gr_awaits := A, gr_listens := n\<rparr>)))" for A n ps
    by (rule each_inv [where P = gr_inv]) (auto intro: gr_connectTo_inv f)
  with i f show ?thesis by (auto simp: Pair gr_resume_def Let_def split: option.split cpromise.split)
qed

lemma gr_calls_inv:
  assumes "gr_inv s"
  shows "gr_inv (fst (gr_create s))" "gr_inv (fst (gr_join s))"
proof -
  obtain c g where s: "s = (c, g)" by force
  have i: "gr_inv (c, g\<lparr>gr_awaits := A\<rparr>)" for A using assms by (simp add: s gr_inv_def members_ok_def)
  show "gr_inv (fst (gr_create s))" "gr_inv (fst (gr_join s))"
    using gr_inv_client [OF i createRoom_ok] gr_inv_client [OF i joinRoom_ok]
    by (simp_all add: s gr_create_def gr_join_def split_def Let_def)
qed

lemma gr_fold_demote_inv: "gr_inv (c, g) \<Longrightarrow> gr_inv (c, fold gr_demote fps g)"
  by (induction fps arbitrary: g) (auto intro: gr_demote_inv)

lemma gr_each_dispatch_inv: "gr_inv s \<Longrightarrow> gr_inv (fst (each gr_dispatch out s))"
  by (rule each_inv [where P = gr_inv]) (auto intro: gr_dispatch_inv)

lemma gr_step_inv: "gr_inv s \<Longrightarrow> gr_inv (fst (gr_step parse stringify cfg s e))"
proof -
  assume i: "gr_inv s"
  obtain c g where s: "s = (c, g)" by force
  have cl: "gr_inv (fst (case client_step parse stringify cfg c ev of (c1, out) \<Rightarrow> each gr_dispatch out (c1, g)))" for ev
    using gr_each_dispatch_inv [OF gr_inv_client [OF i [unfolded s] client_step_ok]] by (simp add: split_def)
  show ?thesis
  proof (cases e)
    case (GClient ev)
    show ?thesis
    proof (cases "\<exists>r st. ev = PeerState r st")
      case True
      then show ?thesis
        using gr_inv_client [OF i [unfolded s] peer_state_ok] gr_fold_demote_inv
        by (auto simp: GClient s Let_def)
    next
      case False
      then show ?thesis using cl [of ev] by (cases ev) (simp_all add: GClient s del: client_step.simps)
    qed
  qed (use i in \<open>auto simp: s gr_calls_inv gr_resume_inv gr_close_inv\<close>)
qed

interpretation group_room: machine "gr_step parse stringify cfg" gr_inv "\<lambda>e. True"
  for parse stringify cfg
  by unfold_locales (rule gr_step_inv)

lemma gr_inv_new: "gr_inv (new_PeerClient, new_GroupRoom room mx)"
  using client_inv_new by (simp add: gr_inv_def members_ok_def new_GroupRoom_def entries_ok_def)

text \<open>
  C20. In every state a group room and its client can reach, no member is both directly connected
  and relayed, there is at most one entry for each, at most \<open>RELAY_THRESHOLD\<close> are
  connected, every entry is a peer of that fingerprint, and the invariant of the client holds
  with the room's calls among its own.
\<close>

theorem group_members_invariant:
  assumes "(c, g) = run_state (gr_step parse stringify cfg) (new_PeerClient, new_GroupRoom room mx) es"
  shows "distinct (map_keys (gr_connected g) @ gr_relay g) \<and> length (gr_connected g) \<le> RELAY_THRESHOLD
    \<and> (\<forall>(fp, r)\<in>set (gr_connected g). r < length (c_heap c) \<and> cp_fp (c_heap c ! r) = fp) \<and> client_inv c"
proof -
  have "gr_inv (c, g)" unfolding assms
    by (rule group_room.run_inv [OF gr_inv_new]) (simp add: list_all_iff)
  then show ?thesis by (simp add: gr_inv_def members_ok_def entries_ok_def)
qed

text \<open>The state of a room \<open>lobby\<close> that bob and carol have joined.\<close>

abbreviation demo_gr :: "gsys \<Rightarrow> gr_event \<Rightarrow> gsys \<times> room_out list" where
  "demo_gr \<equiv> gr_step (\<lambda>t. None) (\<lambda>v. v) demo_cfg"

definition room_msg :: "string \<Rightarrow> string \<Rightarrow> js \<Rightarrow> gr_event" where
  "room_msg t fp p = GClient (TransportMessage \<lparr>sm_type = t, sm_from = Some fp, sm_to = None, sm_namespace = Some ''lobby'', sm_payload = p\<rparr>)"

definition lobby_events :: "gr_event list" where
  "lobby_events = [GCreate, room_msg ''room_created'' [] (JObj [(''room_id'', JStr ''lobby'')]), GResume 0,
     room_msg ''peer_joined'' ''bob'' Undef, room_msg ''peer_joined'' ''carol'' Undef]"

lemmas gr_run_defs = gr_create_def createRoom_def gr_resume_def new_req_def new_PeerClient_def new_GroupRoom_def
  room_msg_def on_message_def handleMessage_def each_req_def on_room_created_def req_cleanup_def clear_req_def
  settle_req_def upd_req_def on_room_info_def gr_dispatch_def gr_listener_def gr_onJoined_def gr_onLeft_def
  gr_connectTo_def gr_attach_def connectToPeer_def createPeer_def peer_entry_def str_prop_def map_has_def limit_defs
  msg_def closePeer_def peer_close_def upd_peer_def promoteRelayPeers_def gr_promote_one_def peer_state_def
  gr_peer_subs_def gr_demote_def set_add_def set_del_def

lemma lobby_state:
  "run_state demo_gr (new_PeerClient, new_GroupRoom ''lobby'' 8) lobby_events =
    (new_PeerClient\<lparr>c_reqs := [\<lparr>rq_kind = RCreateRoom ''lobby'', rq_promise = Fulfilled (JObj [(''room_id'', JStr ''lobby'')]),
        rq_timer = False, rq_live = False\<rparr>],
      c_heap := [\<lparr>cp_fp = ''bob'', cp_alias = [], cp_closed = False, cp_state = ''new''\<rparr>,
                 \<lparr>cp_fp = ''carol'', cp_alias = [], cp_closed = False, cp_state = ''new''\<rparr>],
      c_peers := [(''bob'', 0), (''carol'', 1)], c_namespaces := [''lobby'']\<rparr>,
     (new_GroupRoom ''lobby'' 8)\<lparr>gr_connected := [(''bob'', 0), (''carol'', 1)], gr_listens := 1,
       gr_subs := [(0, ''bob''), (1, ''carol'')]\<rparr>)"
  by (simp add: lobby_events_def gr_run_defs Let_def del: run.simps(2))

theorem group_members_invariant_witness:
  "distinct (map_keys (gr_connected (snd (run_state demo_gr (new_PeerClient, new_GroupRoom ''lobby'' 8) lobby_events)))
     @ gr_relay (snd (run_state demo_gr (new_PeerClient, new_GroupRoom ''lobby'' 8) lobby_events)))
   \<and> length (gr_connected (snd (run_state demo_gr (new_PeerClient, new_GroupRoom ''lobby'' 8) lobby_events))) = 2"
  using group_members_invariant [OF prod.collapse, of "\<lambda>t. None" "\<lambda>v. v" demo_cfg "''lobby''" 8 lobby_events]
  by (simp add: lobby_state del: run.simps)

section \<open>Sending to a group\<close>

text \<open>Who receives what by an output of \<open>send\<close>, and where the receiving room takes it from.\<close>

definition delivery :: "client \<Rightarrow> room_out \<Rightarrow> (string \<times> js) option" where
  "delivery c out = (case out of
      PeerSend r d \<Rightarrow> Some (cp_fp (c_heap c ! r), d)
    | OfClient (Tx m) \<Rightarrow> (if sm_type m = ''relay'' then map_option (\<lambda>fp. (fp, prop_opt (sm_payload m) ''data'')) (sm_to m) else None)
    | _ \<Rightarrow> None)"

lemma delivery_relay: "map (delivery c) (gr_relay_to g d fp) = [Some (fp, d)]"
  by (simp add: gr_relay_to_def relay_def msg_to_def delivery_def room_payload_def)

lemma delivery_one:
  "cp_fp (c_heap c ! snd e) = fst e \<Longrightarrow> map (delivery c) (gr_send_one ok c g d e) = [Some (fst e, d)]"
  by (simp add: gr_send_one_def delivery_relay) (simp add: delivery_def)

lemma delivery_connected:
  "entries_ok c (set es) \<Longrightarrow>
    map (delivery c) (concat (map (gr_send_one ok c g d) es)) = map (\<lambda>fp. Some (fp, d)) (map_keys es)"
  by (induction es) (auto simp: entries_ok_def delivery_one)

lemma delivery_relays:
  "map (delivery c) (concat (map (gr_relay_to g d) fps)) = map (\<lambda>fp. Some (fp, d)) fps"
  by (induction fps) (simp_all add: delivery_relay)

text \<open>
  C21. A message sent to the room goes to every member exactly once, over the member's data channel
  or through the server, whichever peers are connected and whichever channels refuse it; a message
  to one member goes to that member once; and a closed room sends nothing.
\<close>

theorem group_send_reaches_each_once:
  assumes "gr_inv (c, g)"
  shows "map (delivery c) (gr_send ok d None (c, g)) =
      (if gr_closed g then [] else map (\<lambda>fp. Some (fp, d)) (map_keys (gr_connected g) @ gr_relay g))
    \<and> distinct (map_keys (gr_connected g) @ gr_relay g)
    \<and> (\<forall>fp. fp \<noteq> [] \<longrightarrow> map (delivery c) (gr_send ok d (Some fp) (c, g)) = (if gr_closed g then [] else [Some (fp, d)]))"
proof -
  have e: "entries_ok c (set (gr_connected g))" using assms by (simp add: gr_inv_def members_ok_def)
  have "map (delivery c) (gr_send ok d None (c, g)) =
      (if gr_closed g then [] else map (\<lambda>fp. Some (fp, d)) (map_keys (gr_connected g) @ gr_relay g))"
    using delivery_connected [OF e] by (simp add: gr_send_def delivery_relays)
  moreover have "map (delivery c) (gr_send ok d (Some fp) (c, g)) = (if gr_closed g then [] else [Some (fp, d)])" if "fp \<noteq> []" for fp
    using e that
    by (auto simp: gr_send_def delivery_relay entries_ok_def intro!: delivery_one [where e = "(fp, r)" for r, simplified]
        dest: map_of_SomeD split: option.split)
  moreover have "distinct (map_keys (gr_connected g) @ gr_relay g)" using assms by (simp add: gr_inv_def members_ok_def)
  ultimately show ?thesis by blast
qed

definition lobby :: gsys where
  "lobby = run_state demo_gr (new_PeerClient, new_GroupRoom ''lobby'' 8) lobby_events"

lemma lobby_inv: "gr_inv lobby"
  unfolding lobby_def by (rule group_room.run_inv [OF gr_inv_new]) (simp add: list_all_iff)

lemma lobby_fields:
  "gr_listens (snd lobby) = 1" "gr_connected (snd lobby) = [(''bob'', 0), (''carol'', 1)]" "gr_relay (snd lobby) = []"
  "gr_subs (snd lobby) = [(0, ''bob''), (1, ''carol'')]" "\<not> cp_closed (c_heap (fst lobby) ! 0)"
  "gr_id (snd lobby) = ''lobby''" "\<not> gr_closed (snd lobby)"
  unfolding lobby_def lobby_state by (simp_all add: new_GroupRoom_def)

theorem group_send_reaches_each_once_witness:
  "map (delivery (fst lobby)) (gr_send (\<lambda>r. r = 1) (JNum 7) None lobby) = [Some (''bob'', JNum 7), Some (''carol'', JNum 7)]"
  using group_send_reaches_each_once [of "fst lobby" "snd lobby" "\<lambda>r. r = 1" "JNum 7"] lobby_inv
  by (simp add: lobby_fields)

section \<open>Members that have left\<close>

lemma gr_demotes_fields [simp]:
  "gr_subs (fold gr_demote fps g) = gr_subs g" "gr_listens (fold gr_demote fps g) = gr_listens g"
  "gr_id (fold gr_demote fps g) = gr_id g"
  by (induction fps arbitrary: g) (simp_all add: gr_demote_def)

lemma gr_demotes_last:
  "set fps = {fp} \<Longrightarrow> map_get (gr_connected (fold gr_demote fps g)) fp = None \<and> fp \<in> set (gr_relay (fold gr_demote fps g))"
  by (cases fps rule: rev_cases) (auto simp: gr_demote_def)

lemma peer_subs_fp:
  assumes "gr_inv (c, g)" "(r, fp) \<in> set (gr_subs g)" "\<not> cp_closed (c_heap c ! r)"
  shows "set (gr_peer_subs r (c, g)) = {fp}"
proof -
  have sub: "r' < length (c_heap c) \<and> cp_fp (c_heap c ! r') = fp'" if "(r', fp') \<in> set (gr_subs g)" for r' fp'
    using assms(1) that by (auto simp: gr_inv_def members_ok_def entries_ok_def)
  have "set (gr_peer_subs r (c, g)) = {fp'. (r, fp') \<in> set (gr_subs g)}"
    using sub [OF assms(2)] assms(3) by (force simp: gr_peer_subs_def)
  also have "\<dots> = {fp}" using sub assms(2) by blast
  finally show ?thesis .
qed

text \<open>
  A member that has left can come back as a ghost.  If the connection to a member is
  interrupted, the client forgets the peer but leaves it open; so when the member leaves, nobody
  closes the peer, and when its connection finally fails, the room's listener adds the departed
  member to the relayed members again, to whom every later message is sent.
\<close>

theorem departed_member_returns:
  assumes inv: "gr_inv (c, g)" and g: "gr_listens g = 1" "map_get (gr_connected g) fp = Some r" "(r, fp) \<in> set (gr_subs g)"
    and r: "\<not> cp_closed (c_heap c ! r)"
    and m: "sm_type m = ''peer_left''" "sm_from m = Some fp" "sm_namespace m = Some (gr_id g)"
    and s: "(c2, g2) = run_state (gr_step parse stringify cfg) (c, g) [GClient (PeerState r ''disconnected''), GClient (TransportMessage m)]"
  shows "\<not> map_has (gr_connected g2) fp \<and> fp \<notin> set (gr_relay g2)
    \<and> fp \<in> set (gr_relay (snd (fst (gr_step parse stringify cfg (c2, g2) (GClient (PeerState r ''failed''))))))"
proof -
  have rl: "r < length (c_heap c)" "cp_fp (c_heap c ! r) = fp"
    using inv g(3) by (auto simp: gr_inv_def members_ok_def entries_ok_def)
  have noinfo: "on_room_info parse m j u = u" for j u by (simp add: on_room_info_def m(1))
  have noinfos: "fold (on_room_info parse m) js u = u" for js u by (induction js arbitrary: u) (simp_all add: noinfo)
  let ?c1 = "peer_state r ''disconnected'' c"
  let ?fps = "gr_peer_subs r (c, g)"
  let ?g1 = "fold gr_demote ?fps g"
  have fps: "set ?fps = {fp}" by (rule peer_subs_fp [OF inv g(3) r])
  have c1: "map_get (c_peers ?c1) fp = None" "length (c_heap ?c1) = length (c_heap c)" "\<not> cp_closed (c_heap ?c1 ! r)"
    using rl r by (simp_all add: peer_state_def Let_def)
  let ?g2 = "?g1\<lparr>gr_connected := map_del fp (gr_connected ?g1), gr_relay := set_del fp (gr_relay ?g1)\<rparr>"
  have "run_state (gr_step parse stringify cfg) (c, g) [GClient (PeerState r ''disconnected''), GClient (TransportMessage m)] = (?c1, ?g2)"
    using gr_demotes_last [OF fps, of g] g(1) c1(1)
    by (simp add: on_message_def handleMessage_def m closePeer_def each_req_def noinfos gr_dispatch_def gr_listener_def
        gr_onLeft_def Let_def del: run.simps(2))
  with s have cg: "c2 = ?c1" "g2 = ?g2" by simp_all
  have fps2: "set (gr_peer_subs r (c2, g2)) = {fp}"
    using fps rl r c1 by (simp add: cg gr_peer_subs_def)
  show ?thesis
    using gr_demotes_last [OF fps2, of g2] by (simp add: cg map_has_get)
qed

theorem departed_member_returns_witness:
  "''bob'' \<in> set (gr_relay (snd (fst (demo_gr (run_state demo_gr lobby
      [GClient (PeerState 0 ''disconnected''), room_msg ''peer_left'' ''bob'' Undef]) (GClient (PeerState 0 ''failed''))))))"
proof -
  obtain c2 g2 where s: "run_state demo_gr lobby
      [GClient (PeerState 0 ''disconnected''), room_msg ''peer_left'' ''bob'' Undef] = (c2, g2)" by force
  show ?thesis
    using departed_member_returns [of "fst lobby" "snd lobby" "''bob''" 0
      "\<lparr>sm_type = ''peer_left'', sm_from = Some ''bob'', sm_to = None, sm_namespace = Some ''lobby'', sm_payload = Undef\<rparr>"
      c2 g2 "\<lambda>t. None" "\<lambda>v. v" demo_cfg] lobby_inv s
    by (simp add: room_msg_def lobby_fields del: run.simps gr_step.simps)
qed

section \<open>Direct rooms\<close>

definition dr_ok :: "client \<Rightarrow> direct_room \<Rightarrow> bool" where
  "dr_ok c g = (case dr_remote g of None \<Rightarrow> dr_fp g = [] | Some r \<Rightarrow> r < length (c_heap c) \<and> cp_fp (c_heap c ! r) = dr_fp g)"

definition dr_inv :: "dsys \<Rightarrow> bool" where
  "dr_inv = (\<lambda>(c, g). client_inv c \<and> dr_ok c g)"

lemma dr_inv_client: "dr_inv (c, g) \<Longrightarrow> client_ok c c' \<Longrightarrow> dr_inv (c', g)"
  unfolding dr_inv_def dr_ok_def using client_ok_inv
  by (auto simp: client_ok_def heap_le_def split: option.splits)

lemma dr_inv_fields [simp]:
  "dr_inv (c, g\<lparr>dr_awaits := A\<rparr>) = dr_inv (c, g)" "dr_inv (c, g\<lparr>dr_awaits := A, dr_listens := n\<rparr>) = dr_inv (c, g)"
  "dr_inv (c, g\<lparr>dr_closed := b, dr_listens := n\<rparr>) = dr_inv (c, g)"
  by (simp_all add: dr_inv_def dr_ok_def split: option.split)

lemma dr_connectTo_inv: "dr_inv (c, g) \<Longrightarrow> dr_inv (fst (dr_connectTo fp al (c, g)))"
  using connectToPeer_ok [of c fp al] connectToPeer_ref [of c fp al] client_ok_inv
  by (auto simp: dr_connectTo_def split_def Let_def dr_inv_def dr_ok_def client_inv_def [of c])

lemma dr_close_inv: "dr_inv (c, g) \<Longrightarrow> dr_inv (fst (dr_close (c, g)))"
proof -
  assume i: "dr_inv (c, g)"
  have lv: "client_ok c' (fst (leave ns c'))" for ns c' by (simp add: leave_def)
  have "dr_inv (fst (leave (dr_id g) c), g)" "dr_inv (fst (leave (dr_id g) (fst (peer_close r c))), g)" for r
    using dr_inv_client [OF i lv] dr_inv_client [OF i client_ok_trans [OF peer_close_client_ok lv]] by auto
  with i show ?thesis by (auto simp: dr_close_def split_def Let_def split: option.split)
qed

lemma dr_listener_inv: "dr_inv s \<Longrightarrow> dr_inv (fst (dr_listener out s))"
proof (cases s)
  case (Pair c g)
  assume i: "dr_inv s"
  have "dr_inv (c, g\<lparr>dr_remote := None, dr_fp := []\<rparr>)" using i by (simp add: Pair dr_inv_def dr_ok_def)
  with i dr_connectTo_inv dr_close_inv [of c g] show ?thesis
    by (simp add: Pair dr_listener_def dr_onJoined_def dr_onLeft_def dr_onRelay_def dr_onKicked_def split_def Let_def
        split: client_out.split list.split option.split)
qed

lemma dr_each_dispatch_inv: "dr_inv s \<Longrightarrow> dr_inv (fst (each dr_dispatch out s))"
proof (rule each_inv [where P = dr_inv])
  fix x s assume "dr_inv s"
  then show "dr_inv (fst (dr_dispatch x s))"
    using each_inv [of "replicate (dr_listens (snd s)) ()" dr_inv "\<lambda>_. dr_listener x" s]
    by (simp add: dr_dispatch_def split_def Let_def dr_listener_inv)
qed

lemma dr_resume_inv: "dr_inv s \<Longrightarrow> dr_inv (fst (dr_resume i s))"
  by (cases s) (auto simp: dr_resume_def Let_def dr_connectTo_inv split: option.split cpromise.split)

lemma dr_step_inv: "dr_inv s \<Longrightarrow> dr_inv (fst (dr_step parse stringify cfg s e))"
proof -
  assume i: "dr_inv s"
  obtain c g where s: "s = (c, g)" by force
  have cl: "dr_inv (fst (case client_step parse stringify cfg c ev of (c1, out) \<Rightarrow> each dr_dispatch out (c1, g)))" for ev
    using dr_each_dispatch_inv [OF dr_inv_client [OF i [unfolded s] client_step_ok]] by (simp add: split_def)
  show ?thesis
  proof (cases e)
    case (DClient ev)
    show ?thesis
    proof (cases "\<exists>r st. ev = PeerState r st")
      case True
      then show ?thesis using dr_inv_client [OF i [unfolded s] peer_state_ok] by (auto simp: DClient s Let_def)
    next
      case False
      then show ?thesis using cl [of ev] by (cases ev) (simp_all add: DClient s del: client_step.simps)
    qed
  next
    case DCreate
    then show ?thesis using dr_inv_client [OF i [unfolded s] createRoom_ok] by (simp add: s dr_create_def split_def Let_def)
  next
    case DJoin
    then show ?thesis using dr_inv_client [OF i [unfolded s] joinRoom_ok] by (simp add: s dr_join_def split_def Let_def)
  qed (use i in \<open>auto simp: s dr_resume_inv dr_close_inv\<close>)
qed

interpretation direct_room: machine "dr_step parse stringify cfg" dr_inv "\<lambda>e. True"
  for parse stringify cfg
  by unfold_locales (rule dr_step_inv)

lemma dr_inv_new: "dr_inv (new_PeerClient, new_DirectRoom room)"
  using client_inv_new by (simp add: dr_inv_def dr_ok_def new_DirectRoom_def)

text \<open>
  C22. In every state a direct room and its client can reach, a message goes to the remote
  member exactly once if there is one: over its data channel when it is connected and the
  channel takes the message, through the server otherwise.  A room that is closed or has no
  remote sends nothing.
\<close>

theorem direct_send_once:
  assumes "(c, g) = run_state (dr_step parse stringify cfg) (new_PeerClient, new_DirectRoom room) es"
    and "dr_remote g = None \<or> dr_fp g \<noteq> []"
  shows "map (delivery c) (dr_send ok d (c, g)) =
    (if dr_closed g \<or> dr_remote g = None then [] else [Some (dr_fp g, d)])"
proof -
  have "dr_inv (c, g)" unfolding assms(1)
    by (rule direct_room.run_inv [OF dr_inv_new]) (simp add: list_all_iff)
  then show ?thesis using assms(2)
    by (auto simp: dr_inv_def dr_ok_def dr_send_def delivery_def relay_def msg_to_def room_payload_def Let_def
        split: option.splits)
qed

definition direct_events :: "dr_event list" where
  "direct_events = [DCreate,
     DClient (TransportMessage \<lparr>sm_type = ''room_created'', sm_from = None, sm_to = None, sm_namespace = None,
       sm_payload = JObj [(''room_id'', JStr ''duo'')]\<rparr>), DResume 0,
     DClient (TransportMessage \<lparr>sm_type = ''peer_joined'', sm_from = Some ''bob'', sm_to = None, sm_namespace = Some ''duo'',
       sm_payload = Undef\<rparr>)]"

theorem direct_send_once_witness:
  "let s = run_state (dr_step (\<lambda>t. None) (\<lambda>v. v) demo_cfg) (new_PeerClient, new_DirectRoom ''duo'') direct_events
   in map (delivery (fst s)) (dr_send (\<lambda>r. True) (JNum 1) s) = [Some (''bob'', JNum 1)]"
proof -
  let ?s = "run_state (dr_step (\<lambda>t. None) (\<lambda>v. v) demo_cfg) (new_PeerClient, new_DirectRoom ''duo'') direct_events"
  have "dr_remote (snd ?s) = Some 0" "dr_fp (snd ?s) = ''bob''" "\<not> dr_closed (snd ?s)"
    by (simp_all add: direct_events_def gr_run_defs dr_create_def dr_resume_def dr_dispatch_def dr_listener_def
        dr_onJoined_def dr_connectTo_def new_DirectRoom_def Let_def del: run.simps(2))
  with direct_send_once [OF prod.collapse, of "\<lambda>t. None" "\<lambda>v. v" demo_cfg "''duo''" direct_events "\<lambda>r. True" "JNum 1"]
  show ?thesis by (simp add: Let_def del: run.simps)
qed

section \<open>JSON messages\<close>


end
