(* ===== verification/Peer.thy ===== *)
theory Peer
  imports Types
begin

text \<open>
  The class \<open>Peer\<close> of packages/peer-client/src/core/peer.ts.  The browser's
  \<open>RTCPeerConnection\<close> is outside: the class calls it through outputs, and the environment
  answers.  A method that awaits such a call is suspended as a job; the event \<open>Done\<close> resumes it
  with the result and \<open>Fails\<close> with an error.  The model keeps what the class reads of the connection,
  its signalling and connection state; an operation that ends may change the former, and the event
  says how.  Data channels are objects, since one can be replaced in the table under its label and
  still fire.  \<open>parse\<close> is \<open>JSON.parse\<close>.
\<close>

section \<open>State\<close>

datatype sig_state = Stable | HaveLocalOffer | HaveRemoteOffer | SigClosed

datatype flow = OfferFlow | AnswerFlow        \<comment> \<open>which signal a job is handling\<close>

datatype job =
    NegCreate                    \<comment> \<open>\<open>onnegotiationneeded\<close>: await \<open>createOffer\<close>\<close>
  | NegLocal string              \<comment> \<open>await \<open>setLocalDescription\<close>\<close>
  | OfferCreate                  \<comment> \<open>\<open>createOffer\<close>: await \<open>createOffer\<close>\<close>
  | OfferLocal string
  | RestartCreate                \<comment> \<open>\<open>restartIce\<close>\<close>
  | RestartLocal string
  | RemoteSet flow               \<comment> \<open>\<open>handleSignal\<close>: await \<open>setRemoteDescription\<close>\<close>
  | Flushing flow "js list"      \<comment> \<open>await \<open>addIceCandidate\<close> in \<open>flushCandidates\<close>; the candidates after it\<close>
  | AnswerCreate
  | AnswerLocal string
  | CandAdd                      \<comment> \<open>await \<open>addIceCandidate\<close> of a late candidate\<close>

record chan =
  ch_label :: string
  ch_open :: bool

record peer =
  p_chans :: "chan list"                  \<comment> \<open>the channel objects\<close>
  p_channels :: "(string, nat) jsmap"
  p_pending :: "js list"                  \<comment> \<open>\<open>pendingCandidates\<close>\<close>
  p_remoteSet :: bool
  p_closed :: bool
  p_making :: bool                        \<comment> \<open>\<open>_makingOffer\<close>\<close>
  p_sig :: sig_state
  p_jobs :: "(nat \<times> job) list"
  p_fresh :: nat

datatype sig_payload = SigOffer string | SigAnswer string | SigCandidate string | SigOther

datatype peer_out =
    SendSignal sig_payload
  | PEmit string "js list"
  | RtcCreateOffer
  | RtcCreateAnswer
  | RtcSetLocal string
  | RtcSetRemote sig_payload
  | RtcAddCandidate js
  | RtcRestart
  | RtcClose
  | ChanCreate nat
  | ChanSend nat js
  | ChanClose nat
  | RtcAddTrack nat nat           \<comment> \<open>\<open>addTrack(track, stream)\<close>\<close>
  | RtcRemoveTrack nat            \<comment> \<open>\<open>removeTrack(sender)\<close>\<close>

definition new_Peer :: peer where
  "new_Peer = \<lparr>p_chans = [], p_channels = [], p_pending = [], p_remoteSet = False, p_closed = False, p_making = False,
     p_sig = Stable, p_jobs = [], p_fresh = 0\<rparr>"

definition spawn :: "job \<Rightarrow> peer \<Rightarrow> peer" where
  "spawn j s = s\<lparr>p_jobs := p_jobs s @ [(p_fresh s, j)], p_fresh := Suc (p_fresh s)\<rparr>"

section \<open>Channels\<close>

definition setupChannel :: "nat \<Rightarrow> peer \<Rightarrow> peer" where
  "setupChannel k s = s\<lparr>p_channels := map_set (ch_label (p_chans s ! k)) k (p_channels s)\<rparr>"

definition new_chan :: "string \<Rightarrow> peer \<Rightarrow> peer" where
  "new_chan l s = (let s1 = s\<lparr>p_chans := p_chans s @ [\<lparr>ch_label = l, ch_open = False\<rparr>]\<rparr> in setupChannel (length (p_chans s)) s1)"

definition createDataChannel :: "string option \<Rightarrow> peer \<Rightarrow> peer \<times> peer_out list" where
  "createDataChannel label s =
     (new_chan (case label of None \<Rightarrow> ''extra'' | Some l \<Rightarrow> l) s, [ChanCreate (length (p_chans s))])"

text \<open>\<open>send\<close> and \<open>sendBinary\<close>: an exception is \<open>Inl\<close> with its message.\<close>

definition peer_send :: "js \<Rightarrow> string option \<Rightarrow> peer \<Rightarrow> string + peer_out list" where
  "peer_send d channel s =
     (let label = (case channel of None \<Rightarrow> ''data'' | Some l \<Rightarrow> l) in
      case map_get (p_channels s) label of
        Some k \<Rightarrow> if ch_open (p_chans s ! k) then Inr [ChanSend k d] else Inl (''Channel \"'' @ label @ ''\" not open'')
      | None \<Rightarrow> Inl (''Channel \"'' @ label @ ''\" not open''))"

definition chan_opens :: "nat \<Rightarrow> peer \<Rightarrow> peer \<times> peer_out list" where
  "chan_opens k s =
     (s\<lparr>p_chans := (p_chans s)[k := (p_chans s ! k)\<lparr>ch_open := True\<rparr>]\<rparr>, [PEmit ''datachannel:open'' [JStr (ch_label (p_chans s ! k))]])"

definition chan_closes :: "nat \<Rightarrow> peer \<Rightarrow> peer \<times> peer_out list" where
  "chan_closes k s =
     (let l = ch_label (p_chans s ! k)
      in (s\<lparr>p_chans := (p_chans s)[k := (p_chans s ! k)\<lparr>ch_open := False\<rparr>], p_channels := map_del l (p_channels s)\<rparr>,
          [PEmit ''datachannel:close'' [JStr l]]))"

text \<open>\<open>onmessage\<close>: text is parsed if it can be.\<close>

definition chan_message :: "(string \<Rightarrow> js option) \<Rightarrow> nat \<Rightarrow> string \<Rightarrow> peer \<Rightarrow> peer_out list" where
  "chan_message parse k t s =
     [PEmit ''data'' [(case parse t of Some v \<Rightarrow> v | None \<Rightarrow> JStr t), JStr (ch_label (p_chans s ! k))]]"

definition on_datachannel :: "string \<Rightarrow> peer \<Rightarrow> peer \<times> peer_out list" where
  "on_datachannel l s = (new_chan l s, [PEmit ''datachannel:create'' [JStr l]])"

section \<open>Media\<close>

text \<open>
  Tracks, streams and senders are references.  \<open>ok\<close> says whether \<open>addTrack\<close> returns; an exception ends
  the loop, and the second component says that it was thrown.  \<open>senders\<close> is what \<open>getSenders\<close> returned,
  each with its track.
\<close>

definition addStream :: "(nat \<Rightarrow> bool) \<Rightarrow> nat \<Rightarrow> nat list \<Rightarrow> peer_out list \<times> bool" where
  "addStream ok stream tracks = (map (\<lambda>t. RtcAddTrack t stream) (takeWhile ok tracks), \<not> list_all ok tracks)"

definition removeStream :: "(nat \<times> nat option) list \<Rightarrow> nat list \<Rightarrow> peer_out list" where
  "removeStream senders tracks =
     List.map_filter (\<lambda>t. map_option (\<lambda>x. RtcRemoveTrack (fst x)) (List.find (\<lambda>x. snd x = Some t) senders)) tracks"

definition on_track :: "js \<Rightarrow> js list \<Rightarrow> peer_out list" where
  "on_track track streams =
     PEmit ''track'' [track, JArr streams] # (case streams of [] \<Rightarrow> [] | m # ms \<Rightarrow> if truthy m then [PEmit ''stream'' [m]] else [])"

section \<open>Getters\<close>

definition peer_connectionState :: "string \<Rightarrow> peer \<Rightarrow> string" where
  "peer_connectionState pc s = (if p_closed s then ''closed'' else pc)"

definition getBufferedAmount :: "(nat \<Rightarrow> nat) \<Rightarrow> string option \<Rightarrow> peer \<Rightarrow> nat" where
  "getBufferedAmount amount channel s =
     (case map_get (p_channels s) (case channel of None \<Rightarrow> ''data'' | Some l \<Rightarrow> l) of None \<Rightarrow> 0 | Some k \<Rightarrow> amount k)"

section \<open>Offers\<close>

definition createOffer :: "string option \<Rightarrow> peer \<Rightarrow> peer \<times> peer_out list" where
  "createOffer label s =
     (let s1 = new_chan (case label of None \<Rightarrow> ''data'' | Some l \<Rightarrow> l) (s\<lparr>p_making := True\<rparr>)
      in (spawn OfferCreate s1, [ChanCreate (length (p_chans s)), RtcCreateOffer]))"

definition on_negotiationneeded :: "peer \<Rightarrow> peer \<times> peer_out list" where
  "on_negotiationneeded s =
     (if p_closed s \<or> p_making s then (s, []) else (spawn NegCreate (s\<lparr>p_making := True\<rparr>), [RtcCreateOffer]))"

definition restartIce :: "peer \<Rightarrow> peer \<times> peer_out list" where
  "restartIce s = (if p_closed s then (s, []) else (spawn RestartCreate s, [RtcRestart, RtcCreateOffer]))"

definition peer_closes :: "peer \<Rightarrow> peer \<times> peer_out list" where
  "peer_closes s =
     (if p_closed s then (s, [])
      else (s\<lparr>p_closed := True, p_channels := [], p_sig := SigClosed,
              p_chans := fold (\<lambda>k cs. cs[k := (cs ! k)\<lparr>ch_open := False\<rparr>]) (map_vals (p_channels s)) (p_chans s)\<rparr>,
            map ChanClose (map_vals (p_channels s)) @ [RtcClose]))"

text \<open>\<open>onconnectionstatechange\<close>, \<open>oniceconnectionstatechange\<close> and \<open>onicecandidate\<close>.\<close>

definition on_connectionstate :: "string \<Rightarrow> peer \<Rightarrow> peer_out list" where
  "on_connectionstate st s =
     (if p_closed s then []
      else (if st = ''connected'' then [PEmit ''connected'' []] else []) @
           (if st \<in> {''disconnected'', ''failed'', ''closed''} then [PEmit ''disconnected'' [JStr st]] else []))"

definition on_iceconnectionstate :: "string \<Rightarrow> peer \<Rightarrow> peer \<times> peer_out list" where
  "on_iceconnectionstate st s = (if p_closed s \<or> st \<noteq> ''failed'' then (s, []) else restartIce s)"

definition on_icecandidate :: "string option \<Rightarrow> peer_out list" where
  "on_icecandidate cand = (case cand of None \<Rightarrow> [] | Some c \<Rightarrow> [SendSignal (SigCandidate c)])"

section \<open>Signals\<close>

definition handleSignal :: "(string \<Rightarrow> js option) \<Rightarrow> sig_payload \<Rightarrow> peer \<Rightarrow> peer \<times> peer_out list" where
  "handleSignal parse p s =
     (if p_closed s then (s, [])
      else case p of
        SigOffer sdp \<Rightarrow>
          if p_making s \<or> p_sig s \<noteq> Stable then (s, [])
          else (spawn (RemoteSet OfferFlow) s, [RtcSetRemote p])
      | SigAnswer sdp \<Rightarrow>
          if p_sig s = Stable then (s, []) else (spawn (RemoteSet AnswerFlow) s, [RtcSetRemote p])
      | SigCandidate t \<Rightarrow>
          (case parse t of
             None \<Rightarrow> (s, [PEmit ''error'' []])
           | Some v \<Rightarrow>
               if p_remoteSet s then (spawn CandAdd s, [RtcAddCandidate v])
               else (s\<lparr>p_pending := p_pending s @ [v]\<rparr>, []))
      | SigOther \<Rightarrow> (s, []))"

text \<open>
  \<open>flushCandidates\<close> on the candidates \<open>cs\<close> still to be added, and what follows it in
  \<open>handleSignal\<close>.
\<close>

definition after_flush :: "flow \<Rightarrow> peer \<Rightarrow> peer \<times> peer_out list" where
  "after_flush f s =
     (let s1 = s\<lparr>p_pending := []\<rparr> in
      case f of OfferFlow \<Rightarrow> (spawn AnswerCreate s1, [RtcCreateAnswer]) | AnswerFlow \<Rightarrow> (s1, []))"

definition flushCandidates :: "flow \<Rightarrow> js list \<Rightarrow> peer \<Rightarrow> peer \<times> peer_out list" where
  "flushCandidates f cs s =
     (case cs of [] \<Rightarrow> after_flush f s | c # cs' \<Rightarrow> (spawn (Flushing f cs') s, [RtcAddCandidate c]))"

text \<open>A suspended method goes on with the description the operation produced, or with its error.\<close>

fun resume :: "job \<Rightarrow> string \<Rightarrow> peer \<Rightarrow> peer \<times> peer_out list" where
  "resume NegCreate sdp s =
     (if p_sig s \<noteq> Stable then (s\<lparr>p_making := False\<rparr>, []) else (spawn (NegLocal sdp) s, [RtcSetLocal sdp]))"
| "resume (NegLocal o1) sdp s = (s\<lparr>p_making := False\<rparr>, [SendSignal (SigOffer o1)])"
| "resume OfferCreate sdp s =
     (if p_sig s = SigClosed then (s\<lparr>p_making := False\<rparr>, []) else (spawn (OfferLocal sdp) s, [RtcSetLocal sdp]))"
| "resume (OfferLocal o1) sdp s = (s\<lparr>p_making := False\<rparr>, [SendSignal (SigOffer o1)])"
| "resume RestartCreate sdp s =
     (if p_closed s \<or> p_sig s \<noteq> Stable then (s, []) else (spawn (RestartLocal sdp) s, [RtcSetLocal sdp]))"
| "resume (RestartLocal o1) sdp s = (s, [SendSignal (SigOffer o1)])"
| "resume (RemoteSet f) sdp s = (let s1 = s\<lparr>p_remoteSet := True\<rparr> in flushCandidates f (p_pending s1) s1)"
| "resume (Flushing f cs) sdp s = flushCandidates f cs s"
| "resume AnswerCreate sdp s = (spawn (AnswerLocal sdp) s, [RtcSetLocal sdp])"
| "resume (AnswerLocal a) sdp s = (s, [SendSignal (SigAnswer a)])"
| "resume CandAdd sdp s = (s, [])"

fun resume_error :: "job \<Rightarrow> peer \<Rightarrow> peer \<times> peer_out list" where
  "resume_error NegCreate s = (s\<lparr>p_making := False\<rparr>, [PEmit ''error'' []])"
| "resume_error (NegLocal o1) s = (s\<lparr>p_making := False\<rparr>, [PEmit ''error'' []])"
| "resume_error OfferCreate s = (s\<lparr>p_making := False\<rparr>, [])"
| "resume_error (OfferLocal o1) s = (s\<lparr>p_making := False\<rparr>, [])"
| "resume_error (Flushing f cs) s = (let (s1, out) = flushCandidates f cs s in (s1, PEmit ''error'' [] # out))"
| "resume_error j s = (s, [PEmit ''error'' []])"

section \<open>The machine\<close>

datatype peer_event =
    CreateOfferCall "string option"
  | Signal sig_payload
  | Done nat string sig_state
  | Fails nat
  | NegotiationNeeded
  | RestartCall
  | ConnectionState string
  | IceState string
  | IceCandidate "string option"
  | DataChannel string
  | CreateChannelCall "string option"
  | ChanOpens nat
  | ChanCloses nat
  | ChanMessage nat string
  | PeerCloseCall

definition finish_job :: "nat \<Rightarrow> peer \<Rightarrow> peer" where
  "finish_job i s = s\<lparr>p_jobs := map_del i (p_jobs s)\<rparr>"

fun peer_step :: "(string \<Rightarrow> js option) \<Rightarrow> peer \<Rightarrow> peer_event \<Rightarrow> peer \<times> peer_out list" where
  "peer_step parse s (CreateOfferCall l) = createOffer l s"
| "peer_step parse s (Signal p) = handleSignal parse p s"
| "peer_step parse s (Done i sdp sg) =
     (case map_get (p_jobs s) i of
        None \<Rightarrow> (s, [])
      | Some j \<Rightarrow> resume j sdp ((finish_job i s)\<lparr>p_sig := sg\<rparr>))"
| "peer_step parse s (Fails i) =
     (case map_get (p_jobs s) i of None \<Rightarrow> (s, []) | Some j \<Rightarrow> resume_error j (finish_job i s))"
| "peer_step parse s NegotiationNeeded = on_negotiationneeded s"
| "peer_step parse s RestartCall = restartIce s"
| "peer_step parse s (ConnectionState st) = (s, on_connectionstate st s)"
| "peer_step parse s (IceState st) = on_iceconnectionstate st s"
| "peer_step parse s (IceCandidate c) = (s, on_icecandidate c)"
| "peer_step parse s (DataChannel l) = on_datachannel l s"
| "peer_step parse s (CreateChannelCall l) = createDataChannel l s"
| "peer_step parse s (ChanOpens k) = (if k < length (p_chans s) then chan_opens k s else (s, []))"
| "peer_step parse s (ChanCloses k) = (if k < length (p_chans s) then chan_closes k s else (s, []))"
| "peer_step parse s (ChanMessage k t) = (s, if k < length (p_chans s) then chan_message parse k t s else [])"
| "peer_step parse s PeerCloseCall = peer_closes s"

end
