(* ===== verification/Peer_Props.thy ===== *)
theory Peer_Props
  imports Peer
begin

text \<open>
  The properties of \<open>Peer\<close>: no candidate the remote sends is lost, whatever the order in which signals
  and completions arrive, and two peers that both start with an offer never get past it.
\<close>

section \<open>Jobs\<close>

definition jobs_wf :: "peer \<Rightarrow> bool" where
  "jobs_wf s = (map_wf (p_jobs s) \<and> (\<forall>i\<in>set (map_keys (p_jobs s)). i < p_fresh s))"

definition has_job :: "peer \<Rightarrow> job \<Rightarrow> bool" where
  "has_job s j = (j \<in> set (map_vals (p_jobs s)))"

lemma spawn_fields [simp]:
  "p_pending (spawn j s) = p_pending s" "p_remoteSet (spawn j s) = p_remoteSet s" "p_sig (spawn j s) = p_sig s"
  "p_closed (spawn j s) = p_closed s" "p_making (spawn j s) = p_making s" "has_job (spawn j s) k = (has_job s k \<or> k = j)"
  by (auto simp: spawn_def has_job_def)

lemma jobs_wf_spawn [simp]: "jobs_wf s \<Longrightarrow> jobs_wf (spawn j s)"
  by (fastforce simp: jobs_wf_def spawn_def)

lemma has_job_remaining:
  assumes "jobs_wf s" "map_get (p_jobs s) i = Some j"
  shows "has_job s k \<longleftrightarrow> k = j \<or> has_job (finish_job i s) k" "jobs_wf (finish_job i s)"
proof -
  show "jobs_wf (finish_job i s)" using assms(1) by (auto simp: jobs_wf_def finish_job_def map_keys_del distinct_removeAll)
  show "has_job s k \<longleftrightarrow> k = j \<or> has_job (finish_job i s) k"
  proof
    assume "has_job s k"
    then obtain i' where "(i', k) \<in> set (p_jobs s)" by (auto simp: has_job_def)
    then show "k = j \<or> has_job (finish_job i s) k"
      using assms by (cases "i' = i") (force simp: jobs_wf_def has_job_def finish_job_def set_map_del map_wf_get_iff)+
  next
    assume "k = j \<or> has_job (finish_job i s) k"
    then show "has_job s k"
      using map_of_SomeD [OF assms(2)] by (force simp: has_job_def finish_job_def set_map_del)
  qed
qed

lemma finish_job_fields [simp]:
  "p_pending (finish_job i s) = p_pending s" "p_remoteSet (finish_job i s) = p_remoteSet s"
  "p_sig (finish_job i s) = p_sig s" "p_making (finish_job i s) = p_making s" "p_closed (finish_job i s) = p_closed s"
  by (simp_all add: finish_job_def)

lemma has_job_upd [simp]:
  "has_job (s\<lparr>p_sig := g\<rparr>) k = has_job s k" "has_job (s\<lparr>p_making := m\<rparr>) k = has_job s k"
  "has_job (s\<lparr>p_remoteSet := b\<rparr>) k = has_job s k" "has_job (s\<lparr>p_pending := q\<rparr>) k = has_job s k"
  "has_job (s\<lparr>p_channels := c\<rparr>) k = has_job s k" "has_job (s\<lparr>p_chans := d\<rparr>) k = has_job s k"
  "has_job (s\<lparr>p_closed := b\<rparr>) k = has_job s k"
  by (simp_all add: has_job_def)

lemma jobs_wf_upd [simp]:
  "jobs_wf (s\<lparr>p_sig := g\<rparr>) = jobs_wf s" "jobs_wf (s\<lparr>p_making := m\<rparr>) = jobs_wf s"
  "jobs_wf (s\<lparr>p_remoteSet := b\<rparr>) = jobs_wf s" "jobs_wf (s\<lparr>p_pending := q\<rparr>) = jobs_wf s"
  "jobs_wf (s\<lparr>p_channels := c\<rparr>) = jobs_wf s" "jobs_wf (s\<lparr>p_chans := d\<rparr>) = jobs_wf s"
  "jobs_wf (s\<lparr>p_closed := b\<rparr>) = jobs_wf s"
  by (simp_all add: jobs_wf_def)

section \<open>Candidates\<close>

text \<open>The candidates an event brings in and those a step hands to the connection.\<close>

definition brought :: "(string \<Rightarrow> js option) \<Rightarrow> peer \<Rightarrow> peer_event \<Rightarrow> js list" where
  "brought parse s e = (case e of
      Signal (SigCandidate t) \<Rightarrow> (if p_closed s then [] else case parse t of None \<Rightarrow> [] | Some v \<Rightarrow> [v])
    | _ \<Rightarrow> [])"

fun received :: "(string \<Rightarrow> js option) \<Rightarrow> peer \<Rightarrow> peer_event list \<Rightarrow> js list" where
  "received parse s [] = []"
| "received parse s (e # es) = brought parse s e @ received parse (fst (peer_step parse s e)) es"

definition added :: "peer_out list \<Rightarrow> js set" where
  "added out = {c. RtcAddCandidate c \<in> set out}"

lemma added_simps [simp]:
  "added [] = {}" "added (RtcAddCandidate c # out) = insert c (added out)" "added (a @ b) = added a \<union> added b"
  "(\<And>c. x \<noteq> RtcAddCandidate c) \<Longrightarrow> added (x # out) = added out"
  by (auto simp: added_def)

text \<open>
  What holds between the state and the candidates \<open>A\<close> already handed over: a flush that is under way
  still has to add whatever is pending and not yet added, and pending candidates of a peer with a
  remote description have a flush under way.
\<close>

definition cand_inv :: "js set \<Rightarrow> peer \<Rightarrow> bool" where
  "cand_inv A s = (jobs_wf s
     \<and> (\<forall>f cs. has_job s (Flushing f cs) \<longrightarrow> p_remoteSet s \<and> set (p_pending s) \<subseteq> A \<union> set cs)
     \<and> (p_remoteSet s \<and> p_pending s \<noteq> [] \<longrightarrow> (\<exists>f cs. has_job s (Flushing f cs))))"

definition plain_job :: "job \<Rightarrow> bool" where
  "plain_job j = (\<forall>f cs. j \<noteq> Flushing f cs)"

lemma plain_job_simps [simp]:
  "plain_job NegCreate" "plain_job (NegLocal o1)" "plain_job OfferCreate" "plain_job (OfferLocal o1)"
  "plain_job RestartCreate" "plain_job (RestartLocal o1)" "plain_job (RemoteSet f)" "plain_job AnswerCreate"
  "plain_job (AnswerLocal o1)" "plain_job CandAdd" "\<not> plain_job (Flushing f cs)"
  by (simp_all add: plain_job_def)

lemma cand_inv_mono: "cand_inv A s \<Longrightarrow> A \<subseteq> B \<Longrightarrow> cand_inv B s"
  by (auto simp: cand_inv_def)

lemma cand_inv_frame:
  assumes "cand_inv A s" "p_pending t = p_pending s" "p_remoteSet t = p_remoteSet s" "jobs_wf t"
    "\<And>f cs. has_job t (Flushing f cs) = has_job s (Flushing f cs)"
  shows "cand_inv A t"
  using assms by (simp add: cand_inv_def)

lemma cand_inv_spawn: "cand_inv A s \<Longrightarrow> plain_job j \<Longrightarrow> cand_inv A (spawn j s)"
  by (rule cand_inv_frame [of A s]) (auto simp: cand_inv_def plain_job_def)

lemma cand_inv_finish_plain:
  "cand_inv A s \<Longrightarrow> map_get (p_jobs s) i = Some j \<Longrightarrow> plain_job j \<Longrightarrow> cand_inv A (finish_job i s)"
proof (rule cand_inv_frame [of A s])
  assume a: "cand_inv A s" "map_get (p_jobs s) i = Some j" "plain_job j"
  then have wf: "jobs_wf s" by (simp add: cand_inv_def)
  show "jobs_wf (finish_job i s)" by (rule has_job_remaining [OF wf a(2)])
  show "has_job (finish_job i s) (Flushing f cs) = has_job s (Flushing f cs)" for f cs
    using has_job_remaining(1) [OF wf a(2), of "Flushing f cs"] a(3) by (auto simp: plain_job_def)
qed simp_all

lemma cand_inv_upd [simp]:
  "cand_inv A (s\<lparr>p_sig := g\<rparr>) = cand_inv A s" "cand_inv A (s\<lparr>p_making := m\<rparr>) = cand_inv A s"
  "cand_inv A (s\<lparr>p_channels := c\<rparr>) = cand_inv A s" "cand_inv A (s\<lparr>p_chans := d\<rparr>) = cand_inv A s"
  "cand_inv A (s\<lparr>p_closed := b\<rparr>) = cand_inv A s"
  by (simp_all add: cand_inv_def)

lemma cand_inv_new_chan [simp]: "cand_inv A (new_chan l s) = cand_inv A s"
  by (simp add: new_chan_def setupChannel_def Let_def)

text \<open>A flush that still has to add \<open>cs\<close>, in a state where its own job is gone.\<close>

lemma flush_inv:
  assumes "jobs_wf s" "p_remoteSet s" "set (p_pending s) \<subseteq> A \<union> set cs"
    and "\<And>f cs. has_job s (Flushing f cs) \<Longrightarrow> set (p_pending s) \<subseteq> A \<union> set cs"
  shows "cand_inv (A \<union> added (snd (flushCandidates f cs s))) (fst (flushCandidates f cs s))
    \<and> set (p_pending s) \<subseteq> set (p_pending (fst (flushCandidates f cs s))) \<union> A \<union> added (snd (flushCandidates f cs s))"
proof (cases cs)
  case Nil
  with assms show ?thesis
    by (cases f) (auto simp: flushCandidates_def after_flush_def Let_def cand_inv_def)
next
  case (Cons c cs')
  with assms show ?thesis by (fastforce simp: flushCandidates_def cand_inv_def)
qed

lemma resume_inv:
  assumes inv: "cand_inv A s" and j: "map_get (p_jobs s) i = Some j" and t: "t = (finish_job i s)\<lparr>p_sig := g\<rparr>"
  shows "cand_inv (A \<union> added (snd (resume j sdp t))) (fst (resume j sdp t))
    \<and> set (p_pending s) \<subseteq> set (p_pending (fst (resume j sdp t))) \<union> A \<union> added (snd (resume j sdp t))"
proof -
  have wf: "jobs_wf s" using inv by (simp add: cand_inv_def)
  note rem = has_job_remaining [OF wf j]
  have plain: "plain_job j \<Longrightarrow> cand_inv A t" using cand_inv_finish_plain [OF inv j] by (simp add: t)
  show ?thesis
  proof (cases j)
    case (RemoteSet f)
    have i: "set (p_pending s) \<subseteq> A \<union> set cs" if "has_job (finish_job i s) (Flushing f' cs)" for f' cs
      using inv that rem(1) unfolding cand_inv_def by blast
    have "cand_inv (A \<union> added (snd (flushCandidates f (p_pending s) (t\<lparr>p_remoteSet := True\<rparr>))))
        (fst (flushCandidates f (p_pending s) (t\<lparr>p_remoteSet := True\<rparr>)))
      \<and> set (p_pending s) \<subseteq> set (p_pending (fst (flushCandidates f (p_pending s) (t\<lparr>p_remoteSet := True\<rparr>))))
        \<union> A \<union> added (snd (flushCandidates f (p_pending s) (t\<lparr>p_remoteSet := True\<rparr>)))"
      using flush_inv [of "t\<lparr>p_remoteSet := True\<rparr>" A "p_pending s" f, simplified t, simplified, OF rem(2) i] by (simp add: t)
    then show ?thesis by (simp add: RemoteSet t Let_def)
  next
    case (Flushing f cs)
    have h: "has_job s (Flushing f cs)" using rem(1) Flushing by simp
    have i: "set (p_pending s) \<subseteq> A \<union> set cs'" if "has_job (finish_job i s) (Flushing f' cs')" for f' cs'
      using inv that rem(1) unfolding cand_inv_def by blast
    have "p_remoteSet s" "set (p_pending s) \<subseteq> A \<union> set cs" using h inv unfolding cand_inv_def by blast+
    then show ?thesis
      using flush_inv [of t A cs f, simplified t, simplified, OF rem(2) _ _ i] by (simp add: Flushing t)
  qed (use plain in \<open>auto simp: t cand_inv_spawn\<close>)
qed

lemma resume_error_inv:
  assumes inv: "cand_inv A s" and j: "map_get (p_jobs s) i = Some j"
  shows "cand_inv (A \<union> added (snd (resume_error j (finish_job i s)))) (fst (resume_error j (finish_job i s)))
    \<and> set (p_pending s) \<subseteq> set (p_pending (fst (resume_error j (finish_job i s)))) \<union> A \<union> added (snd (resume_error j (finish_job i s)))"
proof (cases j)
  case (Flushing f cs)
  have same: "(finish_job i s)\<lparr>p_sig := p_sig s\<rparr> = finish_job i s" by (simp add: finish_job_def)
  from resume_inv [OF inv j same [symmetric], of "[]"] show ?thesis
    by (simp add: Flushing split_def Let_def)
qed (use cand_inv_finish_plain [OF inv j] in simp_all)

text \<open>One step keeps the invariant and loses nothing.\<close>

definition keeps_all :: "js set \<Rightarrow> peer \<Rightarrow> js list \<Rightarrow> peer \<times> peer_out list \<Rightarrow> bool" where
  "keeps_all A s new r = (cand_inv (A \<union> added (snd r)) (fst r)
     \<and> set (p_pending s) \<union> set new \<subseteq> set (p_pending (fst r)) \<union> A \<union> added (snd r))"

lemma keeps_all_plain:
  "cand_inv A (fst r) \<Longrightarrow> p_pending (fst r) = p_pending s \<Longrightarrow> keeps_all A s [] r"
  by (auto simp: keeps_all_def intro: cand_inv_mono)

lemma new_chan_pending [simp]: "p_pending (new_chan l s) = p_pending s"
  by (simp add: new_chan_def setupChannel_def Let_def)

lemma handleSignal_keeps:
  assumes "cand_inv A s"
  shows "keeps_all A s (brought parse s (Signal p)) (handleSignal parse p s)"
proof (cases p)
  case (SigCandidate t)
  show ?thesis
  proof (cases "p_closed s \<or> parse t = None \<or> p_remoteSet s")
    case True
    with assms show ?thesis
      by (auto simp: SigCandidate keeps_all_def handleSignal_def brought_def intro: cand_inv_spawn cand_inv_mono split: option.split)
  next
    case False
    then obtain v where v: "parse t = Some v" by auto
    from assms False have "\<not> has_job s (Flushing f cs)" for f cs by (auto simp: cand_inv_def)
    with assms False show ?thesis
      by (simp add: SigCandidate keeps_all_def handleSignal_def brought_def v cand_inv_def) blast
  qed
qed (use assms in \<open>auto simp: handleSignal_def brought_def intro!: keeps_all_plain cand_inv_spawn\<close>)

lemma peer_step_keeps:
  assumes inv: "cand_inv A s"
  shows "keeps_all A s (brought parse s e) (peer_step parse s e)"
proof (cases e)
  case (Signal p)
  with handleSignal_keeps [OF inv] show ?thesis by simp
next
  case (Done i sdp g)
  show ?thesis
  proof (cases "map_get (p_jobs s) i")
    case (Some j)
    from resume_inv [OF inv Some refl, where g = g and sdp = sdp] show ?thesis by (simp add: Done Some keeps_all_def brought_def)
  qed (use inv in \<open>simp add: Done keeps_all_def brought_def\<close>)
next
  case (Fails i)
  show ?thesis
  proof (cases "map_get (p_jobs s) i")
    case (Some j)
    from resume_error_inv [OF inv Some] show ?thesis by (simp add: Fails Some keeps_all_def brought_def)
  qed (use inv in \<open>simp add: Fails keeps_all_def brought_def\<close>)
qed (use inv in \<open>auto simp: brought_def createOffer_def on_negotiationneeded_def restartIce_def on_iceconnectionstate_def
    on_datachannel_def createDataChannel_def chan_opens_def chan_closes_def peer_closes_def Let_def
    intro!: keeps_all_plain cand_inv_spawn\<close>)

lemma run_keeps:
  assumes "cand_inv A s"
  shows "cand_inv (A \<union> added (snd (run (peer_step parse) s es))) (run_state (peer_step parse) s es)
    \<and> set (p_pending s) \<union> set (received parse s es)
       \<subseteq> set (p_pending (run_state (peer_step parse) s es)) \<union> A \<union> added (snd (run (peer_step parse) s es))"
  using assms
proof (induction es arbitrary: A s)
  case (Cons e es)
  obtain s1 o1 where s1: "peer_step parse s e = (s1, o1)" by force
  obtain s2 o2 where s2: "run (peer_step parse) s1 es = (s2, o2)" by force
  from peer_step_keeps [OF Cons.prems, of parse e]
  have k: "cand_inv (A \<union> added o1) s1" "set (p_pending s) \<union> set (brought parse s e) \<subseteq> set (p_pending s1) \<union> A \<union> added o1"
    by (simp_all add: keeps_all_def s1)
  from Cons.IH [OF k(1)] k(2) show ?case by (auto simp: s1 s2 Un_assoc)
qed simp

text \<open>
  C24. No candidate is lost.  However signals, completions and failures of the connection's
  operations interleave, every candidate the peer has taken in has been handed to the connection or is
  still pending; and once a remote description is set and no operation is under way, none is pending,
  so all have been handed over.
\<close>

theorem candidates_not_lost:
  assumes "run (peer_step parse) new_Peer es = (s, out)"
  shows "set (received parse new_Peer es) \<subseteq> added out \<union> set (p_pending s)
    \<and> (p_remoteSet s \<and> p_jobs s = [] \<longrightarrow> set (received parse new_Peer es) \<subseteq> added out)"
proof -
  have "cand_inv {} new_Peer" by (simp add: cand_inv_def new_Peer_def jobs_wf_def has_job_def)
  from run_keeps [OF this, of parse es] assms
  have "cand_inv (added out) s" "set (received parse new_Peer es) \<subseteq> set (p_pending s) \<union> added out" by auto
  moreover from this(1) have "p_remoteSet s \<and> p_jobs s = [] \<Longrightarrow> p_pending s = []"
    by (auto simp: cand_inv_def has_job_def)
  ultimately show ?thesis by auto
qed

theorem candidates_not_lost_witness:
  "set (received (\<lambda>t. Some (JStr t)) new_Peer
     [Signal (SigCandidate ''c1''), Signal (SigOffer ''sdp''), Signal (SigCandidate ''c2''), Done 0 [] HaveRemoteOffer, Fails 1,
      Done 2 [] HaveRemoteOffer, Done 3 ''ans'' HaveRemoteOffer, Done 4 [] Stable])
   \<subseteq> added (snd (run (peer_step (\<lambda>t. Some (JStr t))) new_Peer
     [Signal (SigCandidate ''c1''), Signal (SigOffer ''sdp''), Signal (SigCandidate ''c2''), Done 0 [] HaveRemoteOffer, Fails 1,
      Done 2 [] HaveRemoteOffer, Done 3 ''ans'' HaveRemoteOffer, Done 4 [] Stable]))"
  using candidates_not_lost [OF prod.collapse [symmetric], of "\<lambda>t. Some (JStr t)"
     "[Signal (SigCandidate ''c1''), Signal (SigOffer ''sdp''), Signal (SigCandidate ''c2''), Done 0 [] HaveRemoteOffer, Fails 1,
      Done 2 [] HaveRemoteOffer, Done 3 ''ans'' HaveRemoteOffer, Done 4 [] Stable]"]
  by (simp add: new_Peer_def handleSignal_def spawn_def finish_job_def flushCandidates_def after_flush_def Let_def)

section \<open>Two peers\<close>

text \<open>
  Two peers and the signals in flight between them.  The signalling state that an operation leaves
  behind is the one the WebRTC specification prescribes.
\<close>

fun rtc_sig :: "job \<Rightarrow> sig_state \<Rightarrow> sig_state" where
  "rtc_sig (NegLocal o1) g = HaveLocalOffer"
| "rtc_sig (OfferLocal o1) g = HaveLocalOffer"
| "rtc_sig (RestartLocal o1) g = HaveLocalOffer"
| "rtc_sig (RemoteSet OfferFlow) g = HaveRemoteOffer"
| "rtc_sig (RemoteSet AnswerFlow) g = Stable"
| "rtc_sig (AnswerLocal a) g = Stable"
| "rtc_sig j g = g"

record duo =
  d_a :: peer
  d_b :: peer
  d_ab :: "sig_payload list"
  d_ba :: "sig_payload list"

definition signals :: "peer_out list \<Rightarrow> sig_payload list" where
  "signals out = List.map_filter (\<lambda>x. case x of SendSignal p \<Rightarrow> Some p | _ \<Rightarrow> None) out"

text \<open>Events of a peer other than signals: nothing fails and the application does not close the peer.\<close>

definition local_event :: "peer \<Rightarrow> peer_event \<Rightarrow> bool" where
  "local_event s e = (case e of
      Signal p \<Rightarrow> False
    | PeerCloseCall \<Rightarrow> False
    | Fails i \<Rightarrow> False
    | Done i sdp g \<Rightarrow> (case map_get (p_jobs s) i of None \<Rightarrow> True | Some j \<Rightarrow> g = rtc_sig j (p_sig s))
    | _ \<Rightarrow> True)"

inductive duo_step :: "(string \<Rightarrow> js option) \<Rightarrow> duo \<Rightarrow> bool \<Rightarrow> duo \<Rightarrow> bool" for parse where
  act_a: "local_event (d_a s) e \<Longrightarrow> peer_step parse (d_a s) e = (a, out) \<Longrightarrow>
    duo_step parse s True (s\<lparr>d_a := a, d_ab := d_ab s @ signals out\<rparr>)"
| act_b: "local_event (d_b s) e \<Longrightarrow> peer_step parse (d_b s) e = (b, out) \<Longrightarrow>
    duo_step parse s False (s\<lparr>d_b := b, d_ba := d_ba s @ signals out\<rparr>)"
| recv_b: "d_ab s = p # q \<Longrightarrow> peer_step parse (d_b s) (Signal p) = (b, out) \<Longrightarrow>
    duo_step parse s False (s\<lparr>d_b := b, d_ab := q, d_ba := d_ba s @ signals out\<rparr>)"
| recv_a: "d_ba s = p # q \<Longrightarrow> peer_step parse (d_a s) (Signal p) = (a, out) \<Longrightarrow>
    duo_step parse s True (s\<lparr>d_a := a, d_ba := q, d_ab := d_ab s @ signals out\<rparr>)"

inductive_cases duo_stepE: "duo_step parse s w t"

text \<open>Both have called \<open>createOffer\<close>, and no signal is in flight yet.\<close>

definition both_offer :: "duo \<Rightarrow> bool" where
  "both_offer s = (\<exists>l m. s = \<lparr>d_a = fst (createOffer l new_Peer), d_b = fst (createOffer m new_Peer), d_ab = [], d_ba = []\<rparr>)"

definition offering_job :: "job \<Rightarrow> bool" where
  "offering_job j = (case j of RemoteSet f \<Rightarrow> False | Flushing f cs \<Rightarrow> False | AnswerCreate \<Rightarrow> False | AnswerLocal a \<Rightarrow> False
     | _ \<Rightarrow> True)"

definition stuck :: "peer \<Rightarrow> bool" where
  "stuck s = (\<not> p_closed s \<and> \<not> p_remoteSet s \<and> (\<forall>j\<in>set (map_vals (p_jobs s)). offering_job j)
     \<and> (p_sig s = HaveLocalOffer \<or> p_sig s = Stable \<and> p_making s))"

definition no_answer :: "sig_payload list \<Rightarrow> bool" where
  "no_answer ps = (\<forall>p\<in>set ps. \<forall>a. p \<noteq> SigAnswer a)"

lemma signals_simps [simp]:
  "signals [] = []" "signals (SendSignal p # out) = p # signals out" "signals (a @ b) = signals a @ signals b"
  "(\<And>p. x \<noteq> SendSignal p) \<Longrightarrow> signals (x # out) = signals out"
  by (auto simp: signals_def List.map_filter_def split: peer_out.split)

lemma no_answer_simps [simp]:
  "no_answer []" "no_answer (a @ b) = (no_answer a \<and> no_answer b)"
  "no_answer (p # ps) = ((\<forall>a. p \<noteq> SigAnswer a) \<and> no_answer ps)"
  by (auto simp: no_answer_def)

lemma stuck_spawn: "stuck s \<Longrightarrow> offering_job j \<Longrightarrow> stuck (spawn j s)"
  by (auto simp: stuck_def spawn_def)

lemma stuck_finish: "stuck s \<Longrightarrow> stuck (finish_job i s)"
  by (auto simp: stuck_def finish_job_def set_map_del)

lemma stuck_frame [simp]:
  "stuck (s\<lparr>p_channels := c\<rparr>) = stuck s" "stuck (s\<lparr>p_chans := d\<rparr>) = stuck s" "stuck (s\<lparr>p_pending := q\<rparr>) = stuck s"
  "stuck (s\<lparr>p_chans := d, p_channels := c\<rparr>) = stuck s"
  by (simp_all add: stuck_def)

lemma stuck_new_chan: "stuck s \<Longrightarrow> stuck (new_chan l s)"
  by (simp add: new_chan_def setupChannel_def Let_def)

lemma stuck_making: "stuck s \<Longrightarrow> stuck (s\<lparr>p_making := True\<rparr>)"
  by (auto simp: stuck_def)

lemma stuck_signal:
  assumes "stuck s" "\<forall>a. p \<noteq> SigAnswer a"
  shows "stuck (fst (handleSignal parse p s)) \<and> no_answer (signals (snd (handleSignal parse p s)))"
  using assms by (cases p) (auto simp: handleSignal_def stuck_def split: option.split)

lemma stuck_resume:
  assumes st: "stuck s" and i: "map_get (p_jobs s) i = Some j"
  shows "stuck (fst (resume j sdp ((finish_job i s)\<lparr>p_sig := rtc_sig j (p_sig s)\<rparr>)))
    \<and> no_answer (signals (snd (resume j sdp ((finish_job i s)\<lparr>p_sig := rtc_sig j (p_sig s)\<rparr>))))"
proof -
  have "offering_job j" using st map_of_SomeD [OF i] by (force simp: stuck_def)
  then show ?thesis
    using stuck_finish [OF st, of i]
    by (cases j) (auto simp: offering_job_def stuck_def spawn_def)
qed

lemma stuck_local:
  assumes st: "stuck s" and e: "local_event s e"
  shows "stuck (fst (peer_step parse s e)) \<and> no_answer (signals (snd (peer_step parse s e)))"
proof (cases e)
  case (Done i sdp g)
  show ?thesis
  proof (cases "map_get (p_jobs s) i")
    case (Some j)
    with e have "g = rtc_sig j (p_sig s)" by (simp add: Done local_event_def)
    with stuck_resume [OF st Some] show ?thesis by (simp add: Done Some)
  qed (use st in \<open>simp add: Done\<close>)
next
  case (CreateOfferCall l)
  then show ?thesis using st
    by (simp add: createOffer_def Let_def stuck_spawn stuck_new_chan stuck_making offering_job_def)
next
  case NegotiationNeeded
  then show ?thesis using st
    by (auto simp: on_negotiationneeded_def offering_job_def intro!: stuck_spawn stuck_making)
next
  case RestartCall
  then show ?thesis using st by (simp add: restartIce_def stuck_spawn offering_job_def)
next
  case (IceState st')
  then show ?thesis using st by (simp add: on_iceconnectionstate_def restartIce_def stuck_spawn offering_job_def)
qed (use assms in \<open>auto simp: local_event_def on_connectionstate_def on_icecandidate_def on_datachannel_def createDataChannel_def
    chan_opens_def chan_closes_def chan_message_def Let_def intro!: stuck_new_chan split: option.split\<close>)

definition duo_stuck :: "duo \<Rightarrow> bool" where
  "duo_stuck s = (stuck (d_a s) \<and> stuck (d_b s) \<and> no_answer (d_ab s) \<and> no_answer (d_ba s))"

interpretation glare: inv_system both_offer "duo_step parse" duo_stuck for parse
proof unfold_locales
  fix s assume "both_offer s"
  then show "duo_stuck s"
    by (auto simp: both_offer_def duo_stuck_def createOffer_def new_Peer_def new_chan_def setupChannel_def spawn_def
        stuck_def offering_job_def Let_def)
next
  fix s w t assume "duo_step parse s w t" "duo_stuck s"
  then show "duo_stuck t"
  proof (cases rule: duo_step.cases)
    case (act_a e a out)
    with stuck_local [of "d_a s" e parse] \<open>duo_stuck s\<close> show ?thesis by (simp add: duo_stuck_def)
  next
    case (act_b e b out)
    with stuck_local [of "d_b s" e parse] \<open>duo_stuck s\<close> show ?thesis by (simp add: duo_stuck_def)
  next
    case (recv_b p q b out)
    with stuck_signal [of "d_b s" p parse] \<open>duo_stuck s\<close> show ?thesis by (simp add: duo_stuck_def)
  next
    case (recv_a p q a out)
    with stuck_signal [of "d_a s" p parse] \<open>duo_stuck s\<close> show ?thesis by (simp add: duo_stuck_def)
  qed
qed

text \<open>
  C25. When both sides call \<open>createOffer\<close> before either has seen the other's offer, they never
  connect.  Each drops the other's offer as a collision and waits for an answer; in no state the
  two can reach, however their signals and operations interleave and however often they restart,
  has either a remote description, and no answer is ever sent.
\<close>

theorem glare_never_resolves:
  assumes "reachable both_offer (duo_step parse) s"
  shows "\<not> p_remoteSet (d_a s) \<and> \<not> p_remoteSet (d_b s)
    \<and> (\<forall>a. SigAnswer a \<notin> set (d_ab s) \<union> set (d_ba s))
    \<and> (p_sig (d_a s) = Stable \<longrightarrow> p_making (d_a s)) \<and> (p_sig (d_b s) = Stable \<longrightarrow> p_making (d_b s))"
  using glare.reachable_inv [OF assms] by (auto simp: duo_stuck_def stuck_def no_answer_def)

definition demo_peer :: "bool \<Rightarrow> sig_state \<Rightarrow> (nat \<times> job) list \<Rightarrow> nat \<Rightarrow> peer" where
  "demo_peer making g jobs n = \<lparr>p_chans = [\<lparr>ch_label = ''data'', ch_open = False\<rparr>], p_channels = [(''data'', 0)],
     p_pending = [], p_remoteSet = False, p_closed = False, p_making = making, p_sig = g, p_jobs = jobs, p_fresh = n\<rparr>"

lemma demo_peer_new: "fst (createOffer None new_Peer) = demo_peer True Stable [(0, OfferCreate)] 1"
  by (simp add: demo_peer_def createOffer_def new_Peer_def new_chan_def setupChannel_def spawn_def Let_def)

lemma demo_peer_steps:
  "peer_step parse (demo_peer True Stable [(0, OfferCreate)] 1) (Done 0 ''sdp'' Stable)
     = (demo_peer True Stable [(1, OfferLocal ''sdp'')] 2, [RtcSetLocal ''sdp''])"
  "peer_step parse (demo_peer True Stable [(1, OfferLocal ''sdp'')] 2) (Done 1 [] HaveLocalOffer)
     = (demo_peer False HaveLocalOffer [] 2, [SendSignal (SigOffer ''sdp'')])"
  by (simp_all add: demo_peer_def spawn_def finish_job_def)

theorem glare_never_resolves_witness:
  "\<exists>s. reachable both_offer (duo_step (\<lambda>t. None)) s \<and> d_ab s = [SigOffer ''sdp''] \<and> p_sig (d_a s) = HaveLocalOffer
     \<and> \<not> p_remoteSet (d_a s) \<and> \<not> p_remoteSet (d_b s)"
proof -
  let ?new = "demo_peer True Stable [(0, OfferCreate)] 1" and ?mid = "demo_peer True Stable [(1, OfferLocal ''sdp'')] 2"
    and ?last = "demo_peer False HaveLocalOffer [] 2"
  let ?d = "\<lambda>a ab. \<lparr>d_a = a, d_b = ?new, d_ab = ab, d_ba = []\<rparr>"
  have r0: "reachable both_offer (duo_step (\<lambda>t. None)) (?d ?new [])"
    unfolding demo_peer_new [symmetric] by (rule reachable.start) (auto simp: both_offer_def)
  have "local_event ?new (Done 0 ''sdp'' Stable)" "local_event ?mid (Done 1 [] HaveLocalOffer)"
    by (simp_all add: local_event_def demo_peer_def)
  with act_a [of "?d ?new []" "Done 0 ''sdp'' Stable" "\<lambda>t. None" ?mid "[RtcSetLocal ''sdp'']"]
    act_a [of "?d ?mid []" "Done 1 [] HaveLocalOffer" "\<lambda>t. None" ?last "[SendSignal (SigOffer ''sdp'')]"]
    demo_peer_steps [of "\<lambda>t. None"]
  have "duo_step (\<lambda>t. None) (?d ?new []) True (?d ?mid [])"
    "duo_step (\<lambda>t. None) (?d ?mid []) True (?d ?last [SigOffer ''sdp''])" by (simp_all del: peer_step.simps One_nat_def)
  with r0 have r: "reachable both_offer (duo_step (\<lambda>t. None)) (?d ?last [SigOffer ''sdp''])"
    by (meson reachable.step)
  from glare_never_resolves [OF r] r show ?thesis
    by (intro exI [of _ "?d ?last [SigOffer ''sdp'']"]) (simp add: demo_peer_def)
qed

end
