(* ===== verification/Base64.thy ===== *)
theory Base64
  imports Prelude
begin

text \<open>
  The functions \<open>arrayToBase64\<close> and \<open>base64ToArray\<close> of packages/peer-client/src/crypto.ts
  over the runtime's \<open>btoa\<close> and \<open>atob\<close>.  A byte array, and the binary string with one
  character for each byte, is a list of 8-bit words.
\<close>

section \<open>\<open>btoa\<close> and \<open>atob\<close>\<close>

type_synonym bytes = "8 word list"

definition b64_alphabet :: string where
  "b64_alphabet = ''ABCDEFGHIJKLMNOPQRSTUVWXYZabcdefghijklmnopqrstuvwxyz0123456789+/''"

definition b64_char :: "nat \<Rightarrow> char" where
  "b64_char n = b64_alphabet ! n"

definition b64_index :: "char \<Rightarrow> nat option" where
  "b64_index c = (case filter (\<lambda>i. b64_alphabet ! i = c) [0..<64] of [] \<Rightarrow> None | i # _ \<Rightarrow> Some i)"

definition byte_val :: "8 word \<Rightarrow> nat" where
  "byte_val w = unat w"

fun btoa :: "bytes \<Rightarrow> string" where
  "btoa [] = []"
| "btoa [a] = (let n = byte_val a * 16 in [b64_char (n div 64), b64_char (n mod 64), CHR ''='', CHR ''=''])"
| "btoa [a, b] =
     (let n = (byte_val a * 256 + byte_val b) * 4
      in [b64_char (n div 4096), b64_char (n div 64 mod 64), b64_char (n mod 64), CHR ''=''])"
| "btoa (a # b # c # rest) =
     (let n = byte_val a * 65536 + byte_val b * 256 + byte_val c
      in [b64_char (n div 262144), b64_char (n div 4096 mod 64), b64_char (n div 64 mod 64), b64_char (n mod 64)] @ btoa rest)"

text \<open>
  The forgiving decoding of the HTML standard: white space is dropped, up to two padding characters
  may end an input whose length is a multiple of four, a length of one modulo four and foreign
  characters are errors.
\<close>

definition is_space :: "char \<Rightarrow> bool" where
  "is_space c = (c \<in> {CHR '' '', CHR 0x09, CHR 0x0A, CHR 0x0C, CHR 0x0D})"

definition strip_padding :: "string \<Rightarrow> string" where
  "strip_padding cs =
     (if length cs mod 4 = 0 then
        (let r = rev cs in
         case r of
           a # b # rest \<Rightarrow> if a = CHR ''='' then (if b = CHR ''='' then rev rest else rev (b # rest)) else cs
         | _ \<Rightarrow> cs)
      else cs)"

fun sextets :: "string \<Rightarrow> nat list option" where
  "sextets [] = Some []"
| "sextets (c # cs) =
     (case (b64_index c, sextets cs) of (Some v, Some vs) \<Rightarrow> Some (v # vs) | _ \<Rightarrow> None)"

fun unsextets :: "nat list \<Rightarrow> bytes option" where
  "unsextets [] = Some []"
| "unsextets [a] = None"
| "unsextets [a, b] = Some [word_of_nat ((a * 64 + b) div 16)]"
| "unsextets [a, b, c] =
     (let n = ((a * 64 + b) * 64 + c) div 4 in Some [word_of_nat (n div 256), word_of_nat (n mod 256)])"
| "unsextets (a # b # c # d # rest) =
     (let n = ((a * 64 + b) * 64 + c) * 64 + d
      in map_option (\<lambda>bs. [word_of_nat (n div 65536), word_of_nat (n div 256 mod 256), word_of_nat (n mod 256)] @ bs)
           (unsextets rest))"

definition atob :: "string \<Rightarrow> bytes option" where
  "atob t = (case sextets (strip_padding (filter (\<lambda>c. \<not> is_space c) t)) of None \<Rightarrow> None | Some vs \<Rightarrow> unsextets vs)"

section \<open>The functions\<close>

text \<open>The loop of \<open>arrayToBase64\<close> is the slicing loop of the prelude with blocks of 8192 bytes.\<close>

definition b64_chunkSize :: nat where "b64_chunkSize = 8192"

definition arrayToBase64 :: "bytes \<Rightarrow> string option" where
  "arrayToBase64 bs = map_option (\<lambda>chunks. btoa (concat chunks)) (slice_loop b64_chunkSize 0 bs [])"

definition base64ToArray :: "string \<Rightarrow> bytes option" where
  "base64ToArray t = map_option (\<lambda>binary. map (\<lambda>i. binary ! i) [0..<length binary]) (atob t)"

section \<open>The round trip\<close>

lemma b64_alphabet_props: "distinct b64_alphabet" "length b64_alphabet = 64"
  by (simp_all add: b64_alphabet_def)

lemma filter_eq_upt: "n < m \<Longrightarrow> filter (\<lambda>i. i = n) [0..<m] = [n]"
  by (induction m) (auto simp: less_Suc_eq filter_empty_conv)

lemma b64_index_char: "n < 64 \<Longrightarrow> b64_index (b64_char n) = Some n"
proof -
  assume n: "n < 64"
  have eq: "(b64_alphabet ! i = b64_alphabet ! n) = (i = n)" if "i < 64" for i
    using nth_eq_iff_index_eq [OF b64_alphabet_props(1)] that n by (simp add: b64_alphabet_props)
  have "filter (\<lambda>i. b64_alphabet ! i = b64_alphabet ! n) [0..<64] = filter (\<lambda>i. i = n) [0..<64]"
    by (rule filter_cong) (auto simp: eq)
  also have "\<dots> = [n]" using n by (rule filter_eq_upt)
  finally show ?thesis by (simp add: b64_index_def b64_char_def)
qed

text \<open>The sextets of a byte sequence and the padding that follows them.\<close>

fun byte_sextets :: "bytes \<Rightarrow> nat list" where
  "byte_sextets [] = []"
| "byte_sextets [a] = (let n = byte_val a * 16 in [n div 64, n mod 64])"
| "byte_sextets [a, b] = (let n = (byte_val a * 256 + byte_val b) * 4 in [n div 4096, n div 64 mod 64, n mod 64])"
| "byte_sextets (a # b # c # rest) =
     (let n = byte_val a * 65536 + byte_val b * 256 + byte_val c
      in [n div 262144, n div 4096 mod 64, n div 64 mod 64, n mod 64] @ byte_sextets rest)"

definition padding :: "bytes \<Rightarrow> nat" where
  "padding bs = (3 - length bs mod 3) mod 3"

lemma byte_val_less: "byte_val w < 256"
  using unsigned_less [of w] by (simp add: byte_val_def)

lemma word_of_byte_val [simp]: "word_of_nat (byte_val w) = w"
  by (simp add: byte_val_def)

lemma sextets_less: "v \<in> set (byte_sextets bs) \<Longrightarrow> v < 64"
proof (induction bs rule: byte_sextets.induct)
  case (4 a b c rest)
  let ?n = "byte_val a * 65536 + byte_val b * 256 + byte_val c"
  have "?n div 262144 < 64" using byte_val_less [of a] byte_val_less [of b] byte_val_less [of c] by simp
  with 4 show ?case by (auto simp: Let_def)
next
  case (2 a)
  then show ?case using byte_val_less [of a] by (auto simp: Let_def)
next
  case (3 a b)
  then show ?case using byte_val_less [of a] byte_val_less [of b] by (auto simp: Let_def)
qed simp

lemma padding_simps [simp]:
  "padding [] = 0" "padding [a] = 2" "padding [a, b] = 1" "padding (a # b # c # rest) = padding rest"
proof -
  have "Suc (Suc (Suc n)) mod 3 = n mod 3" for n by presburger
  then show "padding (a # b # c # rest) = padding rest" by (simp add: padding_def)
qed (simp_all add: padding_def)

lemma btoa_sextets: "btoa bs = map b64_char (byte_sextets bs) @ replicate (padding bs) (CHR ''='')"
proof (induction bs rule: btoa.induct)
  case (2 a)
  then show ?case by (simp only: btoa.simps byte_sextets.simps Let_def padding_simps numeral_2_eq_2 replicate.simps list.map append.simps)
next
  case (3 a b)
  then show ?case by (simp only: btoa.simps byte_sextets.simps Let_def padding_simps One_nat_def replicate.simps list.map append.simps)
next
  case (4 a b c rest)
  then show ?case by (simp only: btoa.simps byte_sextets.simps Let_def padding_simps list.map append.simps map_append)
qed simp

lemma length_btoa: "length (btoa bs) mod 4 = 0"
  by (induction bs rule: btoa.induct) (simp_all add: Let_def)

lemma padding_le: "padding bs \<le> 2"
  by (simp add: padding_def)

lemma sextets_chars: "\<forall>v\<in>set vs. v < 64 \<Longrightarrow> sextets (map b64_char vs) = Some vs"
  by (induction vs) (simp_all add: b64_index_char)

lemma b64_char_plain: "n < 64 \<Longrightarrow> \<not> is_space (b64_char n) \<and> b64_char n \<noteq> CHR ''=''"
proof -
  assume "n < 64"
  then have "b64_char n \<in> set b64_alphabet" using nth_mem [of n b64_alphabet] by (simp add: b64_char_def b64_alphabet_props)
  moreover have "CHR ''='' \<notin> set b64_alphabet" "\<forall>c\<in>set b64_alphabet. \<not> is_space c"
    by (simp_all add: b64_alphabet_def is_space_def)
  ultimately show ?thesis by auto
qed

lemma strip_padding_append:
  assumes "p \<le> 2" "CHR ''='' \<notin> set xs" "length (xs @ replicate p (CHR ''='')) mod 4 = 0"
  shows "strip_padding (xs @ replicate p (CHR ''='')) = xs"
proof -
  consider "p = 0" | "p = 1" | "p = 2" using assms(1) by linarith
  then show ?thesis
  proof cases
    case 1
    with assms show ?thesis by (auto simp: strip_padding_def Let_def split: list.split)
  next
    case 2
    with assms(3) obtain ys y where "xs = ys @ [y]" by (cases xs rule: rev_cases) auto
    with 2 assms show ?thesis by (auto simp: strip_padding_def)
  next
    case 3
    with assms show ?thesis by (simp add: strip_padding_def numeral_2_eq_2)
  qed
qed

lemma sextets_join: "((n div 262144 * 64 + n div 4096 mod 64) * 64 + n div 64 mod 64) * 64 + n mod 64 = (n :: nat)"
proof -
  have "n div 262144 = n div 64 div 64 div 64" "n div 4096 = n div 64 div 64" by (simp_all add: div_mult2_eq [symmetric])
  then show ?thesis by (metis div_mult_mod_eq)
qed

lemma bytes_split:
  assumes "b < 256" "(c :: nat) < 256"
  shows "(a * 65536 + b * 256 + c) div 65536 = a" "(a * 65536 + b * 256 + c) div 256 mod 256 = b"
    "(a * 65536 + b * 256 + c) mod 256 = c"
proof -
  have n: "a * 65536 + b * 256 + c = (a * 256 + b) * 256 + c" by simp
  have d: "((a * 256 + b) * 256 + c) div 256 = a * 256 + b" using assms by simp
  have "(a * 65536 + b * 256 + c) div 65536 = (a * 65536 + b * 256 + c) div 256 div 256" by (simp add: div_mult2_eq [symmetric])
  also have "\<dots> = a" unfolding n d using assms by simp
  finally show "(a * 65536 + b * 256 + c) div 65536 = a" .
  show "(a * 65536 + b * 256 + c) div 256 mod 256 = b" unfolding n d using assms by simp
  show "(a * 65536 + b * 256 + c) mod 256 = c"
    unfolding n using assms by (simp only: mod_mult_self3 mod_less)
qed

lemma unsextets_bytes: "unsextets (byte_sextets bs) = Some bs"
proof (induction bs rule: byte_sextets.induct)
  case (2 a)
  have "(byte_val a * 16 div 64 * 64 + byte_val a * 16 mod 64) div 16 = byte_val a" by presburger
  then show ?case by (simp only: byte_sextets.simps unsextets.simps Let_def word_of_byte_val)
next
  case (3 a b)
  let ?n = "(byte_val a * 256 + byte_val b) * 4"
  have "?n div 4096 = ?n div 64 div 64" by (simp only: div_mult2_eq [symmetric]) simp
  then have "(?n div 4096 * 64 + ?n div 64 mod 64) * 64 + ?n mod 64 = ?n" by (metis div_mult_mod_eq)
  moreover have "?n div 4 div 256 = byte_val a" "?n div 4 mod 256 = byte_val b"
    unfolding nonzero_mult_div_cancel_right [of 4, simplified] using byte_val_less [of b] by simp_all
  ultimately show ?case by (simp only: byte_sextets.simps unsextets.simps Let_def word_of_byte_val)
next
  case (4 a b c rest)
  let ?n = "byte_val a * 65536 + byte_val b * 256 + byte_val c"
  have n: "((?n div 262144 * 64 + ?n div 4096 mod 64) * 64 + ?n div 64 mod 64) * 64 + ?n mod 64 = ?n"
    by (rule sextets_join)
  have "?n div 65536 = byte_val a" "?n div 256 mod 256 = byte_val b" "?n mod 256 = byte_val c"
    by (rule bytes_split [OF byte_val_less byte_val_less])+
  with n 4 show ?case
    by (simp only: byte_sextets.simps unsextets.simps append.simps Let_def word_of_byte_val option.map)
qed simp

lemma atob_btoa: "atob (btoa bs) = Some bs"
proof -
  have plain: "\<forall>v\<in>set (byte_sextets bs). v < 64" using sextets_less by blast
  have "filter (\<lambda>c. \<not> is_space c) (btoa bs) = btoa bs"
    using plain b64_char_plain by (auto simp: btoa_sextets is_space_def filter_id_conv)
  moreover have "strip_padding (btoa bs) = map b64_char (byte_sextets bs)"
    unfolding btoa_sextets
  proof (rule strip_padding_append [OF padding_le])
    show "CHR ''='' \<notin> set (map b64_char (byte_sextets bs))"
    proof
      assume "CHR ''='' \<in> set (map b64_char (byte_sextets bs))"
      then obtain v where "v \<in> set (byte_sextets bs)" "b64_char v = CHR ''=''" by auto
      with plain b64_char_plain [of v] show False by auto
    qed
    show "length (map b64_char (byte_sextets bs) @ replicate (padding bs) (CHR ''='')) mod 4 = 0"
      using length_btoa [of bs] by (simp only: btoa_sextets)
  qed
  ultimately show ?thesis using sextets_chars [OF plain] by (simp add: atob_def unsextets_bytes)
qed

lemma btoa_Nil [simp]: "btoa bs = [] \<longleftrightarrow> bs = []"
  by (cases bs rule: btoa.cases) (simp_all add: Let_def)

lemma arrayToBase64_btoa: "arrayToBase64 bs = Some (btoa bs)"
  by (simp add: arrayToBase64_def b64_chunkSize_def slice_loop_slices concat_slices)

text \<open>
  C26. \<open>arrayToBase64\<close> returns for every array, however long, the base-64 text of the whole
  array, and \<open>base64ToArray\<close> gives the array back.
\<close>

theorem base64_roundtrip:
  "\<exists>t. arrayToBase64 bs = Some t \<and> t = btoa bs \<and> base64ToArray t = Some bs"
  by (simp add: arrayToBase64_btoa base64ToArray_def atob_btoa map_nth)

end
