(* ===== verification/Crypto.thy ===== *)
theory Crypto
  imports Types Base64
begin

text \<open>
  The classes \<open>E2E\<close> and \<open>GroupKeyManager\<close> of packages/peer-client/src/crypto.ts and
  \<open>Identity\<close> of core/identity.ts.  The browser's cryptography and text encoding are outside: they are
  the fields of the record \<open>webcrypto\<close>, passed as an argument, and what the code relies on
  is the predicate \<open>webcrypto_ok\<close>.  Rejections are \<open>Inl\<close> with the message.  A method is
  split where it awaits something during which the object can be changed.
\<close>

section \<open>The cryptographic operations\<close>

record webcrypto =
  wc_pub :: "nat \<Rightarrow> bytes"                          \<comment> \<open>the exported public key of a key pair\<close>
  wc_derive :: "nat \<Rightarrow> bytes \<Rightarrow> bytes option"       \<comment> \<open>\<open>importKey\<close> of a remote key and \<open>deriveBits\<close>\<close>
  wc_encrypt :: "bytes \<Rightarrow> bytes \<Rightarrow> bytes \<Rightarrow> bytes"     \<comment> \<open>AES-GCM under key and initialisation vector\<close>
  wc_decrypt :: "bytes \<Rightarrow> bytes \<Rightarrow> bytes \<Rightarrow> bytes option"
  wc_sign :: "nat \<Rightarrow> bytes \<Rightarrow> bytes"
  wc_verify :: "bytes \<Rightarrow> bytes \<Rightarrow> bytes \<Rightarrow> bool"
  wc_utf8 :: "string \<Rightarrow> bytes"
  wc_text :: "bytes \<Rightarrow> string"
  wc_export_private :: "nat \<Rightarrow> js"
  wc_export_public :: "nat \<Rightarrow> js"
  wc_import :: "js \<Rightarrow> js \<Rightarrow> nat option"            \<comment> \<open>a private and a public JWK\<close>

definition webcrypto_ok :: "webcrypto \<Rightarrow> bool" where
  "webcrypto_ok w = (
     (\<forall>a b. \<exists>k. wc_derive w a (wc_pub w b) = Some k \<and> wc_derive w b (wc_pub w a) = Some k)
     \<and> (\<forall>k iv m. wc_decrypt w k iv (wc_encrypt w k iv m) = Some m)
     \<and> (\<forall>t. wc_text w (wc_utf8 w t) = t)
     \<and> (\<forall>a. wc_import w (wc_export_private w a) (wc_export_public w a) = Some a))"

section \<open>\<open>E2E\<close>\<close>

record e2e =
  e_keys :: "(string, bytes) jsmap"
  e_priv :: "nat option"               \<comment> \<open>\<open>keyPair\<close>\<close>
  e_pub :: "bytes option"              \<comment> \<open>\<open>publicKeyRaw\<close>\<close>

definition new_E2E :: e2e where
  "new_E2E = \<lparr>e_keys = [], e_priv = None, e_pub = None\<rparr>"

text \<open>\<open>init\<close> with the key pair the browser generates; it awaits the export in between.\<close>

definition e2e_init_keys :: "nat \<Rightarrow> e2e \<Rightarrow> e2e" where
  "e2e_init_keys k e = e\<lparr>e_priv := Some k\<rparr>"

definition e2e_init_done :: "bytes \<Rightarrow> e2e \<Rightarrow> e2e" where
  "e2e_init_done raw e = e\<lparr>e_pub := Some raw\<rparr>"

definition e2e_init :: "webcrypto \<Rightarrow> nat \<Rightarrow> e2e \<Rightarrow> e2e" where
  "e2e_init w k e = e2e_init_done (wc_pub w k) (e2e_init_keys k e)"

definition isInitialized :: "e2e \<Rightarrow> bool" where
  "isInitialized e = (e_pub e \<noteq> None)"

definition getPublicKeyB64 :: "e2e \<Rightarrow> string + string" where
  "getPublicKeyB64 e = (case e_pub e of None \<Rightarrow> Inl ''E2E not initialized'' | Some raw \<Rightarrow> Inr (btoa raw))"

definition getPublicKeyRaw :: "e2e \<Rightarrow> string + bytes" where
  "getPublicKeyRaw e = (case e_pub e of None \<Rightarrow> Inl ''E2E not initialized'' | Some raw \<Rightarrow> Inr raw)"

text \<open>\<open>deriveKey\<close> up to the import of the remote key, up to the derived bits, and its end.\<close>

definition derive_start :: "string \<Rightarrow> e2e \<Rightarrow> string + bytes" where
  "derive_start b64 e =
     (case e_priv e of
        None \<Rightarrow> Inl ''E2E not initialized''
      | Some k \<Rightarrow> (case atob b64 of None \<Rightarrow> Inl ''InvalidCharacterError'' | Some raw \<Rightarrow> Inr raw))"

definition derive_bits :: "webcrypto \<Rightarrow> bytes \<Rightarrow> e2e \<Rightarrow> string + bytes" where
  "derive_bits w raw e =
     (case e_priv e of
        None \<Rightarrow> Inl ''TypeError''
      | Some k \<Rightarrow> (case wc_derive w k raw of None \<Rightarrow> Inl ''DataError'' | Some bits \<Rightarrow> Inr bits))"

definition derive_done :: "string \<Rightarrow> bytes \<Rightarrow> e2e \<Rightarrow> e2e" where
  "derive_done fp bits e = e\<lparr>e_keys := map_set fp bits (e_keys e)\<rparr>"

definition deriveKey :: "webcrypto \<Rightarrow> string \<Rightarrow> string \<Rightarrow> e2e \<Rightarrow> string + e2e" where
  "deriveKey w fp b64 e =
     (case derive_start b64 e of
        Inl x \<Rightarrow> Inl x
      | Inr raw \<Rightarrow> (case derive_bits w raw e of Inl x \<Rightarrow> Inl x | Inr bits \<Rightarrow> Inr (derive_done fp bits e)))"

definition encrypt :: "webcrypto \<Rightarrow> bytes \<Rightarrow> string \<Rightarrow> string \<Rightarrow> e2e \<Rightarrow> string + string" where
  "encrypt w iv fp d e =
     (case map_get (e_keys e) fp of
        None \<Rightarrow> Inl (''No key for '' @ fp)
      | Some key \<Rightarrow>
          (case arrayToBase64 (iv @ wc_encrypt w key iv (wc_utf8 w d)) of
             Some t \<Rightarrow> Inr t | None \<Rightarrow> Inl ''does not return''))"

definition decrypt :: "webcrypto \<Rightarrow> string \<Rightarrow> string \<Rightarrow> e2e \<Rightarrow> string + string" where
  "decrypt w fp d e =
     (case map_get (e_keys e) fp of
        None \<Rightarrow> Inl (''No key for '' @ fp)
      | Some key \<Rightarrow>
          (case base64ToArray d of
             None \<Rightarrow> Inl ''InvalidCharacterError''
           | Some combined \<Rightarrow>
               (case wc_decrypt w key (take 12 combined) (drop 12 combined) of
                  None \<Rightarrow> Inl ''OperationError'' | Some m \<Rightarrow> Inr (wc_text w m))))"

definition hasKey :: "string \<Rightarrow> e2e \<Rightarrow> bool" where
  "hasKey fp e = map_has (e_keys e) fp"

definition removeKey :: "string \<Rightarrow> e2e \<Rightarrow> e2e" where
  "removeKey fp e = e\<lparr>e_keys := map_del fp (e_keys e)\<rparr>"

definition e2e_destroy :: "e2e \<Rightarrow> e2e" where
  "e2e_destroy e = \<lparr>e_keys = [], e_priv = None, e_pub = None\<rparr>"

section \<open>\<open>Identity\<close>\<close>

record identity =
  i_fingerprint :: string
  i_alias :: string
  i_pub :: string
  i_keys :: "nat option"

record exported_identity =
  x_fingerprint :: string
  x_alias :: string
  x_pub :: string
  x_private :: js
  x_public :: js

definition new_Identity :: identity where
  "new_Identity = \<lparr>i_fingerprint = [], i_alias = [], i_pub = [], i_keys = None\<rparr>"

definition id_generate :: "webcrypto \<Rightarrow> nat \<Rightarrow> identity \<Rightarrow> identity" where
  "id_generate w k s = s\<lparr>i_keys := Some k, i_pub := btoa (wc_pub w k)\<rparr>"

definition id_restore :: "webcrypto \<Rightarrow> exported_identity \<Rightarrow> identity \<Rightarrow> string + identity" where
  "id_restore w x s =
     (case wc_import w (x_private x) (x_public x) of
        None \<Rightarrow> Inl ''DataError''
      | Some k \<Rightarrow> Inr (s\<lparr>i_keys := Some k, i_fingerprint := x_fingerprint x, i_alias := x_alias x, i_pub := x_pub x\<rparr>))"

definition id_export :: "webcrypto \<Rightarrow> identity \<Rightarrow> string + exported_identity" where
  "id_export w s =
     (case i_keys s of
        None \<Rightarrow> Inl ''No keypair generated''
      | Some k \<Rightarrow> Inr \<lparr>x_fingerprint = i_fingerprint s, x_alias = i_alias s, x_pub = i_pub s,
                      x_private = wc_export_private w k, x_public = wc_export_public w k\<rparr>)"

definition setRegistered :: "string \<Rightarrow> string \<Rightarrow> identity \<Rightarrow> identity" where
  "setRegistered fp al s = s\<lparr>i_fingerprint := fp, i_alias := al\<rparr>"

definition id_sign :: "webcrypto \<Rightarrow> bytes \<Rightarrow> identity \<Rightarrow> string + bytes" where
  "id_sign w d s = (case i_keys s of None \<Rightarrow> Inl ''No keypair generated'' | Some k \<Rightarrow> Inr (wc_sign w k d))"

text \<open>\<open>verify\<close> hands its arguments to the browser; the getters give \<open>null\<close> before there is a pair.\<close>

definition id_verify :: "webcrypto \<Rightarrow> bytes \<Rightarrow> bytes \<Rightarrow> bytes \<Rightarrow> bool" where
  "id_verify w publicKey signature d = wc_verify w publicKey signature d"

definition id_getPublicKey :: "webcrypto \<Rightarrow> identity \<Rightarrow> bytes option" where
  "id_getPublicKey w s = map_option (wc_pub w) (i_keys s)"

section \<open>\<open>GroupKeyManager\<close>\<close>

text \<open>
  A call of \<open>exchangeWith\<close> or \<open>handleIncomingKeyExchange\<close> and the point it has reached.  Whether
  the peer is connected is read when the code reads it, and given with the event; \<open>sendOk\<close> says
  whether \<open>peer.send\<close> returns.
\<close>

datatype gk_stage =
    GkConnecting                \<comment> \<open>in \<open>waitForConnection\<close>\<close>
  | GkSigning                   \<comment> \<open>awaits \<open>identity.sign\<close>\<close>
  | GkAwaiting                  \<comment> \<open>listens for the other side's key\<close>
  | GkImporting bytes           \<comment> \<open>in \<open>deriveKey\<close>\<close>
  | GkDeriving bytes
  | GkDone "string option"      \<comment> \<open>the error, if it was rejected\<close>

record gk_call =
  gc_peer :: string
  gc_incoming :: bool           \<comment> \<open>made by \<open>handleIncomingKeyExchange\<close>\<close>
  gc_stage :: gk_stage

record gk_manager =
  gk_e2e :: e2e
  gk_calls :: "gk_call list"

datatype gk_out = GkSend string js

definition gk_stage_to :: "nat \<Rightarrow> gk_stage \<Rightarrow> gk_manager \<Rightarrow> gk_manager" where
  "gk_stage_to i st m = m\<lparr>gk_calls := (gk_calls m)[i := (gk_calls m ! i)\<lparr>gc_stage := st\<rparr>]\<rparr>"

definition gk_message :: "string \<Rightarrow> js \<Rightarrow> js \<Rightarrow> js" where
  "gk_message pub sig me =
     JObj [(''_e2e_key_exchange'', JBool True), (''publicKey'', JStr pub), (''signature'', sig), (''fingerprint'', me)]"

text \<open>\<open>peer.send(...)\<close> and what follows: the caller of \<open>exchangeWith\<close> starts to listen.\<close>

definition gk_send :: "nat \<Rightarrow> js \<Rightarrow> js \<Rightarrow> bool \<Rightarrow> gk_manager \<Rightarrow> gk_manager \<times> gk_out list" where
  "gk_send i sig me sendOk m =
     (let c = gk_calls m ! i in
      case getPublicKeyB64 (gk_e2e m) of
        Inl x \<Rightarrow> (gk_stage_to i (GkDone (Some x)) m, [])
      | Inr pub \<Rightarrow>
          if sendOk then
            (gk_stage_to i (if gc_incoming c then GkDone None else GkAwaiting) m, [GkSend (gc_peer c) (gk_message pub sig me)])
          else (gk_stage_to i (GkDone (Some ''Channel \"data\" not open'')) m, []))"

text \<open>The part both methods share, from the moment the peer is connected.\<close>

definition gk_connected :: "nat \<Rightarrow> bool \<Rightarrow> js \<Rightarrow> bool \<Rightarrow> gk_manager \<Rightarrow> gk_manager \<times> gk_out list" where
  "gk_connected i hasPriv me sendOk m =
     (case getPublicKeyB64 (gk_e2e m) of
        Inl x \<Rightarrow> (gk_stage_to i (GkDone (Some x)) m, [])
      | Inr pub \<Rightarrow> if hasPriv then (gk_stage_to i GkSigning m, []) else gk_send i Undef me sendOk m)"

definition gk_signed :: "nat \<Rightarrow> string + bytes \<Rightarrow> js \<Rightarrow> bool \<Rightarrow> gk_manager \<Rightarrow> gk_manager \<times> gk_out list" where
  "gk_signed i sig me sendOk m =
     (case sig of
        Inl x \<Rightarrow> (gk_stage_to i (GkDone (Some x)) m, [])
      | Inr raw \<Rightarrow>
          (case arrayToBase64 raw of
             Some t \<Rightarrow> gk_send i (JStr t) me sendOk m
           | None \<Rightarrow> (m, [])))"

definition exchangeWith :: "string \<Rightarrow> bool \<Rightarrow> bool \<Rightarrow> js \<Rightarrow> bool \<Rightarrow> gk_manager \<Rightarrow> gk_manager \<times> gk_out list" where
  "exchangeWith fp connected hasPriv me sendOk m =
     (let m1 = m\<lparr>gk_calls := gk_calls m @ [\<lparr>gc_peer = fp, gc_incoming = False, gc_stage = GkConnecting\<rparr>]\<rparr>
      in if connected then gk_connected (length (gk_calls m)) hasPriv me sendOk m1 else (m1, []))"

definition is_key_message :: "js \<Rightarrow> bool" where
  "is_key_message d = (truthy (prop_opt d ''_e2e_key_exchange'') \<and> truthy (prop_opt d ''publicKey''))"

definition gk_derive :: "nat \<Rightarrow> js \<Rightarrow> gk_manager \<Rightarrow> gk_manager" where
  "gk_derive i d m =
     (case prop_opt d ''publicKey'' of
        JStr b64 \<Rightarrow> (case derive_start b64 (gk_e2e m) of
                       Inl x \<Rightarrow> gk_stage_to i (GkDone (Some x)) m | Inr raw \<Rightarrow> gk_stage_to i (GkImporting raw) m)
      | _ \<Rightarrow> gk_stage_to i (GkDone (Some ''TypeError'')) m)"

definition handleIncomingKeyExchange :: "string \<Rightarrow> js \<Rightarrow> gk_manager \<Rightarrow> gk_manager" where
  "handleIncomingKeyExchange fp d m =
     (if is_key_message d
      then gk_derive (length (gk_calls m)) d
             (m\<lparr>gk_calls := gk_calls m @ [\<lparr>gc_peer = fp, gc_incoming = True, gc_stage = GkConnecting\<rparr>]\<rparr>)
      else m)"

text \<open>The \<open>data\<close> listener of the \<open>exchangeWith\<close> calls for a peer.\<close>

definition gk_on_data :: "string \<Rightarrow> js \<Rightarrow> gk_manager \<Rightarrow> gk_manager" where
  "gk_on_data fp d m =
     (if is_key_message d
      then fold (\<lambda>i m. if gc_peer (gk_calls m ! i) = fp \<and> gc_stage (gk_calls m ! i) = GkAwaiting then gk_derive i d m else m)
             [0..<length (gk_calls m)] m
      else m)"

text \<open>A key operation of \<open>deriveKey\<close> is done.\<close>

definition gk_key_op :: "webcrypto \<Rightarrow> nat \<Rightarrow> bool \<Rightarrow> bool \<Rightarrow> js \<Rightarrow> bool \<Rightarrow> gk_manager \<Rightarrow> gk_manager \<times> gk_out list" where
  "gk_key_op w i connected hasPriv me sendOk m =
     (case gc_stage (gk_calls m ! i) of
        GkImporting raw \<Rightarrow>
          (case derive_bits w raw (gk_e2e m) of
             Inl x \<Rightarrow> (gk_stage_to i (GkDone (Some x)) m, []) | Inr bits \<Rightarrow> (gk_stage_to i (GkDeriving bits) m, []))
      | GkDeriving bits \<Rightarrow>
          (let m1 = m\<lparr>gk_e2e := derive_done (gc_peer (gk_calls m ! i)) bits (gk_e2e m)\<rparr> in
           if \<not> gc_incoming (gk_calls m ! i) then (gk_stage_to i (GkDone None) m1, [])
           else if connected then gk_connected i hasPriv me sendOk m1
           else (gk_stage_to i GkConnecting m1, []))
      | _ \<Rightarrow> (m, []))"

text \<open>The timeouts of \<open>waitForConnection\<close> and of \<open>exchangeWith\<close>.\<close>

definition gk_timeout :: "nat \<Rightarrow> gk_manager \<Rightarrow> gk_manager" where
  "gk_timeout i m =
     (case gc_stage (gk_calls m ! i) of
        GkConnecting \<Rightarrow> gk_stage_to i (GkDone (Some ''Connection timeout for key exchange'')) m
      | GkAwaiting \<Rightarrow> gk_stage_to i (GkDone (Some ''Key exchange timeout'')) m
      | _ \<Rightarrow> m)"

definition js_text :: "(js \<Rightarrow> string) \<Rightarrow> js \<Rightarrow> string" where
  "js_text stringify v = (case v of JStr t \<Rightarrow> t | _ \<Rightarrow> stringify v)"

definition encryptForPeer :: "webcrypto \<Rightarrow> (js \<Rightarrow> string) \<Rightarrow> bytes \<Rightarrow> string \<Rightarrow> js \<Rightarrow> gk_manager \<Rightarrow> string + string" where
  "encryptForPeer w stringify iv fp d m = encrypt w iv fp (js_text stringify d) (gk_e2e m)"

definition decryptFromPeer :: "webcrypto \<Rightarrow> (string \<Rightarrow> js option) \<Rightarrow> string \<Rightarrow> string \<Rightarrow> gk_manager \<Rightarrow> string + js" where
  "decryptFromPeer w parse fp d m =
     (case decrypt w fp d (gk_e2e m) of
        Inl x \<Rightarrow> Inl x
      | Inr t \<Rightarrow> Inr (case parse t of Some v \<Rightarrow> v | None \<Rightarrow> JStr t))"

end
