(* ===== verification/Crypto_Props.thy ===== *)
theory Crypto_Props
  imports Crypto
begin

text \<open>
  The properties of the encryption layer: what one end encrypts after a key exchange, the other end
  decrypts, and an exported identity restores.
\<close>

section \<open>Encryption under a shared key\<close>

lemma base64ToArray_btoa: "base64ToArray (btoa bs) = Some bs"
  by (simp add: base64ToArray_def atob_btoa map_nth)

lemma encrypt_decrypt:
  assumes "webcrypto_ok w" "map_get (e_keys ea) fb = Some k" "map_get (e_keys eb) fa = Some k" "length iv = 12"
  shows "\<exists>t. encrypt w iv fb d ea = Inr t \<and> decrypt w fa t eb = Inr d"
  using assms by (simp add: encrypt_def decrypt_def arrayToBase64_btoa base64ToArray_btoa webcrypto_ok_def)

section \<open>The key exchange\<close>

text \<open>An initialised end: the key pair and its exported public key.\<close>

definition ready_with :: "webcrypto \<Rightarrow> nat \<Rightarrow> gk_manager \<Rightarrow> bool" where
  "ready_with w k m = (e_priv (gk_e2e m) = Some k \<and> e_pub (gk_e2e m) = Some (wc_pub w k))"

text \<open>An end announces its key in call \<open>i\<close>, signed when it has an identity key.\<close>

definition gk_announce :: "nat \<Rightarrow> bytes option \<Rightarrow> js \<Rightarrow> gk_manager \<Rightarrow> gk_manager \<times> gk_out list" where
  "gk_announce i sig me m =
     (case sig of
        None \<Rightarrow> gk_connected i False me True m
      | Some raw \<Rightarrow> (let (m1, o1) = gk_connected i True me True m; (m2, o2) = gk_signed i (Inr raw) me True m1 in (m2, o1 @ o2)))"

text \<open>The two key operations of \<open>deriveKey\<close> in call \<open>i\<close>.\<close>

definition gk_derived :: "webcrypto \<Rightarrow> nat \<Rightarrow> gk_manager \<Rightarrow> gk_manager" where
  "gk_derived w i m = fst (gk_key_op w i False False Undef True (fst (gk_key_op w i False False Undef True m)))"

lemma stage_to_fields [simp]:
  "gk_e2e (gk_stage_to i st m) = gk_e2e m" "length (gk_calls (gk_stage_to i st m)) = length (gk_calls m)"
  "i < length (gk_calls m) \<Longrightarrow> gk_calls (gk_stage_to i st m) ! i = (gk_calls m ! i)\<lparr>gc_stage := st\<rparr>"
  "j \<noteq> i \<Longrightarrow> gk_calls (gk_stage_to i st m) ! j = gk_calls m ! j"
  "gk_stage_to i st' (gk_stage_to i st m) = gk_stage_to i st' m"
  by (simp_all add: gk_stage_to_def) (cases "i < length (gk_calls m)", simp_all add: list_update_beyond)

lemma announce_props:
  assumes "ready_with w k m" "i < length (gk_calls m)"
  shows "\<exists>s. gk_announce i sig me m =
    (gk_stage_to i (if gc_incoming (gk_calls m ! i) then GkDone None else GkAwaiting) m,
     [GkSend (gc_peer (gk_calls m ! i)) (gk_message (btoa (wc_pub w k)) s me)])"
  using assms
  by (cases sig) (auto simp: gk_announce_def gk_connected_def gk_signed_def gk_send_def ready_with_def getPublicKeyB64_def
      arrayToBase64_btoa Let_def)

lemma key_message [simp]: "is_key_message (gk_message pub s me) \<longleftrightarrow> pub \<noteq> []"
  "prop_opt (gk_message pub s me) ''publicKey'' = JStr pub"
  by (simp_all add: is_key_message_def gk_message_def)

lemma derived_props:
  assumes "ready_with w k m" "i < length (gk_calls m)" "wc_derive w k (wc_pub w l) = Some bits"
  shows "gk_derived w i (gk_derive i (gk_message (btoa (wc_pub w l)) s me) m) =
    gk_stage_to i (if gc_incoming (gk_calls m ! i) then GkConnecting else GkDone None)
      (m\<lparr>gk_e2e := derive_done (gc_peer (gk_calls m ! i)) bits (gk_e2e m)\<rparr>)"
  using assms
  by (simp add: gk_derived_def gk_derive_def derive_start_def ready_with_def atob_btoa gk_key_op_def derive_bits_def
      Let_def gk_stage_to_def)

text \<open>
  The whole exchange between two ends \<open>a\<close> (known to the other as \<open>fa\<close>) and \<open>b\<close>: \<open>a\<close> calls
  \<open>exchangeWith\<close>, the message reaches \<open>handleIncomingKeyExchange\<close> of \<open>b\<close>, whose reply reaches
  the listener of \<open>a\<close>.
\<close>

definition sent_data :: "gk_out list \<Rightarrow> js" where
  "sent_data out = (case out of [GkSend fp d] \<Rightarrow> d | _ \<Rightarrow> Undef)"

definition full_exchange ::
  "webcrypto \<Rightarrow> string \<Rightarrow> string \<Rightarrow> bytes option \<Rightarrow> bytes option \<Rightarrow> gk_manager \<Rightarrow> gk_manager \<Rightarrow> gk_manager \<times> gk_manager" where
  "full_exchange w fa fb siga sigb ma mb =
     (let a0 = fst (exchangeWith fb False False (JStr fa) True ma);
          (a1, oa) = gk_announce 0 siga (JStr fa) a0;
          b1 = gk_derived w 0 (handleIncomingKeyExchange fa (sent_data oa) mb);
          (b2, ob) = gk_announce 0 sigb (JStr fb) b1
      in (gk_derived w 0 (gk_on_data fb (sent_data ob) a1), b2))"

lemma full_exchange_keys:
  assumes w: "wc_derive w ka (wc_pub w kb) = Some bits" "wc_derive w kb (wc_pub w ka) = Some bits"
    and r: "ready_with w ka ma" "ready_with w kb mb" "gk_calls ma = []" "gk_calls mb = []"
    and ne: "btoa (wc_pub w ka) \<noteq> []" "btoa (wc_pub w kb) \<noteq> []"
    and ex: "full_exchange w fa fb siga sigb ma mb = (ma', mb')"
  shows "e_keys (gk_e2e ma') = map_set fb bits (e_keys (gk_e2e ma)) \<and> e_keys (gk_e2e mb') = map_set fa bits (e_keys (gk_e2e mb))
    \<and> gc_stage (gk_calls ma' ! 0) = GkDone None \<and> gc_stage (gk_calls mb' ! 0) = GkDone None"
proof -
  let ?ca = "\<lparr>gc_peer = fb, gc_incoming = False, gc_stage = GkConnecting\<rparr>"
  let ?cb = "\<lparr>gc_peer = fa, gc_incoming = True, gc_stage = GkConnecting\<rparr>"
  let ?a0 = "ma\<lparr>gk_calls := [?ca]\<rparr>" and ?b0 = "mb\<lparr>gk_calls := [?cb]\<rparr>"
  let ?b1 = "?b0\<lparr>gk_e2e := derive_done fa bits (gk_e2e mb)\<rparr>"
  have a0: "fst (exchangeWith fb False False (JStr fa) True ma) = ?a0" by (simp add: exchangeWith_def r)
  obtain s where s: "gk_announce 0 siga (JStr fa) ?a0
      = (gk_stage_to 0 GkAwaiting ?a0, [GkSend fb (gk_message (btoa (wc_pub w ka)) s (JStr fa))])"
    using announce_props [of w ka ?a0 0 siga "JStr fa"] r(1) by (auto simp: ready_with_def)
  have b1: "gk_derived w 0 (handleIncomingKeyExchange fa (gk_message (btoa (wc_pub w ka)) s (JStr fa)) mb) = gk_stage_to 0 GkConnecting ?b1"
    using derived_props [of w kb ?b0 0 ka bits s "JStr fa"] r(2) w(2) ne by (simp add: handleIncomingKeyExchange_def r ready_with_def)
  obtain s' where s': "gk_announce 0 sigb (JStr fb) (gk_stage_to 0 GkConnecting ?b1)
      = (gk_stage_to 0 (GkDone None) ?b1, [GkSend fa (gk_message (btoa (wc_pub w kb)) s' (JStr fb))])"
    using announce_props [of w kb "gk_stage_to 0 GkConnecting ?b1" 0 sigb "JStr fb"] r(2)
    by (auto simp: ready_with_def derive_done_def)
  have a2: "gk_derived w 0 (gk_on_data fb (gk_message (btoa (wc_pub w kb)) s' (JStr fb)) (gk_stage_to 0 GkAwaiting ?a0))
      = gk_stage_to 0 (GkDone None) ((gk_stage_to 0 GkAwaiting ?a0)\<lparr>gk_e2e := derive_done fb bits (gk_e2e ma)\<rparr>)"
    using derived_props [of w ka "gk_stage_to 0 GkAwaiting ?a0" 0 kb bits s' "JStr fb"] r(1) w(1) ne
    by (simp add: gk_on_data_def ready_with_def)
  have "ma' = gk_stage_to 0 (GkDone None) ((gk_stage_to 0 GkAwaiting ?a0)\<lparr>gk_e2e := derive_done fb bits (gk_e2e ma)\<rparr>)"
    "mb' = gk_stage_to 0 (GkDone None) ?b1"
    using ex a0 s b1 s' a2 by (simp_all add: full_exchange_def sent_data_def)
  then show ?thesis by (simp add: derive_done_def)
qed

text \<open>
  C27. A key exchange makes the two ends understand each other: both calls are fulfilled, and
  whatever one end then encrypts for the other is decrypted by it, with or without signatures and
  for every value and initialisation vector.  A value that is not a string comes back as
  \<open>JSON.parse\<close> of its JSON text; a string comes back as itself unless it happens to be JSON
  text, in which case it comes back parsed.
\<close>

theorem key_exchange_roundtrip:
  assumes "webcrypto_ok w" "ready_with w ka ma" "ready_with w kb mb" "gk_calls ma = []" "gk_calls mb = []"
    and "wc_pub w ka \<noteq> []" "wc_pub w kb \<noteq> []" "length iv = 12"
    and "full_exchange w fa fb siga sigb ma mb = (ma', mb')"
  shows "gc_stage (gk_calls ma' ! 0) = GkDone None \<and> gc_stage (gk_calls mb' ! 0) = GkDone None
    \<and> (\<exists>t. encryptForPeer w stringify iv fb v ma' = Inr t
         \<and> decryptFromPeer w parse fa t mb' = Inr (case parse (js_text stringify v) of Some u \<Rightarrow> u | None \<Rightarrow> JStr (js_text stringify v)))"
proof -
  obtain bits where bits: "wc_derive w ka (wc_pub w kb) = Some bits" "wc_derive w kb (wc_pub w ka) = Some bits"
    using assms(1) unfolding webcrypto_ok_def by blast
  note keys = full_exchange_keys [OF bits assms(2-5) _ _ assms(9), unfolded btoa_Nil, OF assms(6,7)]
  obtain t where "encrypt w iv fb (js_text stringify v) (gk_e2e ma') = Inr t" "decrypt w fa t (gk_e2e mb') = Inr (js_text stringify v)"
    using encrypt_decrypt [OF assms(1), of "gk_e2e ma'" fb bits "gk_e2e mb'" fa iv "js_text stringify v"] keys assms(8) by auto
  with keys show ?thesis by (simp add: encryptForPeer_def decryptFromPeer_def)
qed

text \<open>Operations that satisfy the laws: keys are added and texts are shifted by the key.\<close>

definition toy_crypto :: webcrypto where
  "toy_crypto = \<lparr>wc_pub = (\<lambda>k. [word_of_nat k]),
     wc_derive = (\<lambda>k raw. Some [word_of_nat k + hd raw]),
     wc_encrypt = (\<lambda>key iv m. map (\<lambda>b. b + hd key) m), wc_decrypt = (\<lambda>key iv m. Some (map (\<lambda>b. b - hd key) m)),
     wc_sign = (\<lambda>k d. [word_of_nat k]), wc_verify = (\<lambda>p s d. p = s),
     wc_utf8 = map (\<lambda>c. word_of_nat (of_char c)), wc_text = map (\<lambda>b. char_of (unat b)),
     wc_export_private = (\<lambda>k. JNum (int k)), wc_export_public = (\<lambda>k. JNum (int k)),
     wc_import = (\<lambda>a b. case a of JNum n \<Rightarrow> Some (nat n) | _ \<Rightarrow> None)\<rparr>"

lemma toy_crypto_ok: "webcrypto_ok toy_crypto"
proof -
  have c: "char_of (unat (word_of_nat (of_char c) :: 8 word)) = (c :: char)" for c
    by (simp add: unat_of_nat)
  have "map ((\<lambda>b. char_of (unat b)) \<circ> (\<lambda>c. word_of_nat (of_char c) :: 8 word)) t = t" for t
    by (simp add: c comp_def)
  then show ?thesis by (simp add: webcrypto_ok_def toy_crypto_def comp_def add.commute)
qed

definition toy_manager :: "nat \<Rightarrow> gk_manager" where
  "toy_manager k = \<lparr>gk_e2e = e2e_init toy_crypto k new_E2E, gk_calls = []\<rparr>"

theorem key_exchange_roundtrip_witness:
  "\<exists>t. encryptForPeer toy_crypto (\<lambda>v. []) (replicate 12 7) ''bob'' (JStr ''hello'')
        (fst (full_exchange toy_crypto ''alice'' ''bob'' None (Some [1]) (toy_manager 3) (toy_manager 4))) = Inr t
     \<and> decryptFromPeer toy_crypto (\<lambda>t. None) ''alice'' t
        (snd (full_exchange toy_crypto ''alice'' ''bob'' None (Some [1]) (toy_manager 3) (toy_manager 4))) = Inr (JStr ''hello'')"
proof -
  have r: "ready_with toy_crypto k (toy_manager k)" "gk_calls (toy_manager k) = []" "wc_pub toy_crypto k \<noteq> []" for k
    by (simp_all add: ready_with_def toy_manager_def e2e_init_def e2e_init_keys_def e2e_init_done_def toy_crypto_def)
  show ?thesis
    using key_exchange_roundtrip [of toy_crypto 3 "toy_manager 3" 4 "toy_manager 4" "replicate 12 7" "''alice''" "''bob''" None "Some [1]",
        OF toy_crypto_ok r(1) r(1) r(2) r(2) r(3) r(3) _ prod.collapse [symmetric], of "\<lambda>v. []" "JStr ''hello''" "\<lambda>t. None"]
    by (simp add: js_text_def)
qed

section \<open>Identities\<close>

lemma identity_export_restore:
  assumes "webcrypto_ok w" "i_keys s \<noteq> None"
  shows "\<exists>x. id_export w s = Inr x \<and> id_restore w x t = Inr s"
  using assms by (cases s) (auto simp: id_export_def id_restore_def webcrypto_ok_def)

end
