(* ===== verification/Offline_Store.thy ===== *)
theory Offline_Store
  imports Types
begin

text \<open>
  The class \<open>OfflineStore\<close> of packages/peer-client/src/core/offline-store.ts over an IndexedDB
  database.  An object store is an association list ordered by key, which is the order
  \<open>getAll\<close> returns; \<open>put\<close> replaces the record with the same key.  The database outlives the
  connection \<open>db\<close>, so closing and opening again keeps it.  A rejected promise is
  \<open>Inl\<close> with its message; failures inside the database are outside the model.
\<close>

section \<open>Object stores\<close>

fun db_put :: "'k::linorder \<Rightarrow> 'v \<Rightarrow> ('k \<times> 'v) list \<Rightarrow> ('k \<times> 'v) list" where
  "db_put k v [] = [(k, v)]"
| "db_put k v ((k', v') # m) =
     (if k < k' then (k, v) # (k', v') # m else if k = k' then (k, v) # m else (k', v') # db_put k v m)"

definition db_wf :: "('k::linorder \<times> 'v) list \<Rightarrow> bool" where
  "db_wf m = (sorted (map fst m) \<and> distinct (map fst m))"

lemma db_put_keys: "set (map fst (db_put k v m)) = insert k (set (map fst m))"
  by (induction k v m rule: db_put.induct) (simp_all add: insert_commute)

lemma db_wf_put: "db_wf m \<Longrightarrow> db_wf (db_put k v m)"
proof (induction k v m rule: db_put.induct)
  case (2 k v k' v' m)
  then have m: "db_wf m" "\<forall>x\<in>set (map fst m). k' \<le> x" "k' \<notin> set (map fst m)" by (simp_all add: db_wf_def)
  consider "k < k'" | "k = k'" | "k' < k" by (rule linorder_cases)
  then show ?case
  proof cases
    case 1
    with m 2(2) show ?thesis by (auto simp: db_wf_def)
  next
    case 2
    with \<open>db_wf ((k', v') # m)\<close> show ?thesis by (simp add: db_wf_def)
  next
    case 3
    then have "db_wf (db_put k v m)" using 2(1) m(1) by simp
    moreover have "\<forall>x\<in>set (map fst (db_put k v m)). k' \<le> x" "k' \<notin> set (map fst (db_put k v m))"
      unfolding db_put_keys using m 3 by auto
    ultimately show ?thesis using 3 by (auto simp: db_wf_def)
  qed
qed (simp add: db_wf_def)

lemma db_get_put: "db_wf m \<Longrightarrow> map_of (db_put k v m) = (map_of m)(k \<mapsto> v)"
proof (induction m)
  case (Cons e m)
  obtain k' v' where e: "e = (k', v')" by force
  from Cons.prems have "db_wf m" by (auto simp: db_wf_def e)
  with Cons.IH show ?case by (auto simp: e fun_eq_iff)
qed simp

lemma db_wf_del: "db_wf m \<Longrightarrow> db_wf (map_del k m)"
  by (induction m) (auto simp: db_wf_def set_map_del map_keys_del image_iff Ball_def)

interpretation idb: ordered_dict "[]" map_of "db_put :: 'k::linorder \<Rightarrow> _" map_del "map fst" db_wf
proof unfold_locales
  fix m :: "('k::linorder \<times> 'v) list" and k v
  assume m: "db_wf m"
  show "map_of (db_put k v m) = (map_of m)(k \<mapsto> v)" using m by (rule db_get_put)
  show "db_wf (db_put k v m)" using m by (rule db_wf_put)
  show "db_wf (map_del k m)" using m by (rule db_wf_del)
  show "set (map fst m) = dom (map_of m)" by (simp add: dom_map_of_conv_image_fst)
  show "distinct (map fst m)" using m by (simp add: db_wf_def)
qed (simp_all add: db_wf_def)

section \<open>The store\<close>

datatype meta = LastSync int | SavedHlc hlc

record database =
  db_state :: "(string \<times> sync_state) list"
  db_pending :: "(string \<times> offline_operation) list"
  db_meta :: "(string \<times> meta) list"

record offline_store =
  os_open :: bool
  os_db :: database

definition empty_database :: database where
  "empty_database = \<lparr>db_state = [], db_pending = [], db_meta = []\<rparr>"

definition new_OfflineStore :: "database \<Rightarrow> offline_store" where
  "new_OfflineStore db = \<lparr>os_open = False, os_db = db\<rparr>"

definition st_open :: "offline_store \<Rightarrow> offline_store" where
  "st_open s = s\<lparr>os_open := True\<rparr>"

text \<open>The private operations: each rejects when no connection is open.\<close>

definition with_db :: "(database \<Rightarrow> 'a) \<Rightarrow> offline_store \<Rightarrow> string + 'a" where
  "with_db f s = (if os_open s then Inr (f (os_db s)) else Inl ''DB not open'')"

definition update_db :: "(database \<Rightarrow> database) \<Rightarrow> offline_store \<Rightarrow> string + offline_store" where
  "update_db f s = (if os_open s then Inr (s\<lparr>os_db := f (os_db s)\<rparr>) else Inl ''DB not open'')"

definition st_getState :: "string \<Rightarrow> offline_store \<Rightarrow> string + sync_state option" where
  "st_getState k = with_db (\<lambda>db. map_get (db_state db) k)"

definition st_putState :: "sync_state \<Rightarrow> offline_store \<Rightarrow> string + offline_store" where
  "st_putState e = update_db (\<lambda>db. db\<lparr>db_state := db_put (e_key e) e (db_state db)\<rparr>)"

definition st_getAllState :: "offline_store \<Rightarrow> string + sync_state list" where
  "st_getAllState = with_db (\<lambda>db. map snd (db_state db))"

definition st_deleteState :: "string \<Rightarrow> offline_store \<Rightarrow> string + offline_store" where
  "st_deleteState k = update_db (\<lambda>db. db\<lparr>db_state := map_del k (db_state db)\<rparr>)"

definition st_clearState :: "offline_store \<Rightarrow> string + offline_store" where
  "st_clearState = update_db (\<lambda>db. db\<lparr>db_state := []\<rparr>)"

definition st_addPendingOp :: "offline_operation \<Rightarrow> offline_store \<Rightarrow> string + offline_store" where
  "st_addPendingOp op = update_db (\<lambda>db. db\<lparr>db_pending := db_put (op_id op) op (db_pending db)\<rparr>)"

definition st_getAllPendingOps :: "offline_store \<Rightarrow> string + offline_operation list" where
  "st_getAllPendingOps = with_db (\<lambda>db. sort_key op_ts (map snd (db_pending db)))"

definition st_removePendingOp :: "string \<Rightarrow> offline_store \<Rightarrow> string + offline_store" where
  "st_removePendingOp i = update_db (\<lambda>db. db\<lparr>db_pending := map_del i (db_pending db)\<rparr>)"

definition st_clearPendingOps :: "offline_store \<Rightarrow> string + offline_store" where
  "st_clearPendingOps = update_db (\<lambda>db. db\<lparr>db_pending := []\<rparr>)"

definition st_pendingOpCount :: "offline_store \<Rightarrow> string + nat" where
  "st_pendingOpCount = with_db (\<lambda>db. length (db_pending db))"

definition st_putMeta :: "string \<Rightarrow> meta \<Rightarrow> offline_store \<Rightarrow> string + offline_store" where
  "st_putMeta i v = update_db (\<lambda>db. db\<lparr>db_meta := db_put i v (db_meta db)\<rparr>)"

definition st_getMeta :: "string \<Rightarrow> offline_store \<Rightarrow> string + meta option" where
  "st_getMeta i = with_db (\<lambda>db. map_get (db_meta db) i)"

definition st_getLastSyncTime :: "offline_store \<Rightarrow> string + int" where
  "st_getLastSyncTime s =
     (case st_getMeta ''lastSync'' s of
        Inl x \<Rightarrow> Inl x | Inr m \<Rightarrow> Inr (case m of Some (LastSync t) \<Rightarrow> t | _ \<Rightarrow> 0))"

definition st_setLastSyncTime :: "int \<Rightarrow> offline_store \<Rightarrow> string + offline_store" where
  "st_setLastSyncTime t = st_putMeta ''lastSync'' (LastSync t)"

definition st_getHLC :: "offline_store \<Rightarrow> string + hlc option" where
  "st_getHLC s =
     (case st_getMeta ''hlc'' s of
        Inl x \<Rightarrow> Inl x | Inr m \<Rightarrow> Inr (case m of Some (SavedHlc h) \<Rightarrow> Some h | _ \<Rightarrow> None))"

definition st_setHLC :: "hlc \<Rightarrow> offline_store \<Rightarrow> string + offline_store" where
  "st_setHLC h = st_putMeta ''hlc'' (SavedHlc h)"

definition st_close :: "offline_store \<Rightarrow> offline_store" where
  "st_close s = s\<lparr>os_open := False\<rparr>"

definition st_destroy :: "offline_store \<Rightarrow> offline_store" where
  "st_destroy s = (st_close s)\<lparr>os_db := empty_database\<rparr>"

definition store_wf :: "offline_store \<Rightarrow> bool" where
  "store_wf s = (db_wf (db_state (os_db s)) \<and> db_wf (db_pending (os_db s)) \<and> db_wf (db_meta (os_db s)))"

lemmas st_update_defs = update_db_def st_putState_def st_deleteState_def st_clearState_def st_addPendingOp_def
  st_removePendingOp_def st_clearPendingOps_def st_putMeta_def st_setLastSyncTime_def st_setHLC_def

lemmas st_read_defs = with_db_def st_getState_def st_getAllState_def st_getAllPendingOps_def st_pendingOpCount_def
  st_getMeta_def st_getLastSyncTime_def st_getHLC_def

lemma store_wf_updates:
  assumes "store_wf s"
  shows "st_putState e s = Inr t \<Longrightarrow> store_wf t" "st_addPendingOp op s = Inr t \<Longrightarrow> store_wf t"
    "st_removePendingOp i s = Inr t \<Longrightarrow> store_wf t" "st_setHLC h s = Inr t \<Longrightarrow> store_wf t"
    "st_setLastSyncTime n s = Inr t \<Longrightarrow> store_wf t"
  using assms by (auto simp: st_update_defs store_wf_def db_wf_put db_wf_del split: if_splits)

end
