(* ===== verification/Offline_Room.thy ===== *)
theory Offline_Room
  imports Sync Crypto Offline_Store
begin

text \<open>
  The class \<open>OfflineSyncRoom\<close> of packages/peer-client/src/offline-sync-room.ts.  Methods and
  handlers run to their end before the next event, except \<open>flushPendingOps\<close>, which pauses between
  operations: what it still has to send is kept in the state and each operation is an event.  What
  the room asks of the client is an output; \<open>connected\<close> is the client's getter at the time of the
  call.  Readings of the clock, initialisation vectors and operation ids are arguments.
\<close>

section \<open>State\<close>

record osr_config =
  oc_encryption :: bool
  oc_maxPending :: nat
  oc_batch :: nat
  oc_merge_mode :: bool                  \<comment> \<open>\<open>conflictResolution === 'merge'\<close>\<close>
  oc_merge :: "(js \<Rightarrow> js \<Rightarrow> js) option"

record osr =
  o_room :: string
  o_state :: "(string, sync_state) jsmap"
  o_hlc :: hlc
  o_closed :: bool
  o_online :: bool
  o_ready :: bool
  o_syncing :: bool
  o_listens :: nat                       \<comment> \<open>times the listeners are attached\<close>
  o_joins :: nat                         \<comment> \<open>calls of \<open>joinRoom\<close> by \<open>createAndJoin\<close> and \<open>joinExisting\<close>\<close>
  o_rejoins :: nat                       \<comment> \<open>and by the \<open>reconnected\<close> listener\<close>
  o_timers :: nat                        \<comment> \<open>timers that will broadcast the state\<close>
  o_flush :: "offline_operation list list option"   \<comment> \<open>batches a flush still has to send\<close>
  o_remoteKeys :: "string list"
  o_e2e :: e2e
  o_store :: offline_store

datatype osr_payload =
    OpMsg bool string "hlc option" js "string option"
      \<comment> \<open>deletion, key, stamp, value, encrypted value\<close>
  | OsFull "sync_wire list"
  | OsRequest
  | OsKey string string                  \<comment> \<open>subtype, public key\<close>

datatype osr_out =
    OEmit string "js list"
  | OBroadcast osr_payload
  | ORelay string osr_payload
  | OCreateRoom
  | OJoinRoom
  | OLeave
  | OReject string                       \<comment> \<open>the promise of the method is rejected\<close>
  | OHangs                               \<comment> \<open>the method does not return\<close>

record osr_env =
  en_clk :: "nat \<Rightarrow> int"
  en_iv :: "nat \<Rightarrow> bytes"
  en_opId :: string
  en_parse :: "string \<Rightarrow> js option"
  en_stringify :: "js \<Rightarrow> string"
  en_crypto :: webcrypto

definition new_OfflineSyncRoom :: "osr_config \<Rightarrow> string \<Rightarrow> int \<Rightarrow> string \<Rightarrow> database \<Rightarrow> string + osr" where
  "new_OfflineSyncRoom cfg me now room db =
     (if oc_merge_mode cfg \<and> oc_merge cfg = None then Inl ''merge conflict resolution requires a merge function''
      else Inr \<lparr>o_room = room, o_state = [], o_hlc = HLC now 0 (if me = [] then ''local'' else me), o_closed = False,
                o_online = False, o_ready = False, o_syncing = False, o_listens = 0, o_joins = 0, o_rejoins = 0, o_timers = 0,
                o_flush = None, o_remoteKeys = [], o_e2e = new_E2E, o_store = new_OfflineStore db\<rparr>)"

abbreviation o_node :: "osr \<Rightarrow> string" where
  "o_node s \<equiv> hlc_node (o_hlc s)"

section \<open>Reading\<close>

definition os_get :: "osr \<Rightarrow> string \<Rightarrow> js" where
  "os_get s k = (case map_get (o_state s) k of None \<Rightarrow> Undef | Some e \<Rightarrow> if e_deleted e then Undef else e_val e)"

definition os_getAll :: "osr \<Rightarrow> (string, js) jsmap" where
  "os_getAll s = map (\<lambda>(k, e). (k, e_val e)) (filter (\<lambda>(k, e). \<not> e_deleted e) (o_state s))"

definition os_has :: "osr \<Rightarrow> string \<Rightarrow> bool" where
  "os_has s k = (case map_get (o_state s) k of None \<Rightarrow> False | Some e \<Rightarrow> \<not> e_deleted e)"

definition os_keys :: "osr \<Rightarrow> string list" where
  "os_keys s = map fst (filter (\<lambda>(k, e). \<not> e_deleted e) (o_state s))"

definition os_size :: "osr \<Rightarrow> nat" where
  "os_size s = fold (\<lambda>(k, e) n. if e_deleted e then n else Suc n) (o_state s) 0"

section \<open>Sending\<close>

definition os_tick :: "int \<Rightarrow> osr \<Rightarrow> hlc \<times> osr" where
  "os_tick now s = (let h = createHLC now (o_node s) (Some (o_hlc s)) in (h, s\<lparr>o_hlc := h\<rparr>))"

text \<open>A \<open>set\<close> is encrypted for each peer a key was exchanged with; if that fails it goes out in the clear.\<close>

definition os_encrypted :: "osr_env \<Rightarrow> string \<Rightarrow> js \<Rightarrow> hlc \<Rightarrow> osr \<Rightarrow> nat \<times> string \<Rightarrow> osr_out" where
  "os_encrypted en k v h s t =
     (case encrypt (en_crypto en) (en_iv en (fst t)) (snd t) (en_stringify en v) (o_e2e s) of
        Inr c \<Rightarrow> ORelay (snd t) (OpMsg False k (Some h) Undef (Some c))
      | Inl x \<Rightarrow> ORelay (snd t) (OpMsg False k (Some h) v None))"

definition sendOperation :: "osr_config \<Rightarrow> osr_env \<Rightarrow> op_type \<Rightarrow> string \<Rightarrow> js \<Rightarrow> hlc \<Rightarrow> osr \<Rightarrow> osr_out list" where
  "sendOperation cfg en ty k v h s =
     (case ty of
        OpDelete \<Rightarrow> [OBroadcast (OpMsg True k (Some h) Undef None)]
      | OpSet \<Rightarrow>
          if oc_encryption cfg \<and> o_remoteKeys s \<noteq> []
          then map (os_encrypted en k v h s) (zip [0..<length (o_remoteKeys s)] (o_remoteKeys s))
          else [OBroadcast (OpMsg False k (Some h) v None)])"

definition queueOperation ::
  "osr_config \<Rightarrow> osr_env \<Rightarrow> op_type \<Rightarrow> string \<Rightarrow> js \<Rightarrow> hlc \<Rightarrow> osr \<Rightarrow> osr \<times> osr_out list" where
  "queueOperation cfg en ty k v h s =
     (case st_pendingOpCount (o_store s) of
        Inl x \<Rightarrow> (s, [OReject x])
      | Inr n \<Rightarrow>
          if n \<ge> oc_maxPending cfg then (s, [OEmit ''error'' [JStr ''Pending operations limit reached'']])
          else (case st_addPendingOp \<lparr>op_id = en_opId en, op_type = ty, op_key = k, op_value = v, op_hlc = h, op_ts = en_clk en 1\<rparr> (o_store s) of
                  Inl x \<Rightarrow> (s, [OReject x]) | Inr st \<Rightarrow> (s\<lparr>o_store := st\<rparr>, [])))"

text \<open>\<open>store.putState(entry)\<close> followed by \<open>store.setHLC(this.hlc)\<close>.\<close>

definition os_persist :: "sync_state \<Rightarrow> osr \<Rightarrow> string + osr" where
  "os_persist e s =
     (case st_putState e (o_store s) of
        Inl x \<Rightarrow> Inl x
      | Inr st \<Rightarrow> (case st_setHLC (o_hlc s) st of Inl x \<Rightarrow> Inl x | Inr st2 \<Rightarrow> Inr (s\<lparr>o_store := st2\<rparr>)))"

text \<open>The common part of \<open>set\<close> and \<open>delete\<close>.\<close>

definition os_write ::
  "osr_config \<Rightarrow> osr_env \<Rightarrow> bool \<Rightarrow> op_type \<Rightarrow> string \<Rightarrow> js \<Rightarrow> osr \<Rightarrow> osr \<times> osr_out list" where
  "os_write cfg en connected ty k v s =
     (if o_closed s then (s, [])
      else
        (let (h, s1) = os_tick (en_clk en 0) s;
             entry = local_entry (o_node s1) h k v (ty = OpDelete);
             s2 = s1\<lparr>o_state := map_set k entry (o_state s1)\<rparr>
         in case os_persist entry s2 of
              Inl x \<Rightarrow> (s2, [OReject x])
            | Inr s3 \<Rightarrow>
                (let changed = OEmit ''state_changed'' [JStr k, v, JStr ''local''] in
                 if o_online s3 \<and> connected then (s3, changed # sendOperation cfg en ty k v h s3)
                 else (let (s4, out) = queueOperation cfg en ty k v h s3 in (s4, changed # out)))))"

definition os_set :: "osr_config \<Rightarrow> osr_env \<Rightarrow> bool \<Rightarrow> string \<Rightarrow> js \<Rightarrow> osr \<Rightarrow> osr \<times> osr_out list" where
  "os_set cfg en connected k v s = os_write cfg en connected OpSet k v s"

definition os_delete :: "osr_config \<Rightarrow> osr_env \<Rightarrow> bool \<Rightarrow> string \<Rightarrow> osr \<Rightarrow> osr \<times> osr_out list" where
  "os_delete cfg en connected k s = os_write cfg en connected OpDelete k Undef s"

section \<open>Synchronising\<close>

definition os_broadcastFullState :: "osr_config \<Rightarrow> osr \<Rightarrow> osr_out list" where
  "os_broadcastFullState cfg s =
     (case slice_loop (oc_batch cfg) 0 (map_vals (o_state s)) [] of
        None \<Rightarrow> [OHangs]
      | Some batches \<Rightarrow> map (\<lambda>b. OBroadcast (OsFull (map Wire b))) batches)"

text \<open>
  \<open>flushPendingOps\<close> up to its loop.  A failure of the store ends it in the \<open>catch\<close>; with batches of size
  zero the loop never ends and \<open>_syncing\<close> stays set.
\<close>

definition flush_start :: "osr_config \<Rightarrow> osr \<Rightarrow> osr \<times> osr_out list" where
  "flush_start cfg s =
     (if o_syncing s \<or> \<not> o_online s then (s, [])
      else
        (let out = OEmit ''sync_started'' [] # os_broadcastFullState cfg s in
         case st_getAllPendingOps (o_store s) of
           Inl x \<Rightarrow> (s, out @ [OEmit ''error'' [JStr x]])
         | Inr ops \<Rightarrow> (s\<lparr>o_syncing := True, o_flush := slice_loop (oc_batch cfg) 0 ops []\<rparr>, out)))"

text \<open>One turn of the loop: an operation is sent and removed, or the flush ends.\<close>

definition flush_step :: "osr_config \<Rightarrow> osr_env \<Rightarrow> osr \<Rightarrow> osr \<times> osr_out list" where
  "flush_step cfg en s =
     (case o_flush s of
        None \<Rightarrow> (s, [])
      | Some [] \<Rightarrow>
          (let s1 = s\<lparr>o_flush := None, o_syncing := False\<rparr> in
           case st_setLastSyncTime (en_clk en 0) (o_store s) of
             Inl x \<Rightarrow> (s1, [OEmit ''error'' [JStr x]])
           | Inr st \<Rightarrow> (s1\<lparr>o_store := st\<rparr>, [OEmit ''sync_complete'' []]))
      | Some ([] # bs) \<Rightarrow> (s\<lparr>o_flush := Some bs\<rparr>, [])
      | Some ((op # ops) # bs) \<Rightarrow>
          (let out = sendOperation cfg en (op_type op) (op_key op) (op_value op) (op_hlc op) s in
           case st_removePendingOp (op_id op) (o_store s) of
             Inl x \<Rightarrow> (s\<lparr>o_flush := None, o_syncing := False\<rparr>, out @ [OEmit ''error'' [JStr x]])
           | Inr st \<Rightarrow> (s\<lparr>o_store := st, o_flush := Some (ops # bs)\<rparr>, out)))"

section \<open>Remote updates\<close>

definition os_entry_ok :: "sync_wire \<Rightarrow> sync_state option" where
  "os_entry_ok w = (case w of Wire e \<Rightarrow> if e_key e = [] then None else Some e | _ \<Rightarrow> None)"

definition applyRemoteEntry ::
  "osr_config \<Rightarrow> int \<Rightarrow> int \<Rightarrow> sync_wire \<Rightarrow> string \<Rightarrow> osr \<Rightarrow> osr \<times> osr_out list" where
  "applyRemoteEntry cfg now1 now2 w from s =
     (case os_entry_ok w of
        None \<Rightarrow> (s, [])
      | Some remote \<Rightarrow>
          (let s1 = s\<lparr>o_hlc := mergeHLC now1 (o_hlc s) (e_hlc remote) (o_node s)\<rparr>;
               k = e_key remote;
               local = map_get (o_state s1) k;
               plain = (if newer remote local then
                          (let s2 = s1\<lparr>o_state := map_set k remote (o_state s1)\<rparr> in
                           case os_persist remote s2 of
                             Inl x \<Rightarrow> (s2, [OReject x])
                           | Inr s3 \<Rightarrow> (s3, [OEmit ''state_changed'' [JStr k, (if e_deleted remote then Undef else e_val remote), JStr from]]))
                        else (case st_setHLC (o_hlc s1) (o_store s1) of
                                Inl x \<Rightarrow> (s1, [OReject x]) | Inr st \<Rightarrow> (s1\<lparr>o_store := st\<rparr>, [])))
           in case (local, oc_merge cfg) of
                (Some l, Some merge) \<Rightarrow>
                  if oc_merge_mode cfg \<and> \<not> e_deleted l \<and> \<not> e_deleted remote \<and> compareHLC (e_hlc remote) (e_hlc l) \<noteq> 0 then
                    (let merged = merge (e_val l) (e_val remote);
                         (h, s2) = os_tick now2 s1;
                         entry = local_entry (o_node s2) h k merged False;
                         s3 = s2\<lparr>o_state := map_set k entry (o_state s2)\<rparr>
                     in case st_putState entry (o_store s3) of
                          Inl x \<Rightarrow> (s3, [OReject x])
                        | Inr st \<Rightarrow> (s3\<lparr>o_store := st\<rparr>,
                            [OEmit ''conflict'' [JStr k, e_val l, e_val remote, merged], OEmit ''state_changed'' [JStr k, merged, JStr from]]))
                  else plain
              | _ \<Rightarrow> plain))"

text \<open>The loop over the entries of a full state stops at the first rejection.\<close>

fun apply_entries ::
  "osr_config \<Rightarrow> (nat \<Rightarrow> int) \<Rightarrow> nat \<Rightarrow> sync_wire list \<Rightarrow> string \<Rightarrow> osr \<Rightarrow> osr \<times> osr_out list" where
  "apply_entries cfg clk i [] from s = (s, [OEmit ''synced'' [JStr from]])"
| "apply_entries cfg clk i (w # ws) from s =
     (let (s1, o1) = applyRemoteEntry cfg (clk i) (clk (Suc i)) w from s in
      if \<exists>x. OReject x \<in> set o1 then (s1, o1)
      else (let (s2, o2) = apply_entries cfg clk (Suc (Suc i)) ws from s1 in (s2, o1 @ o2)))"

definition os_handleKeyExchange :: "osr_config \<Rightarrow> osr_env \<Rightarrow> string \<Rightarrow> string \<Rightarrow> string \<Rightarrow> osr \<Rightarrow> osr \<times> osr_out list" where
  "os_handleKeyExchange cfg en subtype pub from s =
     (if \<not> oc_encryption cfg \<or> subtype \<notin> {''offer'', ''ack''} then (s, [])
      else case deriveKey (en_crypto en) from pub (o_e2e s) of
        Inl x \<Rightarrow> (s, [OEmit ''error'' [JStr x]])
      | Inr e \<Rightarrow>
          (let s1 = s\<lparr>o_e2e := e, o_remoteKeys := set_add from (o_remoteKeys s)\<rparr> in
           if subtype = ''ack'' then (s1, [])
           else case getPublicKeyB64 e of
                  Inl x \<Rightarrow> (s1, [OEmit ''error'' [JStr x]])
                | Inr mine \<Rightarrow> (s1, [ORelay from (OsKey ''ack'' mine)])))"

text \<open>The value of an operation: decrypted when it can be, otherwise the field \<open>value\<close>.\<close>

definition os_value :: "osr_config \<Rightarrow> osr_env \<Rightarrow> js \<Rightarrow> string option \<Rightarrow> string \<Rightarrow> osr \<Rightarrow> js option" where
  "os_value cfg en v enc from s =
     (case enc of
        None \<Rightarrow> Some v
      | Some c \<Rightarrow>
          if c \<noteq> [] \<and> oc_encryption cfg \<and> hasKey from (o_e2e s)
          then (case decrypt (en_crypto en) from c (o_e2e s) of Inl x \<Rightarrow> None | Inr t \<Rightarrow> en_parse en t)
          else Some v)"

fun os_handleRemoteUpdate :: "osr_config \<Rightarrow> osr_env \<Rightarrow> osr_payload \<Rightarrow> string \<Rightarrow> osr \<Rightarrow> osr \<times> osr_out list" where
  "os_handleRemoteUpdate cfg en (OsFull ws) from s =
     (if o_closed s then (s, []) else apply_entries cfg (en_clk en) 0 ws from s)"
| "os_handleRemoteUpdate cfg en OsRequest from s = (s, if o_closed s then [] else os_broadcastFullState cfg s)"
| "os_handleRemoteUpdate cfg en (OsKey subtype pub) from s =
     (if o_closed s then (s, []) else os_handleKeyExchange cfg en subtype pub from s)"
| "os_handleRemoteUpdate cfg en (OpMsg del k h v enc) from s =
     (if o_closed s then (s, [])
      else case os_value cfg en v enc from s of
        None \<Rightarrow> (s, [OEmit ''error'' [JStr (''Decryption failed from '' @ from)]])
      | Some val \<Rightarrow>
          apply_entries cfg (en_clk en) 0
            [case h of
               None \<Rightarrow> NoHlc
             | Some hh \<Rightarrow> Wire \<lparr>e_key = k, e_val = (if del then Undef else val), e_hlc = hh, e_from = from,
                               e_version = hlc_counter hh, e_deleted = del\<rparr>] from s)"

definition initiateKeyExchange :: "osr_config \<Rightarrow> string \<Rightarrow> osr \<Rightarrow> string + osr_out list" where
  "initiateKeyExchange cfg fp s =
     (if \<not> oc_encryption cfg \<or> fp \<in> set (o_remoteKeys s) then Inr []
      else case getPublicKeyB64 (o_e2e s) of Inl x \<Rightarrow> Inl x | Inr mine \<Rightarrow> Inr [ORelay fp (OsKey ''offer'' mine)])"

section \<open>Life cycle\<close>

definition os_init :: "osr_config \<Rightarrow> osr_env \<Rightarrow> nat \<Rightarrow> osr \<Rightarrow> osr \<times> osr_out list" where
  "os_init cfg en newKey s =
     (let st = st_open (o_store s);
          s1 = s\<lparr>o_store := st, o_e2e := (if oc_encryption cfg then e2e_init (en_crypto en) newKey (o_e2e s) else o_e2e s)\<rparr>
      in case (st_getHLC st, st_getAllState st) of
           (Inr saved, Inr entries) \<Rightarrow>
             (let s2 = (case saved of None \<Rightarrow> s1 | Some h \<Rightarrow> s1\<lparr>o_hlc := mergeHLC (en_clk en 0) (o_hlc s1) h (o_node s1)\<rparr>)
              in (s2\<lparr>o_state := fold (\<lambda>e. map_set (e_key e) e) entries (o_state s2),
                     o_listens := Suc (o_listens s2), o_ready := True\<rparr>, [OEmit ''ready'' []]))
         | _ \<Rightarrow> (s1, [OReject ''DB not open'']))"

text \<open>\<open>String.prototype.includes\<close>\<close>

fun str_includes :: "string \<Rightarrow> string \<Rightarrow> bool" where
  "str_includes [] pat = (pat = [])"
| "str_includes (c # cs) pat = (take (length pat) (c # cs) = pat \<or> str_includes cs pat)"

text \<open>\<open>createAndJoin\<close> once \<open>createRoom\<close> is settled, with its error message if it failed.\<close>

definition os_created :: "string option \<Rightarrow> osr \<Rightarrow> osr \<times> osr_out list" where
  "os_created err s =
     (case err of
        Some m \<Rightarrow> if str_includes m ''already exists'' then (s\<lparr>o_joins := Suc (o_joins s)\<rparr>, [OJoinRoom]) else (s, [OReject m])
      | None \<Rightarrow> (s\<lparr>o_joins := Suc (o_joins s)\<rparr>, [OJoinRoom]))"

definition os_online :: "osr_config \<Rightarrow> osr \<Rightarrow> osr \<times> osr_out list" where
  "os_online cfg s = (let (s1, out) = flush_start cfg (s\<lparr>o_online := True\<rparr>) in (s1, OEmit ''online'' [] # out))"

definition os_onJoined :: "osr_config \<Rightarrow> string \<Rightarrow> string \<Rightarrow> osr \<Rightarrow> osr \<times> osr_out list" where
  "os_onJoined cfg ns fp s =
     (if ns \<noteq> [] \<and> ns \<noteq> o_room s then (s, [])
      else case initiateKeyExchange cfg fp s of
        Inl x \<Rightarrow> (s, [OEmit ''peer_joined'' [JStr fp]])
      | Inr out \<Rightarrow> (s\<lparr>o_timers := Suc (o_timers s)\<rparr>, OEmit ''peer_joined'' [JStr fp] # out))"

definition os_onLeft :: "string \<Rightarrow> string \<Rightarrow> osr \<Rightarrow> osr \<times> osr_out list" where
  "os_onLeft fp ns s =
     (if ns \<noteq> [] \<and> ns \<noteq> o_room s then (s, [])
      else (s\<lparr>o_remoteKeys := set_del fp (o_remoteKeys s), o_e2e := removeKey fp (o_e2e s)\<rparr>, [OEmit ''peer_left'' [JStr fp]]))"

definition os_close :: "osr \<Rightarrow> osr \<times> osr_out list" where
  "os_close s =
     (if o_closed s then (s, [])
      else
        (let s1 = s\<lparr>o_closed := True, o_listens := 0\<rparr> in
         case st_setHLC (o_hlc s1) (o_store s1) of
           Inl x \<Rightarrow> (s1, [OReject x])
         | Inr st \<Rightarrow> (s1\<lparr>o_store := st_close st, o_e2e := e2e_destroy (o_e2e s1)\<rparr>, [OLeave, OEmit ''closed'' []])))"

definition os_destroy :: "osr \<Rightarrow> osr \<times> osr_out list" where
  "os_destroy s = (let (s1, out) = os_close s in (s1\<lparr>o_store := st_destroy (o_store s1)\<rparr>, out))"

section \<open>The machine\<close>

datatype osr_event =
    OSet bool string js                  \<comment> \<open>\<open>client.connected\<close>, key, value\<close>
  | ODelete bool string
  | OCreateAndJoin
  | OCreated "string option"
  | OJoinExisting
  | OJoined
  | ORejoined
  | ORejoinFails string
  | OFlushStep
  | OnOsBroadcast string string bool osr_payload  \<comment> \<open>sender, namespace, \<open>_osr\<close>\<close>
  | OnOsRelay string string bool osr_payload
  | OnOsJoined string string
  | OnOsLeft string string
  | OnReconnected
  | OnDisconnected
  | OWindowOnline bool
  | OWindowOffline
  | OTimer
  | OClose
  | ODestroy

text \<open>Only an attached listener runs.  The network listeners of the window are attached with the others.\<close>

fun osr_step :: "osr_config \<Rightarrow> osr \<Rightarrow> osr_env \<times> osr_event \<Rightarrow> osr \<times> osr_out list" where
  "osr_step cfg s (en, OSet c k v) = os_set cfg en c k v s"
| "osr_step cfg s (en, ODelete c k) = os_delete cfg en c k s"
| "osr_step cfg s (en, OCreateAndJoin) = (s, [OCreateRoom])"
| "osr_step cfg s (en, OCreated err) = os_created err s"
| "osr_step cfg s (en, OJoinExisting) = (s\<lparr>o_joins := Suc (o_joins s)\<rparr>, [OJoinRoom])"
| "osr_step cfg s (en, OJoined) =
     (if o_joins s = 0 then (s, []) else os_online cfg (s\<lparr>o_joins := o_joins s - 1\<rparr>))"
| "osr_step cfg s (en, ORejoined) =
     (if o_rejoins s = 0 then (s, []) else flush_start cfg (s\<lparr>o_rejoins := o_rejoins s - 1\<rparr>))"
| "osr_step cfg s (en, ORejoinFails m) =
     (if o_rejoins s = 0 then (s, []) else (s\<lparr>o_rejoins := o_rejoins s - 1\<rparr>, [OEmit ''error'' [JStr m]]))"
| "osr_step cfg s (en, OFlushStep) = flush_step cfg en s"
| "osr_step cfg s (en, OnOsBroadcast from ns osr p) =
     (if ns = o_room s \<and> osr then times (o_listens s) (os_handleRemoteUpdate cfg en p from) s else (s, []))"
| "osr_step cfg s (en, OnOsRelay from room osr p) =
     (if osr \<and> room = o_room s then times (o_listens s) (os_handleRemoteUpdate cfg en p from) s else (s, []))"
| "osr_step cfg s (en, OnOsJoined fp ns) = times (o_listens s) (os_onJoined cfg ns fp) s"
| "osr_step cfg s (en, OnOsLeft fp ns) = times (o_listens s) (os_onLeft fp ns) s"
| "osr_step cfg s (en, OnReconnected) =
     times (o_listens s) (\<lambda>s. (s\<lparr>o_online := True, o_rejoins := Suc (o_rejoins s)\<rparr>, [OEmit ''online'' [], OJoinRoom])) s"
| "osr_step cfg s (en, OnDisconnected) = times (o_listens s) (\<lambda>s. (s\<lparr>o_online := False\<rparr>, [OEmit ''offline'' []])) s"
| "osr_step cfg s (en, OWindowOnline c) = (if c then times (o_listens s) (os_online cfg) s else (s, []))"
| "osr_step cfg s (en, OWindowOffline) = times (o_listens s) (\<lambda>s. (s\<lparr>o_online := False\<rparr>, [OEmit ''offline'' []])) s"
| "osr_step cfg s (en, OTimer) =
     (if o_timers s = 0 then (s, []) else (s\<lparr>o_timers := o_timers s - 1\<rparr>, os_broadcastFullState cfg s))"
| "osr_step cfg s (en, OClose) = os_close s"
| "osr_step cfg s (en, ODestroy) = os_destroy s"

end
