(* ===== verification/Offline_Props.thy ===== *)
theory Offline_Props
  imports Offline_Room Crypto_Props
begin

text \<open>
  The properties of \<open>OfflineSyncRoom\<close>: the database always holds what the object holds in memory, so a
  restart loses nothing; rooms in last-writer-wins mode converge; queued operations are bounded and
  a flush sends them all in order; and rooms made before the client has a fingerprint can diverge.
\<close>

section \<open>Memory and database\<close>

abbreviation o_entries :: "osr \<Rightarrow> string \<rightharpoonup> sync_state" where
  "o_entries s \<equiv> map_get (o_state s)"

abbreviation o_db :: "osr \<Rightarrow> database" where
  "o_db s \<equiv> os_db (o_store s)"

definition database_ok :: "database \<Rightarrow> bool" where
  "database_ok db = (db_wf (db_state db) \<and> db_wf (db_pending db) \<and> db_wf (db_meta db)
     \<and> (\<forall>(k, e)\<in>set (db_state db). e_key e = k) \<and> (\<forall>(k, op)\<in>set (db_pending db). op_id op = k))"

definition mirror_inv :: "osr \<Rightarrow> bool" where
  "mirror_inv s = (map_wf (o_state s) \<and> database_ok (o_db s) \<and> map_of (db_state (o_db s)) = o_entries s
     \<and> (o_closed s \<or> os_open (o_store s)))"

text \<open>What every handler keeps apart from the entries and the clock.\<close>

definition mirror_step :: "osr_config \<Rightarrow> osr \<Rightarrow> osr \<Rightarrow> bool" where
  "mirror_step cfg s t = (mirror_inv t \<and> o_node t = o_node s \<and> o_room t = o_room s
     \<and> length (db_pending (o_db t)) \<le> max (length (db_pending (o_db s))) (oc_maxPending cfg))"

lemma mirror_refl [simp]: "mirror_inv s \<Longrightarrow> mirror_step cfg s s"
  by (simp add: mirror_step_def)

lemma mirror_trans: "mirror_step cfg s t \<Longrightarrow> mirror_step cfg t u \<Longrightarrow> mirror_step cfg s u"
  by (auto simp: mirror_step_def)

lemma mirror_frame:
  assumes "mirror_inv s" "o_state t = o_state s" "o_store t = o_store s" "o_node t = o_node s" "o_room t = o_room s"
    "o_closed t = o_closed s"
  shows "mirror_step cfg s t"
  using assms by (simp add: mirror_step_def mirror_inv_def)

lemma db_put_mem: "set (db_put k v m) \<subseteq> insert (k, v) (set m)"
  by (induction k v m rule: db_put.induct) auto

lemma length_db_put: "length (db_put k v m) \<le> Suc (length m)"
  by (induction k v m rule: db_put.induct) auto

text \<open>Storing an entry in memory and in the database.\<close>

lemma mirror_store:
  assumes inv: "mirror_inv s" and e: "e_key e = k"
    and t: "o_state t = map_set k e (o_state s)" "o_node t = o_node s" "o_room t = o_room s" "o_closed t = o_closed s"
      "os_open (o_store t) = os_open (o_store s)"
      "db_state (o_db t) = db_put k e (db_state (o_db s))" "db_pending (o_db t) = db_pending (o_db s)"
      "db_wf (db_meta (o_db t))"
  shows "mirror_step cfg s t"
proof -
  have "\<forall>(k, e)\<in>set (db_state (o_db s)). e_key e = k" using inv by (simp add: mirror_inv_def database_ok_def)
  with e db_put_mem [of k e "db_state (o_db s)"] have "\<forall>(k, e)\<in>set (db_state (o_db t)). e_key e = k"
    unfolding t(6) by fast
  with inv t show ?thesis by (simp add: mirror_step_def mirror_inv_def database_ok_def db_wf_put db_get_put)
qed

lemma persist_ok:
  assumes "os_open (o_store s)"
  shows "os_persist e s = Inr (s\<lparr>o_store := (o_store s)\<lparr>os_db := (o_db s)\<lparr>db_state := db_put (e_key e) e (db_state (o_db s)),
      db_meta := db_put ''hlc'' (SavedHlc (o_hlc s)) (db_meta (o_db s))\<rparr>\<rparr>\<rparr>)"
  using assms by (simp add: os_persist_def st_update_defs)

lemma mirror_meta:
  assumes "mirror_inv s"
  shows "mirror_step cfg s (s\<lparr>o_store := (o_store s)\<lparr>os_db := (o_db s)\<lparr>db_meta := db_put i v (db_meta (o_db s))\<rparr>\<rparr>\<rparr>)"
  using assms by (simp add: mirror_step_def mirror_inv_def database_ok_def db_wf_put)

lemma queue_mirror:
  assumes "mirror_inv s" "\<not> o_closed s"
  shows "mirror_step cfg s (fst (queueOperation cfg en ty k v h s))"
    "o_state (fst (queueOperation cfg en ty k v h s)) = o_state s" "o_hlc (fst (queueOperation cfg en ty k v h s)) = o_hlc s"
proof -
  have op: "os_open (o_store s)" using assms by (simp add: mirror_inv_def)
  have ids: "\<forall>(k, op)\<in>set (db_put (op_id p) p (db_pending (o_db s))). op_id op = k" for p
    using db_put_mem [of "op_id p" p "db_pending (o_db s)"] assms(1) unfolding mirror_inv_def database_ok_def by fast
  show "mirror_step cfg s (fst (queueOperation cfg en ty k v h s))"
    using assms op length_db_put ids [of "\<lparr>op_id = en_opId en, op_type = ty, op_key = k, op_value = v, op_hlc = h, op_ts = en_clk en 1\<rparr>"]
    by (auto simp: queueOperation_def st_update_defs st_read_defs mirror_step_def mirror_inv_def database_ok_def db_wf_put
        intro: order_trans le_trans [OF length_db_put])
qed (use assms in \<open>auto simp: queueOperation_def st_update_defs st_read_defs mirror_inv_def\<close>)

lemma os_tick_simps [simp]:
  "fst (os_tick now s) = createHLC now (o_node s) (Some (o_hlc s))"
  "snd (os_tick now s) = s\<lparr>o_hlc := createHLC now (o_node s) (Some (o_hlc s))\<rparr>"
  by (simp_all add: os_tick_def Let_def)

lemma os_write_mirror:
  assumes inv: "mirror_inv s"
  shows "mirror_step cfg s (fst (os_write cfg en c ty k v s))"
    "o_state (fst (os_write cfg en c ty k v s)) = (if o_closed s then o_state s
       else map_set k (local_entry (o_node s) (createHLC (en_clk en 0) (o_node s) (Some (o_hlc s))) k v (ty = OpDelete)) (o_state s))"
    "o_hlc (fst (os_write cfg en c ty k v s)) = (if o_closed s then o_hlc s else createHLC (en_clk en 0) (o_node s) (Some (o_hlc s)))"
proof -
  let ?h = "createHLC (en_clk en 0) (o_node s) (Some (o_hlc s))"
  let ?e = "local_entry (o_node s) ?h k v (ty = OpDelete)"
  let ?s2 = "s\<lparr>o_hlc := ?h, o_state := map_set k ?e (o_state s)\<rparr>"
  let ?s3 = "?s2\<lparr>o_store := (o_store s)\<lparr>os_db := (o_db s)\<lparr>db_state := db_put k ?e (db_state (o_db s)),
      db_meta := db_put ''hlc'' (SavedHlc ?h) (db_meta (o_db s))\<rparr>\<rparr>\<rparr>"
  have op: "\<not> o_closed s \<Longrightarrow> os_open (o_store s)" using inv by (simp add: mirror_inv_def)
  have m3: "mirror_step cfg s ?s3"
    using inv by (intro mirror_store [OF inv, where e = ?e and k = k]) (simp_all add: mirror_inv_def database_ok_def db_wf_put)
  then have i3: "mirror_inv ?s3" by (simp add: mirror_step_def)
  have w: "fst (os_write cfg en c ty k v s) =
      (if o_closed s then s else if o_online s \<and> c then ?s3 else fst (queueOperation cfg en ty k v ?h ?s3))"
    using persist_ok [of ?s2 ?e] op by (simp add: os_write_def Let_def split_def)
  show "mirror_step cfg s (fst (os_write cfg en c ty k v s))"
    unfolding w using inv m3 mirror_trans [OF m3 queue_mirror(1) [OF i3]] by simp
  show "o_state (fst (os_write cfg en c ty k v s)) = (if o_closed s then o_state s else map_set k ?e (o_state s))"
    unfolding w using queue_mirror(2) [OF i3] by simp
  show "o_hlc (fst (os_write cfg en c ty k v s)) = (if o_closed s then o_hlc s else ?h)"
    unfolding w using queue_mirror(3) [OF i3] by simp
qed

section \<open>Remote entries\<close>

text \<open>The entry that \<open>applyRemoteEntry\<close> stores, if any, and the clock it stores it at.\<close>

definition merges :: "osr_config \<Rightarrow> sync_state \<Rightarrow> sync_state option \<Rightarrow> bool" where
  "merges cfg remote local = (case (local, oc_merge cfg) of
     (Some l, Some f) \<Rightarrow> oc_merge_mode cfg \<and> \<not> e_deleted l \<and> \<not> e_deleted remote \<and> compareHLC (e_hlc remote) (e_hlc l) \<noteq> 0
   | _ \<Rightarrow> False)"

definition applied :: "osr_config \<Rightarrow> int \<Rightarrow> int \<Rightarrow> sync_wire \<Rightarrow> osr \<Rightarrow> sync_state option \<times> hlc" where
  "applied cfg now1 now2 w s =
     (case os_entry_ok w of
        None \<Rightarrow> (None, o_hlc s)
      | Some remote \<Rightarrow>
          (let h = mergeHLC now1 (o_hlc s) (e_hlc remote) (o_node s); local = o_entries s (e_key remote);
               h2 = createHLC now2 (o_node s) (Some h) in
           if merges cfg remote local
           then (Some (local_entry (o_node s) h2 (e_key remote) (the (oc_merge cfg) (e_val (the local)) (e_val remote)) False), h2)
           else if newer remote local then (Some remote, h) else (None, h)))"

lemma apply_mirror:
  assumes inv: "mirror_inv s" "\<not> o_closed s"
  shows "mirror_step cfg s (fst (applyRemoteEntry cfg now1 now2 w from s))
    \<and> o_state (fst (applyRemoteEntry cfg now1 now2 w from s)) =
        (case fst (applied cfg now1 now2 w s) of None \<Rightarrow> o_state s | Some e \<Rightarrow> map_set (e_key e) e (o_state s))
    \<and> o_hlc (fst (applyRemoteEntry cfg now1 now2 w from s)) = snd (applied cfg now1 now2 w s)
    \<and> o_closed (fst (applyRemoteEntry cfg now1 now2 w from s)) = o_closed s
    \<and> o_e2e (fst (applyRemoteEntry cfg now1 now2 w from s)) = o_e2e s
    \<and> (\<forall>x. OReject x \<notin> set (snd (applyRemoteEntry cfg now1 now2 w from s)))"
proof (cases "os_entry_ok w")
  case None
  with inv show ?thesis by (simp add: applyRemoteEntry_def applied_def)
next
  case (Some remote)
  let ?h = "mergeHLC now1 (o_hlc s) (e_hlc remote) (o_node s)"
  let ?k = "e_key remote" let ?local = "o_entries s ?k"
  let ?s1 = "s\<lparr>o_hlc := ?h\<rparr>"
  have op: "os_open (o_store s)" using inv by (simp add: mirror_inv_def)
  have meta: "db_wf (db_meta (o_db s))" using inv by (simp add: mirror_inv_def database_ok_def)
  show ?thesis
  proof (cases "merges cfg remote ?local")
    case True
    then obtain l f where l: "?local = Some l" "oc_merge cfg = Some f" "oc_merge_mode cfg" "\<not> e_deleted l" "\<not> e_deleted remote"
      "compareHLC (e_hlc remote) (e_hlc l) \<noteq> 0" by (auto simp: merges_def split: option.splits)
    let ?h2 = "createHLC now2 (o_node s) (Some ?h)"
    let ?e = "local_entry (o_node s) ?h2 ?k (f (e_val l) (e_val remote)) False"
    let ?t = "s\<lparr>o_hlc := ?h2, o_state := map_set ?k ?e (o_state s),
      o_store := (o_store s)\<lparr>os_db := (o_db s)\<lparr>db_state := db_put ?k ?e (db_state (o_db s))\<rparr>\<rparr>\<rparr>"
    have "applyRemoteEntry cfg now1 now2 w from s = (?t, [OEmit ''conflict'' [JStr ?k, e_val l, e_val remote, f (e_val l) (e_val remote)],
        OEmit ''state_changed'' [JStr ?k, f (e_val l) (e_val remote), JStr from]])"
      using l op by (simp add: applyRemoteEntry_def Some Let_def split_def st_update_defs)
    moreover have "mirror_step cfg s ?t"
      by (rule mirror_store [OF inv(1), where e = ?e and k = ?k]) (simp_all add: meta)
    moreover have "applied cfg now1 now2 w s = (Some ?e, ?h2)"
      using True l by (simp add: applied_def Some Let_def)
    ultimately show ?thesis by simp
  next
    case no: False
    show ?thesis
    proof (cases "newer remote ?local")
      case True
      let ?t = "s\<lparr>o_hlc := ?h, o_state := map_set ?k remote (o_state s),
        o_store := (o_store s)\<lparr>os_db := (o_db s)\<lparr>db_state := db_put ?k remote (db_state (o_db s)),
          db_meta := db_put ''hlc'' (SavedHlc ?h) (db_meta (o_db s))\<rparr>\<rparr>\<rparr>"
      have "applyRemoteEntry cfg now1 now2 w from s =
          (?t, [OEmit ''state_changed'' [JStr ?k, (if e_deleted remote then Undef else e_val remote), JStr from]])"
        using no True op persist_ok [of "s\<lparr>o_hlc := ?h, o_state := map_set ?k remote (o_state s)\<rparr>" remote]
        by (auto simp: applyRemoteEntry_def Some Let_def merges_def split: option.splits)
      moreover have "mirror_step cfg s ?t"
        by (rule mirror_store [OF inv(1), where e = remote and k = ?k]) (simp_all add: meta db_wf_put)
      moreover have "applied cfg now1 now2 w s = (Some remote, ?h)"
        using True no by (simp add: applied_def Some Let_def)
      ultimately show ?thesis by simp
    next
      case False
      let ?t = "s\<lparr>o_hlc := ?h, o_store := (o_store s)\<lparr>os_db := (o_db s)\<lparr>db_meta := db_put ''hlc'' (SavedHlc ?h) (db_meta (o_db s))\<rparr>\<rparr>\<rparr>"
      have "applyRemoteEntry cfg now1 now2 w from s = (?t, [])"
        using no False op by (auto simp: applyRemoteEntry_def Some Let_def merges_def st_update_defs split: option.splits)
      moreover have "mirror_step cfg s ?t"
        using mirror_trans [OF mirror_frame [OF inv(1)] mirror_meta [of ?s1]] inv(1)
        by (auto simp: mirror_step_def mirror_inv_def database_ok_def db_wf_put)
      moreover have "applied cfg now1 now2 w s = (None, ?h)"
        using False no by (simp add: applied_def Some Let_def)
      ultimately show ?thesis by simp
    qed
  qed
qed

section \<open>A room as a last-writer-wins replica\<close>

definition clock_inv :: "osr \<Rightarrow> bool" where
  "clock_inv s = (\<forall>k e. o_entries s k = Some e \<longrightarrow> e_key e = k \<and> e_hlc e \<le> o_hlc s)"

text \<open>
  From \<open>s\<close> to \<open>t\<close> the database follows the memory, the clock does not fall behind the entries and, in
  last-writer-wins mode, the memory has taken in the entries \<open>es\<close>.
\<close>

definition advances :: "osr_config \<Rightarrow> osr \<Rightarrow> sync_state list \<Rightarrow> osr \<Rightarrow> bool" where
  "advances cfg s es t = (mirror_step cfg s t \<and>
     (clock_inv s \<longrightarrow> clock_inv t \<and> (\<not> oc_merge_mode cfg \<longrightarrow> o_entries t = fold lww es (o_entries s))))"

lemma advances_trans: "advances cfg s es t \<Longrightarrow> advances cfg t fs u \<Longrightarrow> advances cfg s (es @ fs) u"
  by (auto simp: advances_def intro: mirror_trans)

lemma advances_still:
  assumes "mirror_step cfg s t" "o_state t = o_state s" "o_hlc s \<le> o_hlc t"
  shows "advances cfg s [] t"
  using assms by (fastforce simp: advances_def clock_inv_def intro: order_trans)

lemma advances_refl: "mirror_inv s \<Longrightarrow> advances cfg s [] s"
  by (rule advances_still) simp_all

text \<open>Storing an entry that is newer than what is stored, at a clock not before it.\<close>

lemma advances_store:
  assumes "mirror_step cfg s t" "o_entries t = (o_entries s)(e_key e \<mapsto> e)" "o_hlc s \<le> o_hlc t" "e_hlc e \<le> o_hlc t"
    and "clock_inv s \<Longrightarrow> \<not> oc_merge_mode cfg \<Longrightarrow> lww e' (o_entries s) = (o_entries s)(e_key e \<mapsto> e)"
  shows "advances cfg s [e'] t"
proof -
  have "clock_inv t" if "clock_inv s"
    unfolding clock_inv_def assms(2) using that assms(3,4) by (auto simp: clock_inv_def intro: order_trans)
  with assms(1,2,5) show ?thesis by (simp add: advances_def)
qed

lemma lww_latest:
  assumes "clock_inv s" "o_hlc s < e_hlc e"
  shows "lww e (o_entries s) = (o_entries s)(e_key e \<mapsto> e)"
proof -
  have "newer e (o_entries s (e_key e))"
  proof (cases "o_entries s (e_key e)")
    case (Some l)
    with assms have "e_hlc l \<le> o_hlc s" by (simp add: clock_inv_def)
    with Some assms(2) show ?thesis by (simp add: newer_def compareHLC_pos)
  qed (simp add: newer_def)
  then show ?thesis by (simp add: lww_newer)
qed

lemma os_write_advances:
  assumes "mirror_inv s"
  shows "advances cfg s (if o_closed s then []
    else [local_entry (o_node s) (createHLC (en_clk en 0) (o_node s) (Some (o_hlc s))) k v (ty = OpDelete)])
    (fst (os_write cfg en c ty k v s))"
proof (cases "o_closed s")
  case True
  with os_write_mirror [OF assms, of cfg en c ty k v] show ?thesis by (auto intro!: advances_still)
next
  case False
  let ?h = "createHLC (en_clk en 0) (o_node s) (Some (o_hlc s))"
  let ?e = "local_entry (o_node s) ?h k v (ty = OpDelete)"
  have "advances cfg s [?e] (fst (os_write cfg en c ty k v s))"
  proof (rule advances_store [where e = ?e])
    show "mirror_step cfg s (fst (os_write cfg en c ty k v s))" by (rule os_write_mirror [OF assms])
    show "clock_inv s \<Longrightarrow> lww ?e (o_entries s) = (o_entries s)(e_key ?e \<mapsto> ?e)"
      by (rule lww_latest) (simp_all add: createHLC_gt)
  qed (use False os_write_mirror(2,3) [OF assms, of cfg en c ty k v] in \<open>simp_all add: less_imp_le createHLC_gt\<close>)
  with False show ?thesis by simp
qed

definition wire_entries :: "sync_wire list \<Rightarrow> sync_state list" where
  "wire_entries ws = List.map_filter os_entry_ok ws"

lemma wire_entries_Cons: "wire_entries (w # ws) = wire_entries [w] @ wire_entries ws"
  by (simp add: wire_entries_def List.map_filter_def)

lemma apply_advances:
  assumes inv: "mirror_inv s" "\<not> o_closed s"
  shows "advances cfg s (wire_entries [w]) (fst (applyRemoteEntry cfg now1 now2 w from s))"
proof (cases "os_entry_ok w")
  case None
  with inv show ?thesis by (simp add: applyRemoteEntry_def wire_entries_def List.map_filter_def advances_refl)
next
  case (Some remote)
  let ?t = "fst (applyRemoteEntry cfg now1 now2 w from s)"
  let ?h = "mergeHLC now1 (o_hlc s) (e_hlc remote) (o_node s)"
  note m = apply_mirror [OF inv, of cfg now1 now2 w "from"]
  have w: "wire_entries [w] = [remote]" by (simp add: wire_entries_def List.map_filter_def Some)
  have lt: "o_hlc s < ?h" "e_hlc remote < ?h" by (simp_all add: clock_gt)
  show ?thesis
  proof (cases "fst (applied cfg now1 now2 w s)")
    case None
    then have "\<not> merges cfg remote (o_entries s (e_key remote))" "\<not> newer remote (o_entries s (e_key remote))"
      "snd (applied cfg now1 now2 w s) = ?h"
      using Some by (auto simp: applied_def Let_def split: if_splits)
    with m None lt show ?thesis
      by (fastforce simp: w advances_def clock_inv_def lww_newer intro: order_trans less_imp_le)
  next
    case e: (Some e)
    let ?h2 = "snd (applied cfg now1 now2 w s)"
    have k: "e_key e = e_key remote" "o_hlc s < ?h2" "e_hlc e \<le> ?h2"
      using e Some lt createHLC_gt [of ?h now2 "o_node s"]
      by (auto simp: applied_def Let_def split: if_splits)
    have "advances cfg s [remote] ?t"
    proof (rule advances_store [where e = e])
      show "mirror_step cfg s ?t" using m by simp
      show "o_entries ?t = (o_entries s)(e_key e \<mapsto> e)" using m e by simp
      show "o_hlc s \<le> o_hlc ?t" "e_hlc e \<le> o_hlc ?t" using m k by simp_all
      show "lww remote (o_entries s) = (o_entries s)(e_key e \<mapsto> e)" if "\<not> oc_merge_mode cfg"
      proof -
        have "\<not> merges cfg remote (o_entries s (e_key remote))" using that by (simp add: merges_def split: option.split)
        with e Some have "e = remote" "newer remote (o_entries s (e_key remote))" by (auto simp: applied_def Let_def split: if_splits)
        then show ?thesis by (simp add: lww_newer)
      qed
    qed
    then show ?thesis by (simp add: w)
  qed
qed

lemma apply_entries_advances:
  assumes "mirror_inv s" "\<not> o_closed s"
  shows "advances cfg s (wire_entries ws) (fst (apply_entries cfg clk i ws from s))
    \<and> o_closed (fst (apply_entries cfg clk i ws from s)) = o_closed s
    \<and> o_e2e (fst (apply_entries cfg clk i ws from s)) = o_e2e s"
  using assms
proof (induction ws arbitrary: i s)
  case Nil
  then show ?case by (simp add: wire_entries_def List.map_filter_def advances_refl)
next
  case (Cons w ws)
  obtain s1 o1 where s1: "applyRemoteEntry cfg (clk i) (clk (Suc i)) w from s = (s1, o1)" by force
  note m = apply_mirror [OF Cons.prems, of cfg "clk i" "clk (Suc i)" w "from", unfolded s1, simplified]
  note a = apply_advances [OF Cons.prems, of cfg w "clk i" "clk (Suc i)" "from", unfolded s1, simplified]
  have "mirror_inv s1" "\<not> o_closed s1" using m Cons.prems by (simp_all add: mirror_step_def)
  note IH = Cons.IH [OF this, of "Suc (Suc i)"]
  from advances_trans [OF a, of "wire_entries ws"] IH m show ?case
    by (simp add: s1 split_def Let_def wire_entries_Cons [of w ws])
qed

definition op_wire :: "bool \<Rightarrow> string \<Rightarrow> hlc option \<Rightarrow> js \<Rightarrow> string \<Rightarrow> sync_wire" where
  "op_wire del k h val from = (case h of
      None \<Rightarrow> NoHlc
    | Some hh \<Rightarrow> Wire \<lparr>e_key = k, e_val = (if del then Undef else val), e_hlc = hh, e_from = from,
                     e_version = hlc_counter hh, e_deleted = del\<rparr>)"

text \<open>The entries a payload brings to a room that is not closed.\<close>

fun payload_entries :: "osr_config \<Rightarrow> osr_env \<Rightarrow> osr_payload \<Rightarrow> string \<Rightarrow> osr \<Rightarrow> sync_state list" where
  "payload_entries cfg en (OsFull ws) from s = wire_entries ws"
| "payload_entries cfg en (OpMsg del k h v enc) from s =
     (case os_value cfg en v enc from s of None \<Rightarrow> [] | Some val \<Rightarrow> wire_entries [op_wire del k h val from])"
| "payload_entries cfg en p from s = []"

lemma os_value_cong: "o_e2e t = o_e2e s \<Longrightarrow> os_value cfg en v enc from t = os_value cfg en v enc from s"
  by (simp add: os_value_def split: option.split)

lemma remote_advances:
  assumes "mirror_inv s"
  shows "advances cfg s (if o_closed s then [] else payload_entries cfg en p from s) (fst (os_handleRemoteUpdate cfg en p from s))
    \<and> o_closed (fst (os_handleRemoteUpdate cfg en p from s)) = o_closed s
    \<and> ((\<exists>d k h v c. p = OpMsg d k h v c) \<longrightarrow> o_e2e (fst (os_handleRemoteUpdate cfg en p from s)) = o_e2e s)"
proof (cases "o_closed s")
  case True
  with assms show ?thesis by (cases p) (simp_all add: advances_refl)
next
  case open_room: False
  show ?thesis
  proof (cases p)
    case (OpMsg del k h v enc)
    show ?thesis
    proof (cases "os_value cfg en v enc from s")
      case None
      with assms open_room show ?thesis by (simp add: OpMsg advances_refl)
    next
      case (Some val)
      with open_room apply_entries_advances [OF assms open_room, of cfg "[op_wire del k h val from]" "en_clk en" 0 "from"]
      show ?thesis unfolding OpMsg os_handleRemoteUpdate.simps payload_entries.simps Some option.case op_wire_def by simp
    qed
  next
    case (OsKey subtype pub)
    with assms open_room show ?thesis
      by (auto simp: os_handleKeyExchange_def Let_def intro!: advances_still mirror_frame advances_refl split: sum.split)
  qed (use assms open_room apply_entries_advances [OF assms open_room] in \<open>simp_all add: advances_refl\<close>)
qed

lemma times_advances:
  assumes "Q s" "\<And>t. Q t \<Longrightarrow> advances cfg t es (fst (f t)) \<and> Q (fst (f t))" "mirror_inv s"
  shows "advances cfg s (concat (replicate n es)) (fst (times n f s))"
  using assms(1,3)
proof (induction n arbitrary: s)
  case (Suc n)
  from assms(2) [OF Suc.prems(1)] have a: "advances cfg s es (fst (f s))" "Q (fst (f s))" by auto
  then have "mirror_inv (fst (f s))" by (simp add: advances_def mirror_step_def)
  from advances_trans [OF a(1) Suc.IH [OF a(2) this]] show ?case by (simp add: split_def Let_def)
qed (simp add: advances_refl)

lemma remote_times_advances:
  assumes "mirror_inv s"
  shows "advances cfg s (concat (replicate n (if o_closed s then [] else payload_entries cfg en p from s)))
    (fst (times n (os_handleRemoteUpdate cfg en p from) s))"
proof (rule times_advances [where Q = "\<lambda>t. mirror_inv t \<and> o_closed t = o_closed s
      \<and> ((\<exists>d k h v c. p = OpMsg d k h v c) \<longrightarrow> o_e2e t = o_e2e s)"])
  fix t assume t: "mirror_inv t \<and> o_closed t = o_closed s \<and> ((\<exists>d k h v c. p = OpMsg d k h v c) \<longrightarrow> o_e2e t = o_e2e s)"
  then have "payload_entries cfg en p from t = payload_entries cfg en p from s"
    by (cases p) (simp_all add: os_value_cong [of t s])
  with remote_advances [of t cfg en p "from"] t
  show "advances cfg t (if o_closed s then [] else payload_entries cfg en p from s) (fst (os_handleRemoteUpdate cfg en p from t))
      \<and> mirror_inv (fst (os_handleRemoteUpdate cfg en p from t))
      \<and> o_closed (fst (os_handleRemoteUpdate cfg en p from t)) = o_closed s
      \<and> ((\<exists>d k h v c. p = OpMsg d k h v c) \<longrightarrow> o_e2e (fst (os_handleRemoteUpdate cfg en p from t)) = o_e2e s)"
    by (auto simp: advances_def mirror_step_def)
qed (use assms in simp_all)

lemma plain_times_advances:
  assumes "mirror_inv s" "\<And>t. mirror_inv t \<Longrightarrow> advances cfg t [] (fst (f t))"
  shows "advances cfg s [] (fst (times n f s))"
  using times_advances [of mirror_inv s cfg "[]" f n] assms by (auto simp: advances_def mirror_step_def)

text \<open>The flush touches the queue only.\<close>

lemma flush_start_advances: "mirror_inv s \<Longrightarrow> advances cfg s [] (fst (flush_start cfg s))"
  by (auto simp: flush_start_def Let_def intro!: advances_still mirror_frame split: sum.split)

lemma mirror_remove:
  "mirror_inv s \<Longrightarrow> mirror_step cfg s (s\<lparr>o_store := (o_store s)\<lparr>os_db := (o_db s)\<lparr>db_pending := map_del i (db_pending (o_db s))\<rparr>\<rparr>, o_flush := fl\<rparr>)"
  using length_map_del_le [of i "db_pending (o_db s)"]
  by (auto simp: mirror_step_def mirror_inv_def database_ok_def db_wf_del set_map_del)

lemma flush_step_advances:
  assumes "mirror_inv s"
  shows "advances cfg s [] (fst (flush_step cfg en s))"
proof -
  have fin: "advances cfg s [] (s\<lparr>o_flush := fl, o_syncing := b\<rparr>)" "advances cfg s [] (s\<lparr>o_flush := fl\<rparr>)" for fl b
    using assms by (auto intro!: advances_still mirror_frame)
  have sync: "advances cfg s [] (s\<lparr>o_flush := fl, o_syncing := b,
      o_store := (o_store s)\<lparr>os_db := (o_db s)\<lparr>db_meta := db_put i v (db_meta (o_db s))\<rparr>\<rparr>\<rparr>)" for fl b i v
    using mirror_meta [OF assms, of cfg i v]
    by (intro advances_still) (simp_all add: mirror_step_def mirror_inv_def)
  have rem: "advances cfg s [] (s\<lparr>o_store := (o_store s)\<lparr>os_db := (o_db s)\<lparr>db_pending := map_del i (db_pending (o_db s))\<rparr>\<rparr>, o_flush := fl\<rparr>)" for i fl
    using mirror_remove [OF assms] by (intro advances_still) simp_all
  show ?thesis
    using fin sync rem advances_refl [OF assms]
    by (auto simp: flush_step_def Let_def st_update_defs split: option.split list.split)
qed

lemma os_online_advances: "mirror_inv s \<Longrightarrow> advances cfg s [] (fst (os_online cfg s))"
proof -
  assume i: "mirror_inv s"
  have "advances cfg s [] (s\<lparr>o_online := True\<rparr>)" using i by (auto intro!: advances_still mirror_frame)
  moreover from this have "advances cfg (s\<lparr>o_online := True\<rparr>) [] (fst (flush_start cfg (s\<lparr>o_online := True\<rparr>)))"
    by (intro flush_start_advances) (simp add: advances_def mirror_step_def)
  ultimately show ?thesis using advances_trans [of cfg s "[]" _ "[]"] by (auto simp: os_online_def split_def Let_def)
qed

lemma os_close_advances:
  assumes "mirror_inv s"
  shows "advances cfg s [] (fst (os_close s))"
proof (cases "o_closed s")
  case False
  with assms have "os_open (o_store s)" by (simp add: mirror_inv_def)
  with assms False show ?thesis
    by (intro advances_still) (simp_all add: os_close_def Let_def st_update_defs st_close_def mirror_step_def mirror_inv_def
        database_ok_def db_wf_put)
qed (use assms in \<open>simp add: os_close_def advances_refl\<close>)

text \<open>The entries an event brings into the memory of a room.\<close>

fun osr_seen :: "osr_config \<Rightarrow> osr \<Rightarrow> osr_env \<times> osr_event \<Rightarrow> sync_state list" where
  "osr_seen cfg s (en, OSet c k v) =
     (if o_closed s then [] else [local_entry (o_node s) (createHLC (en_clk en 0) (o_node s) (Some (o_hlc s))) k v False])"
| "osr_seen cfg s (en, ODelete c k) =
     (if o_closed s then [] else [local_entry (o_node s) (createHLC (en_clk en 0) (o_node s) (Some (o_hlc s))) k Undef True])"
| "osr_seen cfg s (en, OnOsBroadcast from ns osr p) =
     (if ns = o_room s \<and> osr
      then concat (replicate (o_listens s) (if o_closed s then [] else payload_entries cfg en p from s)) else [])"
| "osr_seen cfg s (en, OnOsRelay from room osr p) =
     (if osr \<and> room = o_room s
      then concat (replicate (o_listens s) (if o_closed s then [] else payload_entries cfg en p from s)) else [])"
| "osr_seen cfg s _ = []"

abbreviation keeps_db :: "osr_env \<times> osr_event \<Rightarrow> bool" where
  "keeps_db e \<equiv> snd e \<noteq> ODestroy"

lemma osr_step_advances:
  assumes inv: "mirror_inv s" and "keeps_db e"
  shows "advances cfg s (osr_seen cfg s e) (fst (osr_step cfg s e))"
proof -
  obtain en ev where e: "e = (en, ev)" by force
  have fr: "advances cfg s [] t" if "o_state t = o_state s" "o_store t = o_store s" "o_hlc t = o_hlc s" "o_room t = o_room s"
      "o_closed t = o_closed s" "mirror_inv s" for s t
    using that by (intro advances_still mirror_frame) simp_all
  have tm: "advances cfg s [] (fst (times n f s))"
    if "\<And>t. mirror_inv t \<Longrightarrow> advances cfg t [] (fst (f t))" for n f
    using plain_times_advances [OF inv that] by simp
  show ?thesis
  proof (cases ev)
    case (OSet c k v)
    then show ?thesis using os_write_advances [OF inv, of cfg en k v OpSet c] by (simp add: e os_set_def split: if_splits)
  next
    case (ODelete c k)
    then show ?thesis using os_write_advances [OF inv, of cfg en k Undef OpDelete c] by (simp add: e os_delete_def split: if_splits)
  next
    case (OnOsBroadcast f ns osr p)
    then show ?thesis using remote_times_advances [OF inv] advances_refl [OF inv] by (simp add: e)
  next
    case (OnOsRelay f room osr p)
    then show ?thesis using remote_times_advances [OF inv] advances_refl [OF inv] by (simp add: e)
  next
    case (OCreated err)
    then show ?thesis using inv by (auto simp: e os_created_def intro: fr split: option.split)
  next
    case OJoined
    let ?s = "s\<lparr>o_joins := o_joins s - 1\<rparr>"
    have a: "advances cfg s [] ?s" using inv by (intro fr) simp_all
    then have "mirror_inv ?s" by (simp add: advances_def mirror_step_def)
    from advances_trans [OF a os_online_advances [OF this]] OJoined advances_refl [OF inv] show ?thesis by (simp add: e)
  next
    case ORejoined
    let ?s = "s\<lparr>o_rejoins := o_rejoins s - 1\<rparr>"
    have a: "advances cfg s [] ?s" using inv by (intro fr) simp_all
    then have "mirror_inv ?s" by (simp add: advances_def mirror_step_def)
    from advances_trans [OF a flush_start_advances [OF this]] ORejoined advances_refl [OF inv] show ?thesis by (simp add: e)
  next
    case OFlushStep
    then show ?thesis using flush_step_advances [OF inv] by (simp add: e)
  next
    case (OnOsJoined fp ns)
    then show ?thesis by (auto simp: e os_onJoined_def intro!: tm fr split: sum.splits if_splits)
  next
    case (OnOsLeft fp ns)
    then show ?thesis by (auto simp: e os_onLeft_def intro!: tm fr split: if_splits)
  next
    case (OWindowOnline c)
    then show ?thesis using tm [OF os_online_advances] advances_refl [OF inv] by (simp add: e)
  next
    case OClose
    then show ?thesis using os_close_advances [OF inv] by (simp add: e)
  qed (use inv assms(2) in \<open>auto simp: e intro!: tm fr\<close>)
qed

section \<open>The machine of a room\<close>

interpretation osr_mirror: machine "osr_step cfg" mirror_inv keeps_db for cfg
  by unfold_locales (use osr_step_advances in \<open>auto simp: advances_def mirror_step_def\<close>)

interpretation osr_replica: lww_replica "osr_step cfg" "\<lambda>s. \<not> oc_merge_mode cfg \<and> mirror_inv s \<and> clock_inv s" keeps_db
    o_entries "osr_seen cfg" e_key e_hlc for cfg
  by unfold_locales (use osr_step_advances in \<open>auto simp: advances_def mirror_step_def\<close>)

section \<open>Starting on a database\<close>

definition started :: "osr_config \<Rightarrow> osr_env \<Rightarrow> nat \<Rightarrow> string \<Rightarrow> int \<Rightarrow> string \<Rightarrow> database \<Rightarrow> string + osr" where
  "started cfg en key me now room db =
     (case new_OfflineSyncRoom cfg me now room db of Inl x \<Rightarrow> Inl x | Inr s \<Rightarrow> Inr (fst (os_init cfg en key s)))"

lemma fold_map_set:
  "map_wf a \<Longrightarrow> map_wf (fold (\<lambda>e. map_set (f e) e) es a)"
  "map_of (fold (\<lambda>e. map_set (f e) e) es a) = map_of a ++ map_of (rev (map (\<lambda>e. (f e, e)) es))"
  by (induction es arbitrary: a) (simp_all add: map_add_upd_left map_add_assoc [symmetric])

lemma fold_load:
  assumes "db_wf m" "\<forall>(k, e)\<in>set m. f e = k"
  shows "map_of (fold (\<lambda>e. map_set (f e) e) (map snd m) []) = map_of m"
proof -
  have "map (\<lambda>e. (f e, e)) (map snd m) = m"
    using assms(2) by (auto intro!: map_idI simp: comp_def)
  moreover have "map_of (rev m) = map_of m"
    using assms(1) by (simp add: db_wf_def map_of_inject_set rev_map [symmetric])
  ultimately show ?thesis by (simp add: fold_map_set)
qed

lemma started_ok:
  assumes db: "database_ok db" and s: "started cfg en key me now room db = Inr s"
  shows "mirror_inv s" "o_db s = db" "os_open (o_store s)" "o_entries s = map_of (db_state db)"
    "o_node s = (if me = [] then ''local'' else me)" "\<not> o_closed s" "o_room s = room" "o_listens s = 1" "o_remoteKeys s = []"
    "\<not> o_syncing s" "o_flush s = None"
proof -
  have m: "db_wf (db_state db)" "\<forall>(k, e)\<in>set (db_state db). e_key e = k" using db by (simp_all add: database_ok_def)
  let ?m = "fold (\<lambda>e. map_set (e_key e) e) (map snd (db_state db)) []"
  have st: "o_state s = ?m \<and> o_store s = \<lparr>os_open = True, os_db = db\<rparr> \<and> o_node s = (if me = [] then ''local'' else me)
      \<and> \<not> o_closed s \<and> o_room s = room \<and> o_listens s = 1 \<and> o_remoteKeys s = [] \<and> \<not> o_syncing s \<and> o_flush s = None"
    using s by (auto simp: started_def new_OfflineSyncRoom_def os_init_def Let_def st_read_defs st_open_def new_OfflineStore_def
        split: if_splits option.splits)
  then show "o_db s = db" "os_open (o_store s)" "o_node s = (if me = [] then ''local'' else me)" "\<not> o_closed s" "o_room s = room"
    "o_listens s = 1" "o_remoteKeys s = []" "\<not> o_syncing s" "o_flush s = None" by simp_all
  from st show g: "o_entries s = map_of (db_state db)" by (simp add: fold_load [OF m])
  have "map_wf ?m" by (rule fold_map_set(1)) simp
  with st g db show "mirror_inv s" by (simp add: mirror_inv_def)
qed


definition demo_cfg :: osr_config where
  "demo_cfg = \<lparr>oc_encryption = False, oc_maxPending = 3, oc_batch = 2, oc_merge_mode = False, oc_merge = None\<rparr>"

definition demo_env :: "int \<Rightarrow> osr_env" where
  "demo_env c = \<lparr>en_clk = (\<lambda>i. c), en_iv = (\<lambda>i. []), en_opId = ''op1'', en_parse = (\<lambda>t. None), en_stringify = (\<lambda>v. []),
     en_crypto = toy_crypto\<rparr>"

definition demo_room :: "string \<Rightarrow> osr" where
  "demo_room me = (case started demo_cfg (demo_env 1) 0 me 1 ''r'' empty_database of Inr s \<Rightarrow> s)"

lemmas demo_defs = demo_cfg_def demo_env_def demo_room_def started_def new_OfflineSyncRoom_def os_init_def Let_def st_read_defs
  st_open_def new_OfflineStore_def empty_database_def

lemma demo_start: "started demo_cfg (demo_env 1) 0 me 1 ''r'' empty_database = Inr (demo_room me)" "database_ok empty_database"
  by (simp_all add: demo_defs database_ok_def db_wf_def)


section \<open>Convergence\<close>

lemma started_replica:
  assumes "started cfg en key me now room empty_database = Inr s" "\<not> oc_merge_mode cfg"
  shows "(\<not> oc_merge_mode cfg \<and> mirror_inv s \<and> clock_inv s) \<and> o_entries s = Map.empty"
  using started_ok [OF demo_start(2) assms(1)] assms(2) by (simp add: clock_inv_def empty_database_def)


definition op_event :: "string \<Rightarrow> hlc \<Rightarrow> js \<Rightarrow> osr_env \<times> osr_event" where
  "op_event who h v = (demo_env 9, OnOsBroadcast who ''r'' True (OpMsg False ''k'' (Some h) v None))"

lemmas demo_run_defs = demo_defs os_set_def os_write_def os_tick_def os_persist_def st_update_defs queueOperation_def
  local_entry_def os_value_def os_entry_ok_def applyRemoteEntry_def createHLC_def mergeHLC_def wire_entries_def op_wire_def
  List.map_filter_def newer_def compareHLC_def op_event_def

lemma demo_history:
  "history (osr_step demo_cfg) (osr_seen demo_cfg) (demo_room ''ann'')
     [(demo_env 5, OSet False ''k'' (JNum 1)), op_event ''bob'' (HLC 6 0 ''bob'') (JNum 2)]
   = [\<lparr>e_key = ''k'', e_val = JNum 1, e_hlc = HLC 5 0 ''ann'', e_from = ''ann'', e_version = 0, e_deleted = False\<rparr>,
      \<lparr>e_key = ''k'', e_val = JNum 2, e_hlc = HLC 6 0 ''bob'', e_from = ''bob'', e_version = 0, e_deleted = False\<rparr>]"
  "history (osr_step demo_cfg) (osr_seen demo_cfg) (demo_room ''bob'')
     [(demo_env 6, OSet False ''k'' (JNum 2)), op_event ''ann'' (HLC 5 0 ''ann'') (JNum 1)]
   = [\<lparr>e_key = ''k'', e_val = JNum 2, e_hlc = HLC 6 0 ''bob'', e_from = ''bob'', e_version = 0, e_deleted = False\<rparr>,
      \<lparr>e_key = ''k'', e_val = JNum 1, e_hlc = HLC 5 0 ''ann'', e_from = ''ann'', e_version = 0, e_deleted = False\<rparr>]"
  by (simp_all add: demo_run_defs)


section \<open>The queue\<close>

text \<open>What one operation of the queue makes the room send, and the turns a flush takes.\<close>

definition op_sent :: "offline_operation \<Rightarrow> osr_out" where
  "op_sent op = OBroadcast (OpMsg (op_type op = OpDelete) (op_key op) (Some (op_hlc op))
     (if op_type op = OpDelete then Undef else op_value op) None)"

lemma sendOperation_plain:
  "\<not> oc_encryption cfg \<or> o_remoteKeys s = [] \<Longrightarrow>
   sendOperation cfg en (op_type op) (op_key op) (op_value op) (op_hlc op) s = [op_sent op]"
  by (auto simp: sendOperation_def op_sent_def split: op_type.split)

abbreviation flush_turns :: "osr_env list \<Rightarrow> (osr_env \<times> osr_event) list" where
  "flush_turns ens \<equiv> map (\<lambda>en. (en, OFlushStep)) ens"

lemma flush_idle: "o_flush s = None \<Longrightarrow> run (osr_step cfg) s (flush_turns ens) = (s, [])"
  by (induction ens) (simp_all add: flush_step_def)

definition flushed :: "osr \<Rightarrow> offline_operation list \<Rightarrow> osr \<Rightarrow> bool" where
  "flushed s ops t = (o_flush t = None \<and> \<not> o_syncing t \<and> o_state t = o_state s
     \<and> db_pending (o_db t) = fold map_del (map op_id ops) (db_pending (o_db s)))"

lemma flush_run:
  assumes "o_flush s = Some bs" "os_open (o_store s)" "length (concat bs) + length bs < length ens"
    and "\<not> oc_encryption cfg \<or> o_remoteKeys s = []"
  shows "flushed s (concat bs) (run_state (osr_step cfg) s (flush_turns ens))
    \<and> snd (run (osr_step cfg) s (flush_turns ens)) = map op_sent (concat bs) @ [OEmit ''sync_complete'' []]"
  using assms
proof (induction "length (concat bs) + length bs" arbitrary: s bs ens rule: less_induct)
  case less
  then obtain en ens' where ens: "ens = en # ens'" by (cases ens) auto
  show ?case
  proof (cases bs)
    case Nil
    let ?t = "fst (flush_step cfg en s)"
    have "o_flush ?t = None" using Nil less.prems by (simp add: flush_step_def Let_def st_update_defs)
    from flush_idle [OF this, of cfg ens'] Nil less.prems show ?thesis
      by (simp add: ens split_def Let_def) (simp add: flush_step_def flushed_def Let_def st_update_defs)
  next
    case b: (Cons b bs')
    show ?thesis
    proof (cases b)
      case Nil
      let ?t = "s\<lparr>o_flush := Some bs'\<rparr>"
      have "flush_step cfg en s = (?t, [])" using b Nil less.prems by (simp add: flush_step_def)
      moreover have "flushed ?t (concat bs') (run_state (osr_step cfg) ?t (flush_turns ens'))
          \<and> snd (run (osr_step cfg) ?t (flush_turns ens')) = map op_sent (concat bs') @ [OEmit ''sync_complete'' []]"
        using less.prems b Nil by (intro less.hyps) (simp_all add: ens)
      ultimately show ?thesis using b Nil by (simp add: ens split_def Let_def flushed_def)
    next
      case (Cons op ops)
      let ?t = "s\<lparr>o_store := (o_store s)\<lparr>os_db := (o_db s)\<lparr>db_pending := map_del (op_id op) (db_pending (o_db s))\<rparr>\<rparr>,
        o_flush := Some (ops # bs')\<rparr>"
      have "flush_step cfg en s = (?t, [op_sent op])" using b Cons less.prems
        by (simp add: flush_step_def Let_def st_update_defs sendOperation_plain)
      moreover have "flushed ?t (concat (ops # bs')) (run_state (osr_step cfg) ?t (flush_turns ens'))
          \<and> snd (run (osr_step cfg) ?t (flush_turns ens')) = map op_sent (concat (ops # bs')) @ [OEmit ''sync_complete'' []]"
        using less.prems b Cons by (intro less.hyps) (simp_all add: ens)
      ultimately show ?thesis using b Cons by (simp add: ens split_def Let_def flushed_def)
    qed
  qed
qed

lemma length_slices_le: "length (slices n xs) \<le> length xs"
  by (induction n xs rule: slices.induct) (auto simp: length_drop)

lemma fold_del_all:
  assumes "db_wf m" "\<forall>(k, op)\<in>set m. op_id op = k" "set ops = snd ` set m"
  shows "fold map_del (map op_id ops) m = []"
proof -
  let ?r = "fold map_del (map op_id ops) m"
  have "map_of ?r = map_of m |` (- set (map op_id ops))" by (rule idb.get_fold_del [OF assms(1)])
  also have "set (map op_id ops) = fst ` set m" 
    unfolding set_map assms(3) image_image using assms(2) by (intro image_cong) auto
  also have "map_of m |` (- (fst ` set m)) = Map.empty" by (auto simp: restrict_map_def fun_eq_iff map_of_eq_None_iff)
  finally show ?thesis by (metis empty_iff ex_in_conv dom_empty dom_map_of_conv_image_fst image_is_empty set_empty)
qed

lemma run_bounded:
  assumes "mirror_inv s" "list_all keeps_db es" "length (db_pending (o_db s)) \<le> oc_maxPending cfg"
  shows "length (db_pending (o_db (run_state (osr_step cfg) s es))) \<le> oc_maxPending cfg"
  using assms
proof (induction es arbitrary: s)
  case (Cons e es)
  then have "mirror_step cfg s (fst (osr_step cfg s e))" using osr_step_advances [of s e cfg] by (simp add: advances_def)
  with Cons show ?case by (simp add: mirror_step_def del: run.simps(2))
qed simp

lemma flush_drains:
  assumes s: "mirror_inv s" "\<not> o_closed s" "\<not> o_syncing s"
    and cfg: "0 < oc_batch cfg" "\<not> oc_encryption cfg \<or> o_remoteKeys s = []"
    and ens: "2 * length (db_pending (o_db s)) < length ens"
    and r: "r = run (osr_step cfg) s ((en, OJoinExisting) # (en', OJoined) # flush_turns ens)"
  shows "db_pending (o_db (fst r)) = [] \<and> \<not> o_syncing (fst r) \<and> o_state (fst r) = o_state s
    \<and> snd r = [OJoinRoom, OEmit ''online'' [], OEmit ''sync_started'' []]
        @ map (\<lambda>b. OBroadcast (OsFull (map Wire b))) (slices (oc_batch cfg) (map_vals (o_state s)))
        @ map op_sent (sort_key op_ts (map snd (db_pending (o_db s)))) @ [OEmit ''sync_complete'' []]"
proof -
  let ?ops = "sort_key op_ts (map snd (db_pending (o_db s)))"
  let ?bs = "slices (oc_batch cfg) ?ops"
  let ?t = "s\<lparr>o_online := True, o_syncing := True, o_flush := Some ?bs\<rparr>"
  have op: "os_open (o_store s)" using s by (simp add: mirror_inv_def)
  have w: "db_wf (db_pending (o_db s))" "\<forall>(k, op)\<in>set (db_pending (o_db s)). op_id op = k"
    using s by (simp_all add: mirror_inv_def database_ok_def)
  have [simp]: "concat ?bs = ?ops" using cfg by (simp add: concat_slices)
  have st: "osr_step cfg (fst (osr_step cfg s (en, OJoinExisting))) (en', OJoined) = (?t,
      OEmit ''online'' [] # OEmit ''sync_started'' []
      # map (\<lambda>b. OBroadcast (OsFull (map Wire b))) (slices (oc_batch cfg) (map_vals (o_state s))))"
    using s cfg op by (simp add: os_online_def flush_start_def os_broadcastFullState_def st_read_defs slice_loop_slices Let_def)
  have "length (concat ?bs) + length ?bs < length ens" using ens length_slices_le [of "oc_batch cfg" ?ops] by simp
  from flush_run [of ?t ?bs ens cfg] this op cfg
  have f: "flushed ?t ?ops (run_state (osr_step cfg) ?t (flush_turns ens))"
      "snd (run (osr_step cfg) ?t (flush_turns ens)) = map op_sent ?ops @ [OEmit ''sync_complete'' []]" by simp_all
  have "fold map_del (map op_id ?ops) (db_pending (o_db s)) = []" by (rule fold_del_all [OF w]) simp
  moreover have "r = (fst (run (osr_step cfg) ?t (flush_turns ens)), [OJoinRoom] @ snd (osr_step cfg (fst (osr_step cfg s (en, OJoinExisting))) (en', OJoined))
      @ snd (run (osr_step cfg) ?t (flush_turns ens)))"
    unfolding r run.simps(2) Let_def split_def st by (simp only: osr_step.simps fst_conv snd_conv append_Cons append_Nil)
  ultimately show ?thesis using f unfolding st by (simp add: flushed_def)
qed


lemma demo_offline_write:
  "run_state (osr_step demo_cfg) (demo_room me) [(demo_env 5, OSet False ''k'' (JNum 1))] = t
   \<Longrightarrow> \<not> o_closed t \<and> \<not> o_syncing t
     \<and> db_pending (o_db t) = [(''op1'', \<lparr>op_id = ''op1'', op_type = OpSet, op_key = ''k'', op_value = JNum 1,
         op_hlc = HLC 5 0 (if me = [] then ''local'' else me), op_ts = 5\<rparr>)]"
  by (auto simp: demo_run_defs)


section \<open>Rooms made before the client is registered\<close>

lemma run_node:
  "mirror_inv s \<Longrightarrow> list_all keeps_db es \<Longrightarrow> o_node (run_state (osr_step cfg) s es) = o_node s"
proof (induction es arbitrary: s)
  case (Cons e es)
  then have "mirror_step cfg s (fst (osr_step cfg s e))" using osr_step_advances [of s e cfg] by (simp add: advances_def)
  with Cons show ?case by (simp add: mirror_step_def del: run.simps(2))
qed simp

text \<open>The write of a room whose clock is behind the wall clock is stamped with that time and stays.\<close>

lemma unregistered_write_stays:
  assumes s0: "started cfg en key [] now room empty_database = Inr s0" and cfg: "\<not> oc_merge_mode cfg"
    and s: "s = run_state (osr_step cfg) s0 es" "list_all keeps_db es" "\<not> o_closed s" "hlc_ts (o_hlc s) < c" "en_clk en' 0 = c"
    and t: "t = fst (osr_step cfg s (en', OSet conn k v))" "list_all keeps_db fs"
    and fs: "\<forall>e\<in>set (history (osr_step cfg) (osr_seen cfg) t fs). e_key e = k \<longrightarrow> e_hlc e \<le> HLC c 0 ''local''"
  shows "os_get (run_state (osr_step cfg) t fs) k = v"
proof -
  note i0 = started_replica [OF s0 cfg]
  note i = osr_replica.run_inv [of cfg, OF conjunct1 [OF i0] s(2), folded s(1)]
  have "o_node s = ''local''" unfolding s(1) run_node [OF started_ok(1) [OF demo_start(2) s0] s(2)]
    using started_ok(5) [OF demo_start(2) s0] by simp
  then have h: "createHLC c (o_node s) (Some (o_hlc s)) = HLC c 0 ''local''" using s(4) by (simp add: createHLC_def Let_def)
  have seen: "osr_seen cfg s (en', OSet conn k v) = [local_entry ''local'' (HLC c 0 ''local'') k v False]"
    using s(3,5) h \<open>o_node s = ''local''\<close> by simp
  have a: "advances cfg s [local_entry ''local'' (HLC c 0 ''local'') k v False] t"
    unfolding t(1) seen [symmetric] using i by (intro osr_step_advances) simp_all
  then have it: "\<not> oc_merge_mode cfg \<and> mirror_inv t \<and> clock_inv t" using i by (simp add: advances_def mirror_step_def)
  have "o_hlc s < HLC c 0 ''local''" using createHLC_gt [of "o_hlc s" c "o_node s"] h by simp
  then have "o_entries t k = Some (local_entry ''local'' (HLC c 0 ''local'') k v False)"
    using a i cfg lww_latest [of s "local_entry ''local'' (HLC c 0 ''local'') k v False"] by (simp add: advances_def)
  from osr_replica.entry_stays [of cfg, OF it t(2) this] fs show ?thesis by (simp add: os_get_def)
qed

text \<open>
  Two rooms made before their clients have a fingerprint share the node name \<open>local\<close>, and their
  stamps can be equal: when both write a key in the same millisecond, each keeps its own value for as
  long as neither sees a later write to the key, whatever messages they exchange and however often.
\<close>

theorem unregistered_rooms_diverge:
  assumes "\<not> oc_merge_mode cfg"
    and "started cfg en1 key1 [] now1 room empty_database = Inr a0" "started cfg en2 key2 [] now2 room empty_database = Inr b0"
    and "a = run_state (osr_step cfg) a0 es1" "list_all keeps_db es1" "\<not> o_closed a" "hlc_ts (o_hlc a) < c" "en_clk en3 0 = c"
    and "b = run_state (osr_step cfg) b0 es2" "list_all keeps_db es2" "\<not> o_closed b" "hlc_ts (o_hlc b) < c" "en_clk en4 0 = c"
    and "a1 = fst (osr_step cfg a (en3, OSet conn1 k va))" "list_all keeps_db fs1"
    and "b1 = fst (osr_step cfg b (en4, OSet conn2 k vb))" "list_all keeps_db fs2"
    and "\<forall>e\<in>set (history (osr_step cfg) (osr_seen cfg) a1 fs1) \<union> set (history (osr_step cfg) (osr_seen cfg) b1 fs2).
        e_key e = k \<longrightarrow> e_hlc e \<le> HLC c 0 ''local''"
  shows "os_get (run_state (osr_step cfg) a1 fs1) k = va \<and> os_get (run_state (osr_step cfg) b1 fs2) k = vb"
  using unregistered_write_stays [OF assms(2,1,4-8,14,15)] unregistered_write_stays [OF assms(3,1,9-13,16,17)] assms(18)
  by blast

theorem unregistered_rooms_diverge_witness:
  "os_get (run_state (osr_step demo_cfg) (fst (osr_step demo_cfg (demo_room []) (demo_env 5, OSet True ''k'' (JNum 1))))
      [op_event ''bob'' (HLC 5 0 ''local'') (JNum 2)]) ''k'' = JNum 1
   \<and> os_get (run_state (osr_step demo_cfg) (fst (osr_step demo_cfg (demo_room []) (demo_env 5, OSet True ''k'' (JNum 2))))
      [op_event ''ann'' (HLC 5 0 ''local'') (JNum 1)]) ''k'' = JNum 2"
proof -
  have m: "\<not> oc_merge_mode demo_cfg" and c: "en_clk (demo_env 5) 0 = 5" by (simp_all add: demo_cfg_def demo_env_def)
  have r: "demo_room [] = run_state (osr_step demo_cfg) (demo_room []) []" "\<not> o_closed (demo_room [])" "hlc_ts (o_hlc (demo_room [])) < 5"
    by (simp_all add: demo_defs)
  have h: "\<forall>e\<in>set (history (osr_step demo_cfg) (osr_seen demo_cfg)
      (fst (osr_step demo_cfg (demo_room []) (demo_env 5, OSet True ''k'' v))) [op_event who (HLC 5 0 ''local'') v']).
      e_key e = ''k'' \<longrightarrow> e_hlc e \<le> HLC 5 0 ''local''" for v who v'
    by (simp add: demo_run_defs)
  have k: "list_all keeps_db [op_event who x v]" and n: "list_all keeps_db []" for who x v by (simp_all add: op_event_def)
  show ?thesis
    by (rule unregistered_rooms_diverge [OF m demo_start(1) demo_start(1) r(1) n r(2,3) c r(1) n r(2,3) c refl k refl k])
      (use h in blast)
qed

end
