(* ===== verification/E2E_Room.thy ===== *)
theory E2E_Room
  imports Crypto
begin

text \<open>
  The class \<open>E2EDirectRoom\<close> of packages/peer-client/src/e2e.room.ts.  An \<open>await\<close> ends the turn: what
  the method still has to do is a job, and the end of the awaited operation is an event of its own, so
  that other calls and messages can come between.  The operations of the room underneath are outputs
  and its emissions are events; \<open>DirectRoom.send\<close> does not throw.  The client's fingerprint, fresh keys
  and initialisation vectors are given with the event.
\<close>

section \<open>State\<close>

datatype er_status = ErConnecting | ErExchanging | ErReady | ErClosed

datatype er_job =
    EGenerating bool                     \<comment> \<open>in \<open>E2E.init\<close>; called by \<open>create\<close>\<close>
  | EExporting bool nat
  | EInited bool
  | EImporting bool string bytes         \<comment> \<open>in \<open>E2E.deriveKey\<close>; for an offer, from whom\<close>
  | EDeriving bool string bytes
  | EDecrypting string js "string + string"
  | EEncrypting js "string + string"

record e2er =
  er_room :: bool                        \<comment> \<open>\<open>room\<close> is not \<open>null\<close>\<close>
  er_e2e :: e2e
  er_remote :: string
  er_status :: er_status
  er_closed :: bool
  er_timer :: bool                       \<comment> \<open>the timer is running\<close>
  er_listens :: nat
  er_jobs :: "(nat \<times> er_job) list"
  er_next :: nat

datatype er_out =
    ErEmit string "js list"
  | ErSend js
  | ErCreateRoom
  | ErJoinRoom
  | ErCloseRoom
  | ErReject string                      \<comment> \<open>the promise of \<open>create\<close> or \<open>join\<close> is rejected\<close>

definition new_E2EDirectRoom :: "e2e option \<Rightarrow> e2er" where
  "new_E2EDirectRoom e = \<lparr>er_room = False, er_e2e = (case e of Some x \<Rightarrow> x | None \<Rightarrow> new_E2E), er_remote = [],
     er_status = ErConnecting, er_closed = False, er_timer = False, er_listens = 0, er_jobs = [], er_next = 0\<rparr>"

definition er_spawn :: "er_job \<Rightarrow> e2er \<Rightarrow> e2er" where
  "er_spawn j s = s\<lparr>er_jobs := er_jobs s @ [(er_next s, j)], er_next := Suc (er_next s)\<rparr>"

section \<open>Operations\<close>

fun er_name :: "er_status \<Rightarrow> string" where
  "er_name ErConnecting = ''connecting''"
| "er_name ErExchanging = ''exchanging''"
| "er_name ErReady = ''ready''"
| "er_name ErClosed = ''closed''"

definition er_setState :: "er_status \<Rightarrow> e2er \<Rightarrow> e2er \<times> er_out list" where
  "er_setState st s =
     (if er_status s = st then (s, []) else (s\<lparr>er_status := st\<rparr>, [ErEmit ''state_changed'' [JStr (er_name st)]]))"

definition hasEncryption :: "e2er \<Rightarrow> bool" where
  "hasEncryption s = (er_status s = ErReady \<and> hasKey (er_remote s) (er_e2e s))"

text \<open>\<open>create\<close> and \<open>join\<close> up to \<open>initE2E\<close>.\<close>

definition er_begin :: "bool \<Rightarrow> e2er \<Rightarrow> e2er \<times> er_out list" where
  "er_begin create s =
     (if er_closed s then (s, [ErReject ''Room is closed''])
      else (er_spawn (if isInitialized (er_e2e s) then EInited create else EGenerating create) s, []))"

definition exchange_message :: "string \<Rightarrow> string \<Rightarrow> string \<Rightarrow> js" where
  "exchange_message ty pub me =
     JObj [(''_e2e_exchange'', JBool True), (''type'', JStr ty), (''publicKey'', JStr pub), (''fingerprint'', JStr me)]"

definition plain_message :: "js \<Rightarrow> js" where
  "plain_message d = JObj [(''_plain'', JBool True), (''data'', d)]"

definition encrypted_message :: "string \<Rightarrow> js" where
  "encrypted_message c = JObj [(''_encrypted'', JBool True), (''data'', JStr c)]"

definition er_send :: "webcrypto \<Rightarrow> (js \<Rightarrow> string) \<Rightarrow> bytes \<Rightarrow> js \<Rightarrow> e2er \<Rightarrow> e2er \<times> er_out list" where
  "er_send w stringify iv d s =
     (if er_closed s \<or> \<not> er_room s then (s, [])
      else if hasEncryption s then (er_spawn (EEncrypting d (encrypt w iv (er_remote s) (stringify d) (er_e2e s))) s, [])
      else (s, [ErSend (plain_message d)]))"

definition er_close :: "e2er \<Rightarrow> e2er \<times> er_out list" where
  "er_close s =
     (if er_closed s then (s, [])
      else
        (let (s1, o1) = er_setState ErClosed (s\<lparr>er_closed := True\<rparr>)
         in (s1\<lparr>er_timer := False, er_listens := 0, er_room := False\<rparr>,
             o1 @ (if er_room s then [ErCloseRoom] else []) @ [ErEmit ''closed'' []])))"

definition startKeyExchange :: "string \<Rightarrow> e2er \<Rightarrow> e2er \<times> er_out list" where
  "startKeyExchange me s =
     (if er_closed s then (s, [])
      else
        (let (s1, o1) = er_setState ErExchanging s; s2 = s1\<lparr>er_timer := True\<rparr> in
         case getPublicKeyB64 (er_e2e s2) of
           Inl x \<Rightarrow> (s2\<lparr>er_timer := False\<rparr>, o1 @ [ErEmit ''error'' [JStr x]])
         | Inr pub \<Rightarrow>
             if er_room s2 then (s2, o1 @ [ErSend (exchange_message ''key_offer'' pub me)])
             else (s2\<lparr>er_timer := False\<rparr>, o1 @ [ErEmit ''error'' [JStr ''TypeError'']])))"

definition er_timeout :: "e2er \<Rightarrow> e2er \<times> er_out list" where
  "er_timeout s =
     (if \<not> er_timer s then (s, [])
      else if er_status s = ErExchanging
      then (let (s1, o1) = er_setState ErConnecting (s\<lparr>er_timer := False\<rparr>) in (s1, ErEmit ''error'' [JStr ''Key exchange timeout''] # o1))
      else (s\<lparr>er_timer := False\<rparr>, []))"

text \<open>\<open>handleKeyExchange\<close> up to the first \<open>await\<close> of \<open>deriveKey\<close>.\<close>

definition er_handleKeyExchange :: "js \<Rightarrow> string \<Rightarrow> e2er \<Rightarrow> e2er \<times> er_out list" where
  "er_handleKeyExchange payload from s =
     (let ty = prop_opt payload ''type'' in
      if er_closed s \<or> ty \<notin> {JStr ''key_offer'', JStr ''key_ack''} then (s, [])
      else case prop_opt payload ''publicKey'' of
        JStr b64 \<Rightarrow>
          (case derive_start b64 (er_e2e s) of
             Inl x \<Rightarrow> (s, [ErEmit ''error'' [JStr x]])
           | Inr raw \<Rightarrow> (er_spawn (EImporting (ty = JStr ''key_offer'') from raw) s, []))
      | _ \<Rightarrow> (s, [ErEmit ''error'' [JStr ''TypeError'']]))"

text \<open>A value that is not a string does not decrypt.\<close>

definition er_decrypt :: "webcrypto \<Rightarrow> string \<Rightarrow> js \<Rightarrow> e2e \<Rightarrow> string + string" where
  "er_decrypt w from d e = (case d of JStr c \<Rightarrow> decrypt w from c e | _ \<Rightarrow> Inl ''InvalidCharacterError'')"

definition handleData :: "webcrypto \<Rightarrow> js \<Rightarrow> string \<Rightarrow> e2er \<Rightarrow> e2er \<times> er_out list" where
  "handleData w raw from s =
     (if truthy (prop_opt raw ''_e2e_exchange'') then er_handleKeyExchange raw from s
      else if truthy (prop_opt raw ''_encrypted'') \<and> hasKey from (er_e2e s)
      then (er_spawn (EDecrypting from raw (er_decrypt w from (prop_opt raw ''data'') (er_e2e s))) s, [])
      else if truthy (prop_opt raw ''_plain'') then (s, [ErEmit ''data'' [prop_opt raw ''data'', JStr from]])
      else (s, [ErEmit ''data'' [raw, JStr from]]))"

section \<open>After an await\<close>

definition er_finish :: "string \<Rightarrow> e2er \<Rightarrow> e2er \<times> er_out list" where
  "er_finish from s =
     (let (s1, o1) = er_setState ErReady (s\<lparr>er_timer := False, er_remote := from\<rparr>) in (s1, o1 @ [ErEmit ''ready'' [JStr from]]))"

definition er_derived :: "string \<Rightarrow> bool \<Rightarrow> string \<Rightarrow> bytes \<Rightarrow> e2er \<Rightarrow> e2er \<times> er_out list" where
  "er_derived me offer from bits s =
     (let s1 = s\<lparr>er_e2e := derive_done from bits (er_e2e s)\<rparr> in
      if \<not> offer then er_finish from s1
      else case getPublicKeyB64 (er_e2e s1) of
        Inl x \<Rightarrow> (s1, [ErEmit ''error'' [JStr x]])
      | Inr pub \<Rightarrow>
          if er_room s1 then (let (s2, o2) = er_finish from s1 in (s2, ErSend (exchange_message ''key_ack'' pub me) # o2))
          else (s1, [ErEmit ''error'' [JStr ''TypeError'']]))"

definition er_decrypted :: "(string \<Rightarrow> js option) \<Rightarrow> string \<Rightarrow> string \<Rightarrow> js \<Rightarrow> string + string \<Rightarrow> e2er \<Rightarrow> e2er \<times> er_out list" where
  "er_decrypted parse me from raw r s =
     (case (case r of Inl x \<Rightarrow> None | Inr t \<Rightarrow> parse t) of
        Some v \<Rightarrow> (s, [ErEmit ''data'' [v, JStr from]])
      | None \<Rightarrow> (let (s1, o1) = startKeyExchange me s in (s1, ErEmit ''decrypt_error'' [JStr from, raw] # o1)))"

text \<open>The end of \<open>encryptAndSend\<close>; without a room its second attempt fails too, which \<open>send\<close> reports.\<close>

definition encryptAndSend :: "js \<Rightarrow> string + string \<Rightarrow> e2er \<Rightarrow> er_out list" where
  "encryptAndSend d r s =
     (case r of
        Inr c \<Rightarrow> if er_room s then [ErSend (encrypted_message c)]
                else [ErEmit ''error'' [JStr ''TypeError''], ErEmit ''error'' [JStr ''TypeError'']]
      | Inl x \<Rightarrow> ErEmit ''error'' [JStr x] # (if er_room s then [ErSend (plain_message d)] else [ErEmit ''error'' [JStr ''TypeError'']]))"

text \<open>The awaited operation of a job ends; \<open>newKey\<close> is the pair \<open>generateKey\<close> returns.\<close>

fun er_continue :: "webcrypto \<Rightarrow> (string \<Rightarrow> js option) \<Rightarrow> string \<Rightarrow> nat \<Rightarrow> er_job \<Rightarrow> e2er \<Rightarrow> e2er \<times> er_out list" where
  "er_continue w parse me newKey (EGenerating c) s =
     (er_spawn (EExporting c newKey) (s\<lparr>er_e2e := e2e_init_keys newKey (er_e2e s)\<rparr>), [])"
| "er_continue w parse me newKey (EExporting c k) s =
     (er_spawn (EInited c) (s\<lparr>er_e2e := e2e_init_done (wc_pub w k) (er_e2e s)\<rparr>), [])"
| "er_continue w parse me newKey (EInited c) s =
     (s\<lparr>er_room := True, er_listens := Suc (er_listens s)\<rparr>, [if c then ErCreateRoom else ErJoinRoom])"
| "er_continue w parse me newKey (EImporting offer from raw) s =
     (case derive_bits w raw (er_e2e s) of
        Inl x \<Rightarrow> (s, [ErEmit ''error'' [JStr x]])
      | Inr bits \<Rightarrow> (er_spawn (EDeriving offer from bits) s, []))"
| "er_continue w parse me newKey (EDeriving offer from bits) s = er_derived me offer from bits s"
| "er_continue w parse me newKey (EDecrypting from raw r) s = er_decrypted parse me from raw r s"
| "er_continue w parse me newKey (EEncrypting d r) s = (s, encryptAndSend d r s)"

definition er_resume :: "webcrypto \<Rightarrow> (string \<Rightarrow> js option) \<Rightarrow> string \<Rightarrow> nat \<Rightarrow> nat \<Rightarrow> e2er \<Rightarrow> e2er \<times> er_out list" where
  "er_resume w parse me newKey i s =
     (case map_get (er_jobs s) i of
        None \<Rightarrow> (s, [])
      | Some j \<Rightarrow> er_continue w parse me newKey j (s\<lparr>er_jobs := map_del i (er_jobs s)\<rparr>))"

section \<open>The machine\<close>

datatype er_event =
    ErBegin bool
  | ErResume string nat nat              \<comment> \<open>own fingerprint, new key, job\<close>
  | ErSendCall bytes js
  | ErClose
  | ErTimeout
  | OnErData js string                   \<comment> \<open>emissions of the room\<close>
  | OnErJoined string
  | OnErConnected string string          \<comment> \<open>own fingerprint, the peer's\<close>
  | OnErLeft string
  | OnErClosed
  | OnErError string

definition er_onLeft :: "string \<Rightarrow> e2er \<Rightarrow> e2er \<times> er_out list" where
  "er_onLeft fp s =
     (let (s1, o1) =
        (if fp = er_remote s then
           (let t = s\<lparr>er_e2e := removeKey fp (er_e2e s), er_remote := []\<rparr>
            in if er_status s \<noteq> ErClosed then er_setState ErConnecting t else (t, []))
         else (s, []))
      in (s1, o1 @ [ErEmit ''peer_left'' [JStr fp]]))"

text \<open>Each room the object made has the listeners attached once; none runs after \<open>close\<close>.\<close>

fun er_step :: "webcrypto \<Rightarrow> (js \<Rightarrow> string) \<Rightarrow> (string \<Rightarrow> js option) \<Rightarrow> e2er \<Rightarrow> er_event \<Rightarrow> e2er \<times> er_out list" where
  "er_step w stringify parse s (ErBegin c) = er_begin c s"
| "er_step w stringify parse s (ErResume me newKey i) = er_resume w parse me newKey i s"
| "er_step w stringify parse s (ErSendCall iv d) = er_send w stringify iv d s"
| "er_step w stringify parse s ErClose = er_close s"
| "er_step w stringify parse s ErTimeout = er_timeout s"
| "er_step w stringify parse s (OnErData raw from) = (if er_listens s = 0 then (s, []) else handleData w raw from s)"
| "er_step w stringify parse s (OnErJoined fp) =
     (if er_listens s = 0 then (s, []) else (s\<lparr>er_remote := fp\<rparr>, [ErEmit ''peer_joined'' [JStr fp]]))"
| "er_step w stringify parse s (OnErConnected me fp) =
     (if er_listens s = 0 then (s, []) else startKeyExchange me (s\<lparr>er_remote := fp\<rparr>))"
| "er_step w stringify parse s (OnErLeft fp) = (if er_listens s = 0 then (s, []) else er_onLeft fp s)"
| "er_step w stringify parse s OnErClosed = (if er_listens s = 0 then (s, []) else er_close s)"
| "er_step w stringify parse s (OnErError x) = (if er_listens s = 0 then (s, []) else (s, [ErEmit ''error'' [JStr x]]))"

end
