(* ===== verification/E2E_Props.thy ===== *)
theory E2E_Props
  imports E2E_Room Crypto_Props
begin

text \<open>
  The properties of \<open>E2EDirectRoom\<close>: two rooms over an honest network, whatever is lost, repeated,
  reordered or interleaved, agree on their key and understand each other's messages; and one message that
  does not decrypt makes a room send in the clear.
\<close>

section \<open>One end of a conversation\<close>

text \<open>
  The laws an end lives under: its own key pair \<open>k\<close>, the other end's name \<open>fo\<close> and key pair \<open>ko\<close>,
  the secret they share, and what has been sent by either side so far, each value marked with whether
  the room had encryption when \<open>send\<close> was called.
\<close>

definition sealed :: "webcrypto \<Rightarrow> bytes \<Rightarrow> string \<Rightarrow> string \<Rightarrow> bool" where
  "sealed w secret t c = (\<forall>fp e. map_get (e_keys e) fp = Some secret \<longrightarrow> decrypt w fp c e = Inr t)"

lemma encrypt_sealed:
  assumes "webcrypto_ok w" "length iv = 12" "map_get (e_keys e) fp = Some secret"
  shows "\<exists>c. encrypt w iv fp t e = Inr c \<and> sealed w secret t c"
  using assms by (auto simp: encrypt_def decrypt_def sealed_def arrayToBase64_btoa base64ToArray_btoa webcrypto_ok_def)

definition wire_ok :: "webcrypto \<Rightarrow> (js \<Rightarrow> string) \<Rightarrow> nat \<Rightarrow> bytes \<Rightarrow> (bool \<times> js) set \<Rightarrow> js \<Rightarrow> bool" where
  "wire_ok w stringify k secret sent m \<longleftrightarrow>
     (\<exists>ty me. ty \<in> {''key_offer'', ''key_ack''} \<and> m = exchange_message ty (btoa (wc_pub w k)) me)
     \<or> (\<exists>d. m = plain_message d \<and> (False, d) \<in> sent)
     \<or> (\<exists>c d. m = encrypted_message c \<and> (True, d) \<in> sent \<and> sealed w secret (stringify d) c)"

fun job_ok :: "webcrypto \<Rightarrow> (js \<Rightarrow> string) \<Rightarrow> string \<Rightarrow> nat \<Rightarrow> bytes \<Rightarrow> (bool \<times> js) set \<Rightarrow> (bool \<times> js) set \<Rightarrow> er_job \<Rightarrow> bool" where
  "job_ok w stringify fo ko secret mine theirs (EInited c) = True"
| "job_ok w stringify fo ko secret mine theirs (EImporting offer from raw) = (from = fo \<and> raw = wc_pub w ko)"
| "job_ok w stringify fo ko secret mine theirs (EDeriving offer from bits) = (from = fo \<and> bits = secret)"
| "job_ok w stringify fo ko secret mine theirs (EDecrypting from raw r) = (from = fo \<and> (\<exists>d. (True, d) \<in> theirs \<and> r = Inr (stringify d)))"
| "job_ok w stringify fo ko secret mine theirs (EEncrypting d r) =
     ((True, d) \<in> mine \<and> (\<exists>c. r = Inr c \<and> sealed w secret (stringify d) c))"
| "job_ok w stringify fo ko secret mine theirs _ = False"

definition side_ok ::
  "webcrypto \<Rightarrow> (js \<Rightarrow> string) \<Rightarrow> nat \<Rightarrow> string \<Rightarrow> nat \<Rightarrow> bytes \<Rightarrow> (bool \<times> js) set \<Rightarrow> (bool \<times> js) set \<Rightarrow> e2er \<Rightarrow> bool" where
  "side_ok w stringify k fo ko secret mine theirs s =
     (e_priv (er_e2e s) = Some k \<and> e_pub (er_e2e s) = Some (wc_pub w k)
      \<and> (\<forall>fp key. map_get (e_keys (er_e2e s)) fp = Some key \<longrightarrow> fp = fo \<and> key = secret)
      \<and> (\<forall>(i, j)\<in>set (er_jobs s). job_ok w stringify fo ko secret mine theirs j))"

fun out_ok :: "webcrypto \<Rightarrow> (js \<Rightarrow> string) \<Rightarrow> nat \<Rightarrow> string \<Rightarrow> bytes \<Rightarrow> (bool \<times> js) set \<Rightarrow> (bool \<times> js) set \<Rightarrow> er_out \<Rightarrow> bool" where
  "out_ok w stringify k fo secret mine theirs (ErSend m) = wire_ok w stringify k secret mine m"
| "out_ok w stringify k fo secret mine theirs (ErEmit n args) =
     (n \<noteq> ''decrypt_error'' \<and> (n = ''data'' \<longrightarrow> (\<exists>v. args = [v, JStr fo] \<and> ((\<exists>x. (x, v) \<in> theirs) \<or> (\<exists>c. v = encrypted_message c)))))"
| "out_ok w stringify k fo secret mine theirs _ = True"

lemma job_ok_mono:
  "job_ok w stringify fo ko secret mine theirs j \<Longrightarrow> mine \<subseteq> mine' \<Longrightarrow> theirs \<subseteq> theirs' \<Longrightarrow> job_ok w stringify fo ko secret mine' theirs' j"
  by (cases j) auto

lemma wire_ok_mono: "wire_ok w stringify k secret sent m \<Longrightarrow> sent \<subseteq> sent' \<Longrightarrow> wire_ok w stringify k secret sent' m"
  unfolding wire_ok_def by blast

lemma out_ok_mono:
  "out_ok w stringify k fo secret mine theirs x \<Longrightarrow> mine \<subseteq> mine' \<Longrightarrow> theirs \<subseteq> theirs' \<Longrightarrow> out_ok w stringify k fo secret mine' theirs' x"
  by (cases x) (auto intro: wire_ok_mono)

lemma side_ok_mono:
  "side_ok w stringify k fo ko secret mine theirs s \<Longrightarrow> mine \<subseteq> mine' \<Longrightarrow> theirs \<subseteq> theirs' \<Longrightarrow> side_ok w stringify k fo ko secret mine' theirs' s"
  unfolding side_ok_def by (auto intro: job_ok_mono)

text \<open>What an operation keeps and what it may send or report.\<close>

definition good ::
  "webcrypto \<Rightarrow> (js \<Rightarrow> string) \<Rightarrow> nat \<Rightarrow> string \<Rightarrow> nat \<Rightarrow> bytes \<Rightarrow> (bool \<times> js) set \<Rightarrow> (bool \<times> js) set \<Rightarrow> e2er \<times> er_out list \<Rightarrow> bool" where
  "good w stringify k fo ko secret mine theirs r \<longleftrightarrow>
     side_ok w stringify k fo ko secret mine theirs (fst r) \<and> (\<forall>x\<in>set (snd r). out_ok w stringify k fo secret mine theirs x)"

lemma side_ok_frame:
  "side_ok w stringify k fo ko secret mine theirs s \<Longrightarrow> er_e2e t = er_e2e s \<Longrightarrow> set (er_jobs t) \<subseteq> set (er_jobs s)
   \<Longrightarrow> side_ok w stringify k fo ko secret mine theirs t"
  unfolding side_ok_def by auto

lemma side_ok_spawn:
  "side_ok w stringify k fo ko secret mine theirs s \<Longrightarrow> job_ok w stringify fo ko secret mine theirs j
   \<Longrightarrow> side_ok w stringify k fo ko secret mine theirs (er_spawn j s)"
  unfolding side_ok_def er_spawn_def by auto

lemma side_ok_remove:
  "side_ok w stringify k fo ko secret mine theirs s \<Longrightarrow>
   side_ok w stringify k fo ko secret mine theirs (s\<lparr>er_e2e := removeKey fp (er_e2e s), er_remote := r\<rparr>)"
  unfolding side_ok_def removeKey_def by (auto split: if_splits)

lemma side_ok_derived:
  "side_ok w stringify k fo ko secret mine theirs s \<Longrightarrow>
   side_ok w stringify k fo ko secret mine theirs (s\<lparr>er_e2e := derive_done fo secret (er_e2e s)\<rparr>)"
  unfolding side_ok_def derive_done_def by (auto split: if_splits)


lemma goodI:
  "side_ok w stringify k fo ko secret mine theirs t \<Longrightarrow> \<forall>x\<in>set out. out_ok w stringify k fo secret mine theirs x
   \<Longrightarrow> good w stringify k fo ko secret mine theirs (t, out)"
  by (simp add: good_def)

lemma good_setState:
  assumes "side_ok w stringify k fo ko secret mine theirs s"
  shows "good w stringify k fo ko secret mine theirs (er_setState st s)"
  using side_ok_frame [OF assms] assms by (auto simp: er_setState_def intro!: goodI)

lemma good_append:
  "good w stringify k fo ko secret mine theirs (s, o1) \<Longrightarrow> er_e2e t = er_e2e s \<Longrightarrow> er_jobs t = er_jobs s
   \<Longrightarrow> \<forall>x\<in>set o2. out_ok w stringify k fo secret mine theirs x \<Longrightarrow> good w stringify k fo ko secret mine theirs (t, o1 @ o2)"
  by (auto simp: good_def intro: side_ok_frame)

lemma good_start:
  assumes s: "side_ok w stringify k fo ko secret mine theirs s"
  shows "good w stringify k fo ko secret mine theirs (startKeyExchange me s)"
proof (cases "er_closed s")
  case False
  obtain s1 o1 where st: "er_setState ErExchanging s = (s1, o1)" by force
  have g: "good w stringify k fo ko secret mine theirs (s1, o1)" using good_setState [OF s] st by metis
  then have "getPublicKeyB64 (er_e2e s1) = Inr (btoa (wc_pub w k))" by (simp add: good_def side_ok_def getPublicKeyB64_def)
  moreover have "wire_ok w stringify k secret mine (exchange_message ''key_offer'' (btoa (wc_pub w k)) me)" by (auto simp: wire_ok_def)
  ultimately show ?thesis using False by (auto simp: startKeyExchange_def st Let_def intro!: good_append [OF g])
qed (use s in \<open>simp add: startKeyExchange_def good_def\<close>)

lemma good_finish:
  assumes "side_ok w stringify k fo ko secret mine theirs s"
  shows "good w stringify k fo ko secret mine theirs (er_finish fp s)"
proof -
  obtain s1 o1 where st: "er_setState ErReady (s\<lparr>er_timer := False, er_remote := fp\<rparr>) = (s1, o1)" by force
  have "side_ok w stringify k fo ko secret mine theirs (s\<lparr>er_timer := False, er_remote := fp\<rparr>)"
    by (rule side_ok_frame [OF assms]) simp_all
  from good_setState [OF this, of ErReady] st show ?thesis by (auto simp: er_finish_def intro: good_append)
qed

lemma good_close:
  assumes "side_ok w stringify k fo ko secret mine theirs s"
  shows "good w stringify k fo ko secret mine theirs (er_close s)"
proof (cases "er_closed s")
  case False
  obtain s1 o1 where st: "er_setState ErClosed (s\<lparr>er_closed := True\<rparr>) = (s1, o1)" by force
  have "side_ok w stringify k fo ko secret mine theirs (s\<lparr>er_closed := True\<rparr>)" by (rule side_ok_frame [OF assms]) simp_all
  from good_setState [OF this, of ErClosed] st False show ?thesis by (auto simp: er_close_def intro!: good_append)
qed (use assms in \<open>simp add: er_close_def good_def\<close>)

lemma good_timeout:
  assumes "side_ok w stringify k fo ko secret mine theirs s"
  shows "good w stringify k fo ko secret mine theirs (er_timeout s)"
proof -
  have t: "side_ok w stringify k fo ko secret mine theirs (s\<lparr>er_timer := False\<rparr>)" by (rule side_ok_frame [OF assms]) simp_all
  from good_setState [OF this, of ErConnecting] assms t show ?thesis by (auto simp: er_timeout_def split_def Let_def good_def)
qed

lemma good_onLeft:
  assumes "side_ok w stringify k fo ko secret mine theirs s"
  shows "good w stringify k fo ko secret mine theirs (er_onLeft fp s)"
  using assms side_ok_remove [OF assms, where fp = "er_remote s" and r = "[]"]
    good_setState [OF side_ok_remove [OF assms, where fp = "er_remote s" and r = "[]"], of ErConnecting]
  by (auto simp: er_onLeft_def split_def Let_def good_def)

text \<open>The end of each awaited operation.\<close>

lemma good_continue:
  assumes w: "wc_derive w k (wc_pub w ko) = Some secret" and s: "side_ok w stringify k fo ko secret mine theirs s"
    and j: "job_ok w stringify fo ko secret mine theirs j" and p: "\<forall>(x, d)\<in>theirs. parse (stringify d) = Some d"
  shows "good w stringify k fo ko secret mine theirs (er_continue w parse me newKey j s)"
proof (cases j)
  case (EInited c)
  then show ?thesis using side_ok_frame [OF s] by (auto intro!: goodI)
next
  case (EImporting offer f raw)
  with j s w have "derive_bits w raw (er_e2e s) = Inr secret" by (auto simp: derive_bits_def side_ok_def)
  with EImporting j show ?thesis by (auto intro!: goodI side_ok_spawn s)
next
  case (EDeriving offer f bits)
  with j have d: "f = fo" "bits = secret" by simp_all
  have s1: "side_ok w stringify k fo ko secret mine theirs (s\<lparr>er_e2e := derive_done fo secret (er_e2e s)\<rparr>)"
    by (rule side_ok_derived [OF s])
  note f = good_finish [OF this, of fo]
  have pub: "getPublicKeyB64 (derive_done fo secret (er_e2e s)) = Inr (btoa (wc_pub w k))"
    using s by (simp add: getPublicKeyB64_def derive_done_def side_ok_def)
  have "wire_ok w stringify k secret mine (exchange_message ''key_ack'' (btoa (wc_pub w k)) me)" by (auto simp: wire_ok_def)
  with f s1 pub show ?thesis by (simp add: EDeriving d er_derived_def Let_def split_def good_def)
next
  case (EDecrypting f raw r)
  with j p obtain d where "f = fo" "r = Inr (stringify d)" "(True, d) \<in> theirs" "parse (stringify d) = Some d" by auto
  with EDecrypting s show ?thesis by (auto simp: er_decrypted_def intro!: goodI)
next
  case (EEncrypting d r)
  with j s show ?thesis by (auto simp: encryptAndSend_def wire_ok_def intro!: goodI)
qed (use j in simp_all)

lemma message_fields [simp]:
  "prop_opt (exchange_message ty pub me) ''_e2e_exchange'' = JBool True" "prop_opt (exchange_message ty pub me) ''type'' = JStr ty"
  "prop_opt (exchange_message ty pub me) ''publicKey'' = JStr pub"
  "prop_opt (plain_message d) ''_e2e_exchange'' = Undef" "prop_opt (plain_message d) ''_encrypted'' = Undef"
  "prop_opt (plain_message d) ''_plain'' = JBool True" "prop_opt (plain_message d) ''data'' = d"
  "prop_opt (encrypted_message c) ''_e2e_exchange'' = Undef" "prop_opt (encrypted_message c) ''_encrypted'' = JBool True"
  "prop_opt (encrypted_message c) ''_plain'' = Undef" "prop_opt (encrypted_message c) ''data'' = JStr c"
  by (simp_all add: exchange_message_def plain_message_def encrypted_message_def)

lemma good_data:
  assumes s: "side_ok w stringify k fo ko secret mine theirs s" and m: "wire_ok w stringify ko secret theirs raw"
  shows "good w stringify k fo ko secret mine theirs (handleData w raw fo s)"
proof -
  consider (exchange) ty me where "ty \<in> {''key_offer'', ''key_ack''}" "raw = exchange_message ty (btoa (wc_pub w ko)) me"
    | (plain) d where "raw = plain_message d" "(False, d) \<in> theirs"
    | (enc) c d where "raw = encrypted_message c" "(True, d) \<in> theirs" "sealed w secret (stringify d) c"
    using m unfolding wire_ok_def by blast
  then show ?thesis
  proof cases
    case exchange
    have "derive_start (btoa (wc_pub w ko)) (er_e2e s) = Inr (wc_pub w ko)"
      using s by (simp add: derive_start_def side_ok_def atob_btoa)
    with exchange s show ?thesis by (auto simp: handleData_def er_handleKeyExchange_def Let_def intro!: goodI side_ok_spawn)
  next
    case plain
    with s show ?thesis by (auto simp: handleData_def intro!: goodI)
  next
    case enc
    have "hasKey fo (er_e2e s) \<Longrightarrow> map_get (e_keys (er_e2e s)) fo = Some secret"
      using s by (auto simp: hasKey_def map_has_get side_ok_def)
    with enc have "hasKey fo (er_e2e s) \<Longrightarrow> er_decrypt w fo (JStr c) (er_e2e s) = Inr (stringify d)"
      by (simp add: er_decrypt_def sealed_def)
    with enc s show ?thesis by (auto simp: handleData_def intro!: goodI side_ok_spawn)
  qed
qed

text \<open>The values an event hands to \<open>send\<close>, marked with whether the room has encryption.\<close>

definition sent_of :: "e2er \<Rightarrow> er_event \<Rightarrow> (bool \<times> js) list" where
  "sent_of s e = (case e of ErSendCall iv d \<Rightarrow> [(hasEncryption s, d)] | _ \<Rightarrow> [])"

fun local_ok :: "(js \<Rightarrow> string) \<Rightarrow> (string \<Rightarrow> js option) \<Rightarrow> er_event \<Rightarrow> bool" where
  "local_ok stringify parse (OnErData m from) = False"
| "local_ok stringify parse (ErSendCall iv d) = (length iv = 12 \<and> parse (stringify d) = Some d)"
| "local_ok stringify parse e = True"

lemma good_send:
  assumes w: "webcrypto_ok w" and s: "side_ok w stringify k fo ko secret mine theirs s" and iv: "length iv = 12"
    and m: "(hasEncryption s, d) \<in> mine"
  shows "good w stringify k fo ko secret mine theirs (er_send w stringify iv d s)"
proof (cases "hasEncryption s")
  case True
  then have "map_get (e_keys (er_e2e s)) (er_remote s) = Some secret"
    using s by (auto simp: hasEncryption_def hasKey_def map_has_get side_ok_def)
  from encrypt_sealed [OF w iv this, of "stringify d"] True m s show ?thesis
    by (auto simp: er_send_def intro!: goodI side_ok_spawn)
next
  case False
  with m s show ?thesis by (auto simp: er_send_def wire_ok_def intro!: goodI)
qed

lemma good_resume:
  assumes w: "wc_derive w k (wc_pub w ko) = Some secret" and s: "side_ok w stringify k fo ko secret mine theirs s"
    and p: "\<forall>(x, d)\<in>theirs. parse (stringify d) = Some d"
  shows "good w stringify k fo ko secret mine theirs (er_resume w parse me newKey i s)"
proof (cases "map_get (er_jobs s) i")
  case (Some j)
  have "side_ok w stringify k fo ko secret mine theirs (s\<lparr>er_jobs := map_del i (er_jobs s)\<rparr>)"
    by (rule side_ok_frame [OF s]) (auto simp: set_map_del)
  moreover have "job_ok w stringify fo ko secret mine theirs j"
    using s map_of_SomeD [OF Some] by (auto simp: side_ok_def)
  ultimately show ?thesis using good_continue [OF w _ _ p] Some by (simp add: er_resume_def)
qed (use s in \<open>simp add: er_resume_def good_def\<close>)

lemma good_step:
  assumes w: "webcrypto_ok w" "wc_derive w k (wc_pub w ko) = Some secret"
    and s: "side_ok w stringify k fo ko secret mine theirs s" and p: "\<forall>(x, d)\<in>theirs. parse (stringify d) = Some d"
    and e: "local_ok stringify parse e" and m: "set (sent_of s e) \<subseteq> mine"
  shows "good w stringify k fo ko secret mine theirs (er_step w stringify parse s e)"
proof -
  have same: "good w stringify k fo ko secret mine theirs (s, [])" using s by (simp add: good_def)
  have remote: "side_ok w stringify k fo ko secret mine theirs (s\<lparr>er_remote := fp\<rparr>)" for fp
    by (rule side_ok_frame [OF s]) simp_all
  show ?thesis
  proof (cases e)
    case (ErBegin c)
    have "isInitialized (er_e2e s)" using s by (simp add: side_ok_def isInitialized_def)
    with ErBegin s show ?thesis by (auto simp: er_begin_def intro!: goodI side_ok_spawn)
  next
    case (ErResume me newKey i)
    then show ?thesis using good_resume [OF w(2) s p] by simp
  next
    case (ErSendCall iv d)
    then show ?thesis using good_send [OF w(1) s, of iv d] e m by (simp add: sent_of_def)
  next
    case ErClose
    then show ?thesis using good_close [OF s] by simp
  next
    case ErTimeout
    then show ?thesis using good_timeout [OF s] by simp
  next
    case (OnErData raw f)
    then show ?thesis using e by simp
  next
    case (OnErJoined fp)
    then show ?thesis using same remote by (auto intro!: goodI)
  next
    case (OnErConnected me fp)
    then show ?thesis using same good_start [OF remote] by simp
  next
    case (OnErLeft fp)
    then show ?thesis using same good_onLeft [OF s] by simp
  next
    case OnErClosed
    then show ?thesis using same good_close [OF s] by simp
  next
    case (OnErError x)
    then show ?thesis using same s by (auto intro!: goodI)
  qed
qed

section \<open>Two rooms and the network between them\<close>

record e2e_duo =
  ed_a :: e2er
  ed_b :: e2er
  ed_ab :: "js list"                     \<comment> \<open>messages sent by \<open>a\<close>\<close>
  ed_ba :: "js list"
  ed_sa :: "(bool \<times> js) list"            \<comment> \<open>values given to \<open>send\<close> of \<open>a\<close>\<close>
  ed_sb :: "(bool \<times> js) list"
  ed_oa :: "er_out list"
  ed_ob :: "er_out list"

definition on_wire :: "er_out list \<Rightarrow> js list" where
  "on_wire out = List.map_filter (\<lambda>x. case x of ErSend m \<Rightarrow> Some m | _ \<Rightarrow> None) out"

lemma set_on_wire: "m \<in> set (on_wire out) \<longleftrightarrow> ErSend m \<in> set out"
  by (induction out) (auto simp: on_wire_def List.map_filter_def split: er_out.splits)

text \<open>
  Either end acts, or receives any message the other has ever sent: the network may lose, repeat and
  reorder messages, but makes up none.
\<close>

inductive e2e_duo_step ::
  "webcrypto \<Rightarrow> (js \<Rightarrow> string) \<Rightarrow> (string \<Rightarrow> js option) \<Rightarrow> string \<Rightarrow> string \<Rightarrow> e2e_duo \<Rightarrow> bool \<Rightarrow> e2e_duo \<Rightarrow> bool"
  for w stringify parse fa fb where
  acts_a: "local_ok stringify parse e \<Longrightarrow> er_step w stringify parse (ed_a s) e = (t, out) \<Longrightarrow>
    e2e_duo_step w stringify parse fa fb s True
      (s\<lparr>ed_a := t, ed_ab := ed_ab s @ on_wire out, ed_sa := ed_sa s @ sent_of (ed_a s) e, ed_oa := ed_oa s @ out\<rparr>)"
| gets_a: "m \<in> set (ed_ba s) \<Longrightarrow> er_step w stringify parse (ed_a s) (OnErData m fb) = (t, out) \<Longrightarrow>
    e2e_duo_step w stringify parse fa fb s True (s\<lparr>ed_a := t, ed_ab := ed_ab s @ on_wire out, ed_oa := ed_oa s @ out\<rparr>)"
| acts_b: "local_ok stringify parse e \<Longrightarrow> er_step w stringify parse (ed_b s) e = (t, out) \<Longrightarrow>
    e2e_duo_step w stringify parse fa fb s False
      (s\<lparr>ed_b := t, ed_ba := ed_ba s @ on_wire out, ed_sb := ed_sb s @ sent_of (ed_b s) e, ed_ob := ed_ob s @ out\<rparr>)"
| gets_b: "m \<in> set (ed_ab s) \<Longrightarrow> er_step w stringify parse (ed_b s) (OnErData m fa) = (t, out) \<Longrightarrow>
    e2e_duo_step w stringify parse fa fb s False (s\<lparr>ed_b := t, ed_ba := ed_ba s @ on_wire out, ed_ob := ed_ob s @ out\<rparr>)"

text \<open>A room after \<open>create\<close>, with the key pair it was given.\<close>

definition er_started :: "webcrypto \<Rightarrow> nat \<Rightarrow> e2er" where
  "er_started w k = run_state (er_step w (\<lambda>v. []) (\<lambda>t. None)) (new_E2EDirectRoom None)
     [ErBegin True, ErResume [] k 0, ErResume [] 0 1, ErResume [] 0 2]"

definition e2e_duo_init :: "webcrypto \<Rightarrow> nat \<Rightarrow> nat \<Rightarrow> e2e_duo \<Rightarrow> bool" where
  "e2e_duo_init w ka kb s \<longleftrightarrow> webcrypto_ok w \<and>
     s = \<lparr>ed_a = er_started w ka, ed_b = er_started w kb, ed_ab = [], ed_ba = [], ed_sa = [], ed_sb = [], ed_oa = [], ed_ob = []\<rparr>"

definition secret_of :: "webcrypto \<Rightarrow> nat \<Rightarrow> nat \<Rightarrow> bytes" where
  "secret_of w ka kb = the (wc_derive w ka (wc_pub w kb))"

definition end_inv ::
  "webcrypto \<Rightarrow> (js \<Rightarrow> string) \<Rightarrow> (string \<Rightarrow> js option) \<Rightarrow> bytes \<Rightarrow> nat \<Rightarrow> string \<Rightarrow> nat \<Rightarrow> e2er \<Rightarrow> js list \<Rightarrow> (bool \<times> js) list
   \<Rightarrow> (bool \<times> js) list \<Rightarrow> er_out list \<Rightarrow> bool" where
  "end_inv w stringify parse secret k fo ko s wire mine theirs out \<longleftrightarrow>
     side_ok w stringify k fo ko secret (set mine) (set theirs) s
     \<and> (\<forall>m\<in>set wire. wire_ok w stringify k secret (set mine) m)
     \<and> (\<forall>x\<in>set out. out_ok w stringify k fo secret (set mine) (set theirs) x)
     \<and> (\<forall>(x, d)\<in>set mine. parse (stringify d) = Some d)"

definition e2e_duo_inv ::
  "webcrypto \<Rightarrow> (js \<Rightarrow> string) \<Rightarrow> (string \<Rightarrow> js option) \<Rightarrow> nat \<Rightarrow> nat \<Rightarrow> string \<Rightarrow> string \<Rightarrow> e2e_duo \<Rightarrow> bool" where
  "e2e_duo_inv w stringify parse ka kb fa fb s \<longleftrightarrow> webcrypto_ok w
     \<and> end_inv w stringify parse (secret_of w ka kb) ka fb kb (ed_a s) (ed_ab s) (ed_sa s) (ed_sb s) (ed_oa s)
     \<and> end_inv w stringify parse (secret_of w ka kb) kb fa ka (ed_b s) (ed_ba s) (ed_sb s) (ed_sa s) (ed_ob s)"

lemma secret_agreed:
  assumes "webcrypto_ok w"
  shows "wc_derive w ka (wc_pub w kb) = Some (secret_of w ka kb)" "wc_derive w kb (wc_pub w ka) = Some (secret_of w ka kb)"
proof -
  obtain b where "wc_derive w ka (wc_pub w kb) = Some b" "wc_derive w kb (wc_pub w ka) = Some b"
    using assms unfolding webcrypto_ok_def by blast
  then show "wc_derive w ka (wc_pub w kb) = Some (secret_of w ka kb)" "wc_derive w kb (wc_pub w ka) = Some (secret_of w ka kb)"
    by (simp_all add: secret_of_def)
qed

lemma end_inv_good:
  assumes i: "end_inv w stringify parse secret k fo ko s wire mine theirs out"
    and g: "good w stringify k fo ko secret (set (mine @ new)) (set theirs) (t, outs)"
    and n: "\<forall>(x, d)\<in>set new. parse (stringify d) = Some d"
  shows "end_inv w stringify parse secret k fo ko t (wire @ on_wire outs) (mine @ new) theirs (out @ outs)"
proof -
  have sub: "set mine \<subseteq> set (mine @ new)" by simp
  have "wire_ok w stringify k secret (set (mine @ new)) m" if "m \<in> set (wire @ on_wire outs)" for m
  proof (cases "m \<in> set wire")
    case True
    with i have "wire_ok w stringify k secret (set mine) m" by (simp add: end_inv_def)
    then show ?thesis by (rule wire_ok_mono [OF _ sub])
  next
    case False
    with that g show ?thesis by (auto simp: set_on_wire good_def)
  qed
  moreover have "out_ok w stringify k fo secret (set (mine @ new)) (set theirs) x" if "x \<in> set (out @ outs)" for x
  proof (cases "x \<in> set out")
    case True
    with i have "out_ok w stringify k fo secret (set mine) (set theirs) x" by (simp add: end_inv_def)
    then show ?thesis by (rule out_ok_mono [OF _ sub]) simp
  next
    case False
    with that g show ?thesis by (simp add: good_def)
  qed
  moreover have "\<forall>(x, d)\<in>set (mine @ new). parse (stringify d) = Some d" using i n by (simp add: end_inv_def ball_Un)
  ultimately show ?thesis using g unfolding end_inv_def good_def fst_conv by blast
qed

lemma end_inv_theirs:
  "end_inv w stringify parse secret k fo ko s wire mine theirs out \<Longrightarrow>
   end_inv w stringify parse secret k fo ko s wire mine (theirs @ new) out"
  using side_ok_mono [of w stringify k fo ko secret "set mine" "set theirs" s "set mine" "set (theirs @ new)"]
    out_ok_mono [of w stringify k fo secret "set mine" "set theirs" _ "set mine" "set (theirs @ new)"]
  by (simp add: end_inv_def)

lemma end_acts:
  assumes w: "webcrypto_ok w" "wc_derive w k (wc_pub w ko) = Some secret"
    and i: "end_inv w stringify parse secret k fo ko s wire mine theirs out" and p: "\<forall>(x, d)\<in>set theirs. parse (stringify d) = Some d"
    and e: "local_ok stringify parse e" "er_step w stringify parse s e = (t, outs)"
  shows "end_inv w stringify parse secret k fo ko t (wire @ on_wire outs) (mine @ sent_of s e) theirs (out @ outs)"
proof (rule end_inv_good [OF i])
  have "side_ok w stringify k fo ko secret (set (mine @ sent_of s e)) (set theirs) s"
    using i by (auto simp: end_inv_def intro: side_ok_mono)
  from good_step [OF w this p e(1)] e(2) show "good w stringify k fo ko secret (set (mine @ sent_of s e)) (set theirs) (t, outs)" by simp
  show "\<forall>(x, d)\<in>set (sent_of s e). parse (stringify d) = Some d" using e(1) by (cases e) (simp_all add: sent_of_def)
qed

lemma end_gets:
  assumes i: "end_inv w stringify parse secret k fo ko s wire mine theirs out" and m: "wire_ok w stringify ko secret (set theirs) m"
    and e: "er_step w stringify parse s (OnErData m fo) = (t, outs)"
  shows "end_inv w stringify parse secret k fo ko t (wire @ on_wire outs) mine theirs (out @ outs)"
proof -
  have "side_ok w stringify k fo ko secret (set (mine @ [])) (set theirs) s" using i by (simp add: end_inv_def)
  from good_data [OF this m] this e have "good w stringify k fo ko secret (set (mine @ [])) (set theirs) (t, outs)"
    by (auto simp: good_def split: if_splits)
  from end_inv_good [OF i this] show ?thesis by simp
qed

lemma started_side: "side_ok w stringify k fo ko secret {} {} (er_started w k)"
  by (simp add: er_started_def new_E2EDirectRoom_def er_begin_def isInitialized_def new_E2E_def er_spawn_def er_resume_def
      e2e_init_keys_def e2e_init_done_def side_ok_def)

lemma e2e_init_inv: "e2e_duo_init w ka kb s \<Longrightarrow> e2e_duo_inv w stringify parse ka kb fa fb s"
  by (simp add: e2e_duo_init_def e2e_duo_inv_def end_inv_def started_side)

lemma e2e_step_inv:
  assumes "e2e_duo_step w stringify parse fa fb s l t" "e2e_duo_inv w stringify parse ka kb fa fb s"
  shows "e2e_duo_inv w stringify parse ka kb fa fb t"
  using assms
proof (induction rule: e2e_duo_step.induct)
  case (acts_a e s t out)
  then show ?case
    using end_acts [OF _ secret_agreed(1), of w stringify parse ka kb fb "ed_a s" "ed_ab s" "ed_sa s" "ed_sb s" "ed_oa s" e t out]
    by (simp add: e2e_duo_inv_def end_inv_theirs) (simp add: end_inv_def)
next
  case (gets_a m s t out)
  then show ?case
    using end_gets [of w stringify parse "secret_of w ka kb" ka fb kb "ed_a s" "ed_ab s" "ed_sa s" "ed_sb s" "ed_oa s" m t out]
    by (simp add: e2e_duo_inv_def) (simp add: end_inv_def)
next
  case (acts_b e s t out)
  then show ?case
    using end_acts [OF _ secret_agreed(2), of w stringify parse ka kb fa "ed_b s" "ed_ba s" "ed_sb s" "ed_sa s" "ed_ob s" e t out]
    by (simp add: e2e_duo_inv_def end_inv_theirs) (simp add: end_inv_def)
next
  case (gets_b m s t out)
  then show ?case
    using end_gets [of w stringify parse "secret_of w ka kb" kb fa ka "ed_b s" "ed_ba s" "ed_sb s" "ed_sa s" "ed_ob s" m t out]
    by (simp add: e2e_duo_inv_def) (simp add: end_inv_def)
qed

interpretation e2e_conversation: inv_system "e2e_duo_init w ka kb" "e2e_duo_step w stringify parse fa fb"
    "e2e_duo_inv w stringify parse ka kb fa fb" for w stringify parse ka kb fa fb
  by unfold_locales (auto intro: e2e_init_inv e2e_step_inv)


definition er_end :: "webcrypto \<Rightarrow> nat \<Rightarrow> (string, bytes) jsmap \<Rightarrow> string \<Rightarrow> er_status \<Rightarrow> bool \<Rightarrow> (nat \<times> er_job) list \<Rightarrow> nat \<Rightarrow> e2er" where
  "er_end w k keys r st tm jobs n = \<lparr>er_room = True, er_e2e = \<lparr>e_keys = keys, e_priv = Some k, e_pub = Some (wc_pub w k)\<rparr>,
     er_remote = r, er_status = st, er_closed = False, er_timer = tm, er_listens = 1, er_jobs = jobs, er_next = n\<rparr>"

lemma er_started_end: "er_started w k = er_end w k [] [] ErConnecting False [] 3"
  by (simp add: er_started_def new_E2EDirectRoom_def er_begin_def isInitialized_def new_E2E_def er_spawn_def er_resume_def
      e2e_init_keys_def e2e_init_done_def er_end_def numeral_3_eq_3)

lemmas er_defs = er_resume_def er_spawn_def handleData_def er_handleKeyExchange_def startKeyExchange_def er_setState_def er_finish_def
  er_derived_def er_decrypted_def er_send_def encryptAndSend_def er_decrypt_def hasEncryption_def hasKey_def map_has_get
  getPublicKeyB64_def derive_start_def derive_bits_def derive_done_def atob_btoa Let_def

text \<open>One end's steps of an exchange it answers, of one it began, and of a message in either direction.\<close>

lemma end_offers:
  "er_step w stringify parse (er_end w k [] [] ErConnecting False [] 3) (OnErConnected me fo)
   = (er_end w k [] fo ErExchanging True [] 3,
      [ErEmit ''state_changed'' [JStr ''exchanging''], ErSend (exchange_message ''key_offer'' (btoa (wc_pub w k)) me)])"
  by (simp add: er_end_def er_defs)

lemma end_imports:
  "ty \<in> {''key_offer'', ''key_ack''} \<Longrightarrow>
   er_step w stringify parse (er_end w k [] r st tm [] n) (OnErData (exchange_message ty (btoa (wc_pub w ko)) them) fo)
   = (er_end w k [] r st tm [(n, EImporting (ty = ''key_offer'') fo (wc_pub w ko))] (Suc n), [])"
  by (auto simp: er_end_def er_defs)

lemma end_derives:
  "wc_derive w k (wc_pub w ko) = Some secret \<Longrightarrow>
   er_step w stringify parse (er_end w k [] r st tm [(i, EImporting offer fo (wc_pub w ko))] n) (ErResume me 0 i)
   = (er_end w k [] r st tm [(n, EDeriving offer fo secret)] (Suc n), [])"
  by (simp add: er_end_def er_defs)

lemma end_ready:
  "st \<noteq> ErReady \<Longrightarrow>
   er_step w stringify parse (er_end w k [] r st tm [(i, EDeriving offer fo secret)] n) (ErResume me 0 i)
   = (er_end w k [(fo, secret)] fo ErReady False [] n,
      (if offer then [ErSend (exchange_message ''key_ack'' (btoa (wc_pub w k)) me)] else [])
      @ [ErEmit ''state_changed'' [JStr ''ready''], ErEmit ''ready'' [JStr fo]])"
  by (simp add: er_end_def er_defs)

lemma end_sends:
  "er_step w stringify parse (er_end w k [(fo, secret)] fo ErReady False [] n) (ErSendCall iv d)
   = (er_end w k [(fo, secret)] fo ErReady False
        [(n, EEncrypting d (encrypt w iv fo (stringify d) \<lparr>e_keys = [(fo, secret)], e_priv = Some k, e_pub = Some (wc_pub w k)\<rparr>))] (Suc n), [])"
  "er_step w stringify parse (er_end w k [(fo, secret)] fo ErReady False [(i, EEncrypting d (Inr c))] n) (ErResume me 0 i)
   = (er_end w k [(fo, secret)] fo ErReady False [] n, [ErSend (encrypted_message c)])"
  by (simp_all add: er_end_def er_defs)

lemma end_receives:
  "sealed w secret t c \<Longrightarrow>
   er_step w stringify parse (er_end w k [(fo, secret)] fo ErReady False [] n) (OnErData (encrypted_message c) fo)
   = (er_end w k [(fo, secret)] fo ErReady False [(n, EDecrypting fo (encrypted_message c) (Inr t))] (Suc n), [])"
  "parse t = Some d \<Longrightarrow>
   er_step w stringify parse (er_end w k [(fo, secret)] fo ErReady False [(i, EDecrypting fo raw (Inr t))] n) (ErResume me 0 i)
   = (er_end w k [(fo, secret)] fo ErReady False [] n, [ErEmit ''data'' [d, JStr fo]])"
  by (simp_all add: er_end_def er_defs sealed_def)

declare er_step.simps [simp del]

text \<open>A conversation in which only the first end sends, moved on one event at a time.\<close>

definition duo_at :: "e2er \<Rightarrow> e2er \<Rightarrow> js list \<Rightarrow> js list \<Rightarrow> (bool \<times> js) list \<Rightarrow> er_out list \<Rightarrow> er_out list \<Rightarrow> e2e_duo" where
  "duo_at a b ab ba sa oa ob = \<lparr>ed_a = a, ed_b = b, ed_ab = ab, ed_ba = ba, ed_sa = sa, ed_sb = [], ed_oa = oa, ed_ob = ob\<rparr>"

definition talking :: "webcrypto \<Rightarrow> (js \<Rightarrow> string) \<Rightarrow> (string \<Rightarrow> js option) \<Rightarrow> e2e_duo \<Rightarrow> bool" where
  "talking w stringify parse = reachable (e2e_duo_init w 3 4) (e2e_duo_step w stringify parse ''a'' ''b'')"

lemma duo_at_sel [simp]:
  "ed_a (duo_at a b ab ba sa oa ob) = a" "ed_b (duo_at a b ab ba sa oa ob) = b" "ed_ab (duo_at a b ab ba sa oa ob) = ab"
  "ed_ba (duo_at a b ab ba sa oa ob) = ba" "ed_sa (duo_at a b ab ba sa oa ob) = sa" "ed_sb (duo_at a b ab ba sa oa ob) = []"
  "ed_oa (duo_at a b ab ba sa oa ob) = oa" "ed_ob (duo_at a b ab ba sa oa ob) = ob"
  by (simp_all add: duo_at_def)

lemma duo_at_upd:
  "(duo_at a b ab ba sa oa ob)\<lparr>ed_a := a', ed_ab := ab', ed_sa := sa', ed_oa := oa'\<rparr> = duo_at a' b ab' ba sa' oa' ob"
  "(duo_at a b ab ba sa oa ob)\<lparr>ed_a := a', ed_ab := ab', ed_oa := oa'\<rparr> = duo_at a' b ab' ba sa oa' ob"
  "(duo_at a b ab ba sa oa ob)\<lparr>ed_b := b', ed_ba := ba', ed_sb := [], ed_ob := ob'\<rparr> = duo_at a b' ab ba' sa oa ob'"
  "(duo_at a b ab ba sa oa ob)\<lparr>ed_b := b', ed_ba := ba', ed_ob := ob'\<rparr> = duo_at a b' ab ba' sa oa ob'"
  by (simp_all add: duo_at_def)

lemma talk_acts_a:
  assumes "talking w stringify parse (duo_at a b ab ba sa oa ob)" "er_step w stringify parse a e = (t, out)" "local_ok stringify parse e"
    "ab @ on_wire out = ab'" "oa @ out = oa'" "sa @ sent_of a e = sa'"
  shows "talking w stringify parse (duo_at t b ab' ba sa' oa' ob)"
  unfolding talking_def
  by (rule reachable.step [OF assms(1) [unfolded talking_def] acts_a [where s = "duo_at a b ab ba sa oa ob", unfolded duo_at_sel, OF assms(3,2), unfolded assms(4,5,6) duo_at_upd]])

lemma talk_gets_a:
  assumes "talking w stringify parse (duo_at a b ab ba sa oa ob)" "er_step w stringify parse a (OnErData m ''b'') = (t, out)" "m \<in> set ba"
    "ab @ on_wire out = ab'" "oa @ out = oa'"
  shows "talking w stringify parse (duo_at t b ab' ba sa oa' ob)"
  unfolding talking_def
  by (rule reachable.step [OF assms(1) [unfolded talking_def] gets_a [where s = "duo_at a b ab ba sa oa ob", unfolded duo_at_sel, OF assms(3,2), unfolded assms(4,5) duo_at_upd]])

lemma talk_acts_b:
  assumes "talking w stringify parse (duo_at a b ab ba sa oa ob)" "er_step w stringify parse b e = (t, out)" "local_ok stringify parse e"
    "ba @ on_wire out = ba'" "ob @ out = ob'" "sent_of b e = []"
  shows "talking w stringify parse (duo_at a t ab ba' sa oa ob')"
  unfolding talking_def
  by (rule reachable.step [OF assms(1) [unfolded talking_def] acts_b [where s = "duo_at a b ab ba sa oa ob", unfolded duo_at_sel, OF assms(3,2), unfolded assms(4,5,6) append_Nil duo_at_upd]])

lemma talk_gets_b:
  assumes "talking w stringify parse (duo_at a b ab ba sa oa ob)" "er_step w stringify parse b (OnErData m ''a'') = (t, out)" "m \<in> set ab"
    "ba @ on_wire out = ba'" "ob @ out = ob'"
  shows "talking w stringify parse (duo_at a t ab ba' sa oa ob')"
  unfolding talking_def
  by (rule reachable.step [OF assms(1) [unfolded talking_def] gets_b [where s = "duo_at a b ab ba sa oa ob", unfolded duo_at_sel, OF assms(3,2), unfolded assms(4,5) duo_at_upd]])

lemma on_wire_simps [simp]:
  "on_wire [] = []" "on_wire (ErSend m # out) = m # on_wire out" "on_wire (ErEmit n args # out) = on_wire out"
  by (simp_all add: on_wire_def List.map_filter_def)

lemma sent_of_simps: "sent_of s (ErResume me k i) = []" "sent_of s (OnErConnected me fp) = []"
    "sent_of s (ErSendCall iv d) = [(hasEncryption s, d)]"
  by (simp_all add: sent_of_def)

lemma demo_conversation:
  assumes w: "webcrypto_ok w" and p: "parse (stringify d) = Some d" and iv: "length (iv :: bytes) = 12"
  shows "\<exists>s. talking w stringify parse s \<and> ErEmit ''data'' [d, JStr ''a''] \<in> set (ed_ob s) \<and> ed_sa s = [(True, d)]"
proof -
  note k = secret_agreed [OF w, where ka = 3 and kb = 4]
  let ?sec = "secret_of w 3 4" and ?e = "\<lambda>keys k. \<lparr>e_keys = keys, e_priv = Some k, e_pub = Some (wc_pub w k)\<rparr>"
  obtain c where c: "encrypt w iv ''b'' (stringify d) (?e [(''b'', ?sec)] 3) = Inr c" "sealed w ?sec (stringify d) c"
    using encrypt_sealed [OF w iv, of "?e [(''b'', ?sec)] 3" "''b''" ?sec "stringify d"] by auto
  let ?a0 = "er_end w 3 [] [] ErConnecting False [] 3" and ?b0 = "er_end w 4 [] [] ErConnecting False [] 3"
  let ?off = "exchange_message ''key_offer'' (btoa (wc_pub w 4)) ''b''" and ?ack = "exchange_message ''key_ack'' (btoa (wc_pub w 3)) ''a''"
  let ?b1 = "\<lambda>jobs. er_end w 4 [] ''a'' ErExchanging True jobs" and ?a1 = "\<lambda>jobs. er_end w 3 [] [] ErConnecting False jobs"
  let ?a2 = "\<lambda>jobs. er_end w 3 [(''b'', ?sec)] ''b'' ErReady False jobs" and ?b2 = "\<lambda>jobs. er_end w 4 [(''a'', ?sec)] ''a'' ErReady False jobs"
  let ?enc = "encrypted_message c"
  let ?T = "\<lambda>a b ab ba sa. \<exists>oa ob. talking w stringify parse (duo_at a b ab ba sa oa ob)"
  have e1: "er_step w stringify parse (?b0) (OnErConnected ''b'' ''a'') = (?b1 [] 3, [ErEmit ''state_changed'' [JStr ''exchanging''], ErSend ?off])" by (simp add: end_offers)
  have e2: "er_step w stringify parse (?a0) (OnErData ?off ''b'') = (?a1 [(3, EImporting True ''b'' (wc_pub w 4))] 4, [])" by (simp add: end_imports)
  have e3: "er_step w stringify parse (?a1 [(3, EImporting True ''b'' (wc_pub w 4))] 4) (ErResume ''a'' 0 3) = (?a1 [(4, EDeriving True ''b'' ?sec)] 5, [])" by (simp add: end_derives [OF k(1)])
  have e4: "er_step w stringify parse (?a1 [(4, EDeriving True ''b'' ?sec)] 5) (ErResume ''a'' 0 4) = (?a2 [] 5, [ErSend ?ack, ErEmit ''state_changed'' [JStr ''ready''], ErEmit ''ready'' [JStr ''b'']])" by (simp add: end_ready)
  have e5: "er_step w stringify parse (?b1 [] 3) (OnErData ?ack ''a'') = (?b1 [(3, EImporting False ''a'' (wc_pub w 3))] 4, [])" by (simp add: end_imports)
  have e6: "er_step w stringify parse (?b1 [(3, EImporting False ''a'' (wc_pub w 3))] 4) (ErResume ''b'' 0 3) = (?b1 [(4, EDeriving False ''a'' ?sec)] 5, [])" by (simp add: end_derives [OF k(2)])
  have e7: "er_step w stringify parse (?b1 [(4, EDeriving False ''a'' ?sec)] 5) (ErResume ''b'' 0 4) = (?b2 [] 5, [ErEmit ''state_changed'' [JStr ''ready''], ErEmit ''ready'' [JStr ''a'']])" by (simp add: end_ready)
  have e8: "er_step w stringify parse (?a2 [] 5) (ErSendCall iv d) = (?a2 [(5, EEncrypting d (Inr c))] 6, [])" by (simp add: end_sends c(1))
  have e9: "er_step w stringify parse (?a2 [(5, EEncrypting d (Inr c))] 6) (ErResume ''a'' 0 5) = (?a2 [] 6, [ErSend ?enc])" by (simp add: end_sends)
  have e10: "er_step w stringify parse (?b2 [] 5) (OnErData ?enc ''a'') = (?b2 [(5, EDecrypting ''a'' ?enc (Inr (stringify d)))] 6, [])" by (simp add: end_receives(1) [OF c(2)])
  have e11: "er_step w stringify parse (?b2 [(5, EDecrypting ''a'' ?enc (Inr (stringify d)))] 6) (ErResume ''b'' 0 5) = (?b2 [] 6, [ErEmit ''data'' [d, JStr ''a'']])"
    by (simp add: end_receives(2) p)
  have has: "hasEncryption (?a2 [] 5)" by (simp add: er_end_def hasEncryption_def hasKey_def map_has_get)
  have "?T ?a0 ?b0 [] [] []"
    unfolding talking_def by (intro exI, rule reachable.start) (simp add: e2e_duo_init_def w duo_at_def er_started_end)
  then have "?T ?a0 (?b1 [] 3) [] [?off] []"
    by (elim exE) (rule exI, rule exI, rule talk_acts_b [OF _ e1], assumption, simp_all add: sent_of_simps)
  then have "?T (?a1 [(3, EImporting True ''b'' (wc_pub w 4))] 4) (?b1 [] 3) [] [?off] []"
    by (elim exE) (rule exI, rule exI, rule talk_gets_a [OF _ e2], assumption, simp_all add: sent_of_simps)
  then have "?T (?a1 [(4, EDeriving True ''b'' ?sec)] 5) (?b1 [] 3) [] [?off] []"
    by (elim exE) (rule exI, rule exI, rule talk_acts_a [OF _ e3], assumption, simp_all add: sent_of_simps)
  then have "?T (?a2 [] 5) (?b1 [] 3) [?ack] [?off] []"
    by (elim exE) (rule exI, rule exI, rule talk_acts_a [OF _ e4], assumption, simp_all add: sent_of_simps)
  then have "?T (?a2 [] 5) (?b1 [(3, EImporting False ''a'' (wc_pub w 3))] 4) [?ack] [?off] []"
    by (elim exE) (rule exI, rule exI, rule talk_gets_b [OF _ e5], assumption, simp_all add: sent_of_simps)
  then have "?T (?a2 [] 5) (?b1 [(4, EDeriving False ''a'' ?sec)] 5) [?ack] [?off] []"
    by (elim exE) (rule exI, rule exI, rule talk_acts_b [OF _ e6], assumption, simp_all add: sent_of_simps)
  then have "?T (?a2 [] 5) (?b2 [] 5) [?ack] [?off] []"
    by (elim exE) (rule exI, rule exI, rule talk_acts_b [OF _ e7], assumption, simp_all add: sent_of_simps)
  then have "?T (?a2 [(5, EEncrypting d (Inr c))] 6) (?b2 [] 5) [?ack] [?off] [(True, d)]"
    by (elim exE) (rule exI, rule exI, rule talk_acts_a [OF _ e8], assumption, simp_all add: sent_of_simps has p iv)
  then have "?T (?a2 [] 6) (?b2 [] 5) [?ack, ?enc] [?off] [(True, d)]"
    by (elim exE) (rule exI, rule exI, rule talk_acts_a [OF _ e9], assumption, simp_all add: sent_of_simps)
  then have "?T (?a2 [] 6) (?b2 [(5, EDecrypting ''a'' ?enc (Inr (stringify d)))] 6) [?ack, ?enc] [?off] [(True, d)]"
    by (elim exE) (rule exI, rule exI, rule talk_gets_b [OF _ e10], assumption, simp_all add: sent_of_simps)
  then obtain oa ob where t: "talking w stringify parse (duo_at (?a2 [] 6) (?b2 [(5, EDecrypting ''a'' ?enc (Inr (stringify d)))] 6) [?ack, ?enc] [?off] [(True, d)] oa ob)"
    by blast
  have "talking w stringify parse (duo_at (?a2 [] 6) (?b2 [] 6) [?ack, ?enc] [?off] [(True, d)] oa (ob @ [ErEmit ''data'' [d, JStr ''a'']]))"
    by (rule talk_acts_b [OF t e11]) (simp_all add: sent_of_simps)
  then show ?thesis by (intro exI conjI, assumption) simp_all
qed


section \<open>A message that does not decrypt\<close>

definition er_fresh :: "e2er \<Rightarrow> bool" where
  "er_fresh s = (\<forall>(i, j)\<in>set (er_jobs s). i < er_next s)"

lemma fresh_frame:
  "er_fresh s \<Longrightarrow> set (er_jobs t) \<subseteq> set (er_jobs s) \<Longrightarrow> er_next t = er_next s \<Longrightarrow> er_fresh t"
  unfolding er_fresh_def by auto

lemma fresh_spawn: "er_fresh s \<Longrightarrow> er_fresh (er_spawn j s)"
  unfolding er_fresh_def er_spawn_def by (auto simp: less_Suc_eq)

lemma setState_jobs [simp]: "er_jobs (fst (er_setState st s)) = er_jobs s" "er_next (fst (er_setState st s)) = er_next s"
  "er_e2e (fst (er_setState st s)) = er_e2e s" "er_closed (fst (er_setState st s)) = er_closed s"
  "er_room (fst (er_setState st s)) = er_room s" "er_status (fst (er_setState st s)) = st"
  by (simp_all add: er_setState_def)

lemma op_jobs [simp]:
  "er_jobs (fst (startKeyExchange me s)) = er_jobs s" "er_next (fst (startKeyExchange me s)) = er_next s"
  "er_jobs (fst (er_close s)) = er_jobs s" "er_next (fst (er_close s)) = er_next s"
  "er_jobs (fst (er_timeout s)) = er_jobs s" "er_next (fst (er_timeout s)) = er_next s"
  "er_jobs (fst (er_onLeft fp s)) = er_jobs s" "er_next (fst (er_onLeft fp s)) = er_next s"
  "er_jobs (fst (er_finish fp s)) = er_jobs s" "er_next (fst (er_finish fp s)) = er_next s"
  by (simp_all add: startKeyExchange_def er_close_def er_timeout_def er_onLeft_def er_finish_def Let_def split_def split: sum.split)

lemma fresh_data: "er_fresh s \<Longrightarrow> er_fresh (fst (handleData w raw from s))"
  by (auto simp: handleData_def er_handleKeyExchange_def Let_def intro: fresh_spawn split: js.split sum.split)

lemma fresh_continue: "er_fresh s \<Longrightarrow> er_fresh (fst (er_continue w parse me k j s))"
proof (induction w parse me k j s rule: er_continue.induct)
  case (1 w parse me newKey c s)
  then show ?case by (auto intro!: fresh_spawn elim: fresh_frame)
next
  case (2 w parse me newKey c k s)
  then show ?case by (auto intro!: fresh_spawn elim: fresh_frame)
next
  case (3 w parse me newKey c s)
  then show ?case by (auto elim: fresh_frame)
next
  case (4 w parse me newKey offer f raw s)
  then show ?case by (auto intro: fresh_spawn split: sum.split)
next
  case (5 w parse me newKey offer f bits s)
  then show ?case by (auto simp: er_derived_def Let_def split_def elim: fresh_frame split: sum.split)
next
  case (6 w parse me newKey f raw r s)
  then show ?case by (auto simp: er_decrypted_def Let_def split_def elim: fresh_frame split: option.split)
next
  case (7 w parse me newKey d r s)
  then show ?case by simp
qed

lemma fresh_step: "er_fresh s \<Longrightarrow> er_fresh (fst (er_step w stringify parse s e))"
proof (cases e)
  case (ErResume me k i)
  assume s: "er_fresh s"
  then have "er_fresh (s\<lparr>er_jobs := map_del i (er_jobs s)\<rparr>)" by (rule fresh_frame) (auto simp: set_map_del)
  with s ErResume show ?thesis by (simp add: er_step.simps er_resume_def fresh_continue split: option.split)
qed (auto simp: er_step.simps er_begin_def er_send_def intro: fresh_spawn fresh_data elim: fresh_frame)

interpretation e2e_room_jobs: machine "er_step w stringify parse" er_fresh "\<lambda>e. True" for w stringify parse
  by unfold_locales (rule fresh_step)

lemma fresh_new: "er_fresh (new_E2EDirectRoom e)"
  by (simp add: er_fresh_def new_E2EDirectRoom_def)

lemma sends_plain:
  "er_room s \<Longrightarrow> \<not> er_closed s \<Longrightarrow> \<not> hasEncryption s \<Longrightarrow>
   run (er_step w stringify parse) s (map (\<lambda>(iv, d). ErSendCall iv d) ds) = (s, map (\<lambda>(iv, d). ErSend (plain_message d)) ds)"
  by (induction ds) (auto simp: er_step.simps er_send_def)

text \<open>
  C32. Anyone who can send to a room can switch its encryption off.  In a room that encrypts, a single
  message marked \<open>_encrypted\<close> that does not decrypt, once its decryption has failed, takes the room
  out of the state \<open>ready\<close>, and everything the application sends until a new exchange succeeds goes out
  in the clear.
\<close>

theorem undecryptable_message_downgrades:
  assumes "s = run_state (er_step w stringify parse) (new_E2EDirectRoom e) es"
    and "hasEncryption s" "isInitialized (er_e2e s)" "\<not> er_closed s" "er_room s" "0 < er_listens s"
    and "\<not> truthy (prop_opt raw ''_e2e_exchange'')" "truthy (prop_opt raw ''_encrypted'')"
    and "\<forall>t. er_decrypt w (er_remote s) (prop_opt raw ''data'') (er_e2e s) = Inr t \<longrightarrow> parse t = None"
    and "t = run_state (er_step w stringify parse) s [OnErData raw (er_remote s), ErResume me k (er_next s)]"
  shows "er_status t = ErExchanging
    \<and> snd (run (er_step w stringify parse) t (map (\<lambda>(iv, d). ErSendCall iv d) ds)) = map (\<lambda>(iv, d). ErSend (plain_message d)) ds"
proof -
  have "er_fresh s" unfolding assms(1) using e2e_room_jobs.run_inv [OF fresh_new, of es] by (simp add: list_all_iff)
  then have fresh: "map_of (er_jobs s) (er_next s) = None" by (auto simp: er_fresh_def map_of_eq_None_iff)
  let ?r = "er_decrypt w (er_remote s) (prop_opt raw ''data'') (er_e2e s)"
  let ?s1 = "er_spawn (EDecrypting (er_remote s) raw ?r) s"
  let ?s2 = "?s1\<lparr>er_jobs := map_del (er_next s) (er_jobs ?s1)\<rparr>"
  have "er_step w stringify parse s (OnErData raw (er_remote s)) = (?s1, [])"
    using assms(2,6-8) by (simp add: er_step.simps handleData_def hasEncryption_def)
  moreover have "er_step w stringify parse ?s1 (ErResume me k (er_next s)) = er_decrypted parse me (er_remote s) raw ?r ?s2"
    using fresh by (simp add: er_step.simps er_resume_def er_spawn_def map_of_append map_add_def)
  moreover have "(case ?r of Inl x \<Rightarrow> None | Inr t \<Rightarrow> parse t) = None" using assms(9) by (auto split: sum.split)
  ultimately have t: "t = fst (startKeyExchange me ?s2)" by (simp add: assms(10) er_decrypted_def split_def Let_def)
  obtain pub where "e_pub (er_e2e s) = Some pub" using assms(3) by (auto simp: isInitialized_def)
  then have "er_status t = ErExchanging" "er_room t" "\<not> er_closed t"
    using assms(4,5) by (simp_all add: t startKeyExchange_def er_spawn_def getPublicKeyB64_def split_def Let_def)
  with sends_plain [of t w stringify parse ds] show ?thesis by (simp add: hasEncryption_def)
qed

theorem undecryptable_message_downgrades_witness:
  "\<exists>s. hasEncryption s \<and> snd (run (er_step toy_crypto (\<lambda>v. ''7'') (\<lambda>t. Some (JNum 7)))
      (run_state (er_step toy_crypto (\<lambda>v. ''7'') (\<lambda>t. Some (JNum 7))) s [OnErData (encrypted_message ''!'') ''b'', ErResume ''a'' 0 5])
      [ErSendCall [] (JNum 7)]) = [ErSend (plain_message (JNum 7))]"
proof -
  let ?w = toy_crypto and ?step = "er_step toy_crypto (\<lambda>v. ''7'') (\<lambda>t. Some (JNum 7))"
  let ?off = "exchange_message ''key_offer'' (btoa (wc_pub ?w 4)) ''b''"
  let ?es = "[ErBegin True, ErResume [] 3 0, ErResume [] 0 1, ErResume [] 0 2, OnErData ?off ''b'', ErResume ''a'' 0 3, ErResume ''a'' 0 4]"
  let ?s = "er_end ?w 3 [(''b'', secret_of ?w 3 4)] ''b'' ErReady False [] 5"
  have "er_started ?w 3 = run_state ?step (new_E2EDirectRoom None) (take 4 ?es)"
    by (simp add: er_started_def er_step.simps new_E2EDirectRoom_def er_begin_def isInitialized_def new_E2E_def er_spawn_def er_resume_def)
  then have "run_state ?step (new_E2EDirectRoom None) ?es = run_state ?step (er_end ?w 3 [] [] ErConnecting False [] 3) (drop 4 ?es)"
    unfolding er_started_end by (metis append_take_drop_id run_append)
  also have "\<dots> = ?s"
    using end_derives [OF secret_agreed(1) [OF toy_crypto_ok, where ka = 3 and kb = 4]] by (simp add: end_imports end_ready)
  finally have r: "?s = run_state ?step (new_E2EDirectRoom None) ?es" by simp
  have h: "hasEncryption ?s" "isInitialized (er_e2e ?s)" "\<not> er_closed ?s" "er_room ?s" "0 < er_listens ?s" "er_remote ?s = ''b''" "er_next ?s = 5"
    by (simp_all add: er_end_def hasEncryption_def hasKey_def map_has_get isInitialized_def)
  have "atob ''!'' = None" by code_simp
  then have "er_decrypt ?w (er_remote ?s) (JStr ''!'') (er_e2e ?s) = Inl ''InvalidCharacterError''"
    by (simp add: er_decrypt_def decrypt_def er_end_def base64ToArray_def)
  with undecryptable_message_downgrades [OF r h(1-5), of "encrypted_message ''!''" "_" "''a''" 0 "[([], JNum 7)]", OF _ _ _ refl] h
  show ?thesis by (intro exI [of _ ?s]) simp
qed

end
