(* ===== verification/Crdt_Props.thy ===== *)
theory Crdt_Props
  imports Crdt Crypto_Props
begin

text \<open>
  The simulation between a network of \<open>CRDTSync\<close> objects and the network of grow-only sets: every
  document is what Yjs makes of a set of updates, so objects with the same set hold the same document.
\<close>

section \<open>Documents and sets of updates\<close>

definition doc_of :: "'d yjs \<Rightarrow> bytes list \<Rightarrow> 'd" where
  "doc_of y us = fold (y_app y) us (y_new y)"

lemma fold_app_set:
  assumes "yjs_ok y" "set us = set vs"
  shows "fold (y_app y) us d = fold (y_app y) vs d"
proof -
  have "comp_fun_idem_on UNIV (y_app y)"
    using assms(1) by unfold_locales (auto simp: yjs_ok_def fun_eq_iff)
  then show ?thesis using assms(2) comp_fun_idem_on.fold_set_fold [of UNIV "y_app y"] by (metis subset_UNIV)
qed

text \<open>A message stands for a set of updates that has been sent, or asks for the state.\<close>

definition carries :: "'d yjs \<Rightarrow> bytes set set \<Rightarrow> bytes \<Rightarrow> bool" where
  "carries y S b \<longleftrightarrow> b \<noteq> [] \<and> (\<exists>us. set us \<in> S \<and> (\<forall>d. y_app y b d = fold (y_app y) us d))"

definition crdt_msg_ok :: "'d yjs \<Rightarrow> bytes set set \<Rightarrow> js \<Rightarrow> bool" where
  "crdt_msg_ok y S m \<longleftrightarrow>
     (\<exists>b. carries y S b \<and> (m = update_message (btoa b) \<or> (\<exists>room. m = state_message room (btoa b))))
     \<or> (\<exists>room. m = request_message room)"

lemma msg_ok_mono: "crdt_msg_ok y S m \<Longrightarrow> S \<subseteq> T \<Longrightarrow> crdt_msg_ok y T m"
  unfolding crdt_msg_ok_def carries_def by blast

lemma carries_update: "u \<noteq> [] \<Longrightarrow> carries y (insert {u} S) u"
  unfolding carries_def by (auto intro!: exI [of _ "[u]"])

lemma carries_state: "yjs_ok y \<Longrightarrow> set us = M \<Longrightarrow> carries y (insert M S) (y_encode y (doc_of y us))"
  unfolding carries_def yjs_ok_def doc_of_def by blast

lemma crdt_message_fields [simp]:
  "prop_opt (update_message t) ''_crdt_sync'' = JBool True" "prop_opt (update_message t) ''update'' = JStr t"
  "prop_opt (update_message t) ''_room'' = Undef" "prop_opt (update_message t) ''type'' = Undef"
  "prop_opt (state_message room t) ''_crdt_sync'' = JBool True" "prop_opt (state_message room t) ''update'' = JStr t"
  "prop_opt (state_message room t) ''_room'' = JStr room" "prop_opt (state_message room t) ''type'' = Undef"
  "prop_opt (request_message room) ''_crdt_sync'' = JBool True" "prop_opt (request_message room) ''update'' = Undef"
  "prop_opt (request_message room) ''_room'' = JStr room" "prop_opt (request_message room) ''type'' = JStr ''request_state''"
  by (simp_all add: update_message_def state_message_def request_message_def)

section \<open>What a replica does\<close>

definition cr_silent :: "cr_out set" where
  "cr_silent = {x. cr_sent [x] = {}}"

lemma silent_simps [simp]: "CrThrows \<in> cr_silent" "CrEmit n args \<in> cr_silent"
  by (simp_all add: cr_silent_def cr_sent_def)

lemma cr_sent_silent: "set out \<subseteq> cr_silent \<Longrightarrow> cr_sent out = {}"
  unfolding cr_silent_def cr_sent_def by auto

lemma onUpdate_remote: "times n (cr_onUpdate u ''remote'') s = (s, [])"
  using each_const [of "replicate n ()" "\<lambda>_. cr_onUpdate u ''remote''" s "\<lambda>_. []"] by (simp add: cr_onUpdate_def)

lemma onUpdate_local: "times n (cr_onUpdate u ''local'') s = (s, concat (replicate n [CrBroadcast (update_message (btoa u))]))"
  using each_const [of "replicate n ()" "\<lambda>_. cr_onUpdate u ''local''" s "\<lambda>_. [CrBroadcast (update_message (btoa u))]"]
  by (simp add: cr_onUpdate_def arrayToBase64_btoa map_replicate_const)

text \<open>Applying a message with the bytes \<open>b\<close>, once or through several listeners.\<close>

lemma applyRemote_doc:
  assumes "prop_opt p ''update'' = JStr (btoa b)"
  shows "cr_doc (fst (cr_applyRemote y p from s)) = map_option (y_app y b) (cr_doc s)
    \<and> set (snd (cr_applyRemote y p from s)) \<subseteq> cr_silent"
  using assms by (auto simp: cr_applyRemote_def base64ToArray_btoa onUpdate_remote y_app_def split: option.split)

definition took_in :: "'d yjs \<Rightarrow> bytes \<Rightarrow> 'd crdt \<Rightarrow> 'd crdt \<Rightarrow> bool" where
  "took_in y b s t \<longleftrightarrow> cr_doc t = cr_doc s \<or> cr_doc t = map_option (y_app y b) (cr_doc s)"

lemma took_in_apply:
  assumes "yjs_ok y" "took_in y b s t" "cr_doc u = map_option (y_app y b) (cr_doc t)"
  shows "took_in y b s u"
  using assms by (auto simp: took_in_def yjs_ok_def option.map_comp comp_def)

lemma broadcast_took:
  assumes "yjs_ok y" "prop_opt p ''update'' = JStr (btoa b)"
  shows "took_in y b s (fst (times n (cr_onBroadcast y from ns p) s)) \<and> set (snd (times n (cr_onBroadcast y from ns p) s)) \<subseteq> cr_silent"
proof (rule each_inv_out)
  fix t assume "took_in y b s t"
  with applyRemote_doc [OF assms(2), of y "from" t] took_in_apply [OF assms(1)]
  show "took_in y b s (fst (cr_onBroadcast y from ns p t)) \<and> set (snd (cr_onBroadcast y from ns p t)) \<subseteq> cr_silent"
    by (auto simp: cr_onBroadcast_def)
qed (simp add: took_in_def)

lemma relay_took:
  assumes "yjs_ok y" "prop_opt p ''update'' = JStr (btoa b)" "prop_opt p ''type'' = Undef"
  shows "took_in y b s (fst (times n (cr_onRelay y from p) s)) \<and> set (snd (times n (cr_onRelay y from p) s)) \<subseteq> cr_silent"
proof (rule each_inv_out)
  fix t assume "took_in y b s t"
  with applyRemote_doc [OF assms(2), of y "from" t] took_in_apply [OF assms(1)] assms(3)
  show "took_in y b s (fst (cr_onRelay y from p t)) \<and> set (snd (cr_onRelay y from p t)) \<subseteq> cr_silent"
    by (auto simp: cr_onRelay_def split_def Let_def)
qed (simp add: took_in_def)

text \<open>The messages that leave the document alone.\<close>

definition tells :: "'d yjs \<Rightarrow> 'd option \<Rightarrow> cr_out set" where
  "tells y doc = cr_silent \<union> {CrRelay fp (request_message room) |fp room. True}
     \<union> {CrRelay fp (state_message room (btoa (y_encode y d))) |fp room d. doc = Some d}"

lemma sendState_tells: "fst (cr_sendStateTo y fp s) = s \<and> set (snd (cr_sendStateTo y fp s)) \<subseteq> tells y (cr_doc s)"
  by (auto simp: cr_sendStateTo_def tells_def arrayToBase64_btoa split: option.split)

lemma asked_tells:
  "fst (times n (cr_onRelay y from (request_message room)) s) = s \<and> set (snd (times n (cr_onRelay y from (request_message room)) s)) \<subseteq> tells y (cr_doc s)"
proof (rule each_inv_out)
  fix t assume "t = s"
  with sendState_tells [of y "from" s]
  show "fst (cr_onRelay y from (request_message room) t) = s \<and> set (snd (cr_onRelay y from (request_message room) t)) \<subseteq> tells y (cr_doc s)"
    by (auto simp: cr_onRelay_def split_def Let_def)
qed simp

lemma joined_tells:
  "fst (times n (cr_sendStateTo y fp) s) = s \<and> set (snd (times n (cr_sendStateTo y fp) s)) \<subseteq> tells y (cr_doc s)"
  by (rule each_inv_out) (use sendState_tells [of y fp s] in auto)
section \<open>The simulation\<close>

definition rep_ok :: "'d yjs \<Rightarrow> 'd crdt \<Rightarrow> bytes set \<Rightarrow> bool" where
  "rep_ok y s S \<longleftrightarrow> (\<forall>d. cr_doc s = Some d \<longrightarrow> (\<exists>us. set us = S \<and> d = doc_of y us))"

definition represents :: "'d yjs \<Rightarrow> 'd cnet \<Rightarrow> gset \<Rightarrow> bool" where
  "represents y c a \<longleftrightarrow> (\<forall>i. rep_ok y (cn_rep c i) (gs_state a i)) \<and> (\<forall>m\<in>cn_msgs c. crdt_msg_ok y (gs_sent a) m)"

lemma rep_ok_app:
  assumes "rep_ok y s S" "cr_doc t = map_option (y_app y b) (cr_doc s)" "\<forall>d. y_app y b d = fold (y_app y) us d"
  shows "rep_ok y t (S \<union> set us)"
proof -
  have "\<exists>vs. set vs = S \<union> set us \<and> d' = doc_of y vs" if "cr_doc t = Some d'" for d'
  proof -
    from that assms(1,2) obtain ws where "set ws = S" "d' = y_app y b (doc_of y ws)" unfolding rep_ok_def by auto
    then show ?thesis using assms(3) by (intro exI [of _ "ws @ us"]) (auto simp: doc_of_def)
  qed
  then show ?thesis by (simp add: rep_ok_def)
qed

text \<open>A replica moves: the sets move the same way, in one step or none.\<close>

lemma sim_step:
  assumes y: "yjs_ok y" and a: "reachable gset_init gset_step a" and R: "represents y c a"
    and e: "cr_honest (cn_msgs c) e" "cr_step y (cn_rep c i) e = (t, out)"
  shows "\<exists>a'. reachable gset_init gset_step a'
    \<and> represents y (c\<lparr>cn_rep := (cn_rep c)(i := t), cn_msgs := cn_msgs c \<union> cr_sent out\<rparr>) a'"
proof -
  let ?s = "cn_rep c i" and ?S = "gs_state a i"
  let ?c' = "c\<lparr>cn_rep := (cn_rep c)(i := t), cn_msgs := cn_msgs c \<union> cr_sent out\<rparr>"
  have s: "rep_ok y ?s ?S" using R by (simp add: represents_def)
  have old: "crdt_msg_ok y T m" if "m \<in> cn_msgs c" "gs_sent a \<subseteq> T" for m T
    using R that msg_ok_mono unfolding represents_def by blast
  have same: ?thesis if "cr_doc t = cr_doc ?s \<or> cr_doc t = None" "cr_sent out = {}"
    using a R that s by (intro exI [of _ a]) (auto simp: represents_def rep_ok_def)
  have tells: ?thesis if "cr_doc t = cr_doc ?s \<or> cr_doc t = None" "set out \<subseteq> tells y (cr_doc ?s)"
  proof -
    let ?a = "a\<lparr>gs_sent := insert ?S (gs_sent a)\<rparr>"
    have "crdt_msg_ok y (gs_sent ?a) m" if "m \<in> cr_sent out" for m
    proof -
      from that \<open>set out \<subseteq> tells y (cr_doc ?s)\<close> consider room where "m = request_message room"
        | room d where "m = state_message room (btoa (y_encode y d))" "cr_doc ?s = Some d"
        unfolding tells_def cr_sent_def cr_silent_def by auto
      then show ?thesis
      proof cases
        case 2
        then obtain us where "set us = ?S" "d = doc_of y us" using s by (auto simp: rep_ok_def)
        with carries_state [OF y, of us ?S] 2 show ?thesis unfolding crdt_msg_ok_def by auto
      qed (auto simp: crdt_msg_ok_def)
    qed
    with R s that(1) have "represents y ?c' ?a" by (auto simp: represents_def rep_ok_def intro: old)
    with reachable.step [OF a gset_step.publish [of a i]] show ?thesis by blast
  qed
  have takes: ?thesis if t: "took_in y b ?s t" and o: "set out \<subseteq> cr_silent" and b: "carries y (gs_sent a) b" for b
  proof (cases "cr_doc t = cr_doc ?s")
    case True
    then show ?thesis using same cr_sent_silent [OF o] by simp
  next
    case False
    with t have d: "cr_doc t = map_option (y_app y b) (cr_doc ?s)" by (simp add: took_in_def)
    obtain us where us: "set us \<in> gs_sent a" "\<forall>d. y_app y b d = fold (y_app y) us d" using b by (auto simp: carries_def)
    let ?a = "a\<lparr>gs_state := (gs_state a)(i := ?S \<union> set us)\<rparr>"
    have "represents y ?c' ?a" using R rep_ok_app [OF s d us(2)] cr_sent_silent [OF o] by (auto simp: represents_def)
    with reachable.step [OF a receive [OF us(1), of i]] show ?thesis by blast
  qed
  have got: ?thesis if p: "p \<in> cn_msgs c"
    and e: "e = OnCrBroadcast f ns p \<or> e = OnCrRelay f p" for f ns p
  proof -
    from old [OF p order_refl] consider (upd) b where "carries y (gs_sent a) b" "prop_opt p ''update'' = JStr (btoa b)" "prop_opt p ''type'' = Undef"
      | (ask) room where "p = request_message room" unfolding crdt_msg_ok_def by auto
    then show ?thesis
    proof cases
      case upd
      from e show ?thesis
      proof
        assume "e = OnCrBroadcast f ns p"
        with broadcast_took [OF y upd(2), where s = ?s and n = "cr_listens ?s" and ns = ns, of f] assms(5) show ?thesis by (intro takes [OF _ _ upd(1)]) auto
      next
        assume "e = OnCrRelay f p"
        with relay_took [OF y upd(2,3), where s = ?s and n = "cr_listens ?s", of f] assms(5) show ?thesis by (intro takes [OF _ _ upd(1)]) auto
      qed
    next
      case ask
      have "times n (cr_onBroadcast y f ns p) ?s = (?s, [])" for n
        using each_const [of "replicate n ()" "\<lambda>_. cr_onBroadcast y f ns p" ?s "\<lambda>_. []"] by (simp add: cr_onBroadcast_def ask)
      with e asked_tells [where n = "cr_listens ?s" and y = y and room = room and s = ?s, of f] assms(5) show ?thesis
        using tells same by (auto simp: ask cr_sent_def)
    qed
  qed
  show ?thesis
  proof (cases e)
    case (CrEdit u)
    show ?thesis
    proof (cases "cr_doc ?s")
      case None
      with CrEdit assms(5) show ?thesis by (intro same) (auto simp: cr_edit_def cr_sent_def)
    next
      case (Some d)
      let ?a = "a\<lparr>gs_state := (gs_state a)(i := insert u ?S), gs_sent := insert {u} (gs_sent a)\<rparr>"
      have t: "cr_doc t = map_option (y_app y u) (cr_doc ?s)" "cr_sent out \<subseteq> {update_message (btoa u)}"
        using CrEdit assms(5) Some by (auto simp: cr_edit_def onUpdate_local cr_sent_def)
      have "rep_ok y t (insert u ?S)" using rep_ok_app [OF s t(1), of "[u]"] by simp
      moreover have "crdt_msg_ok y (insert {u} (gs_sent a)) (update_message (btoa u))"
        using carries_update [of u y] assms(4) CrEdit unfolding crdt_msg_ok_def by auto
      ultimately have "represents y ?c' ?a" using R t(2) by (auto simp: represents_def intro: old)
      with reachable.step [OF a gset_step.add [where a = a and i = i and u = u]] show ?thesis by blast
    qed
  next
    case (OnCrBroadcast f ns p)
    with got assms(4) show ?thesis by simp
  next
    case (OnCrRelay f p)
    with got assms(4) show ?thesis by simp
  next
    case (OnCrJoined fp)
    with joined_tells [where n = "cr_listens ?s" and y = y and fp = fp and s = ?s] assms(5) show ?thesis by (intro tells) auto
  next
    case CrStart
    with assms(5) show ?thesis by (intro same) (auto simp: cr_start_def cr_sent_def split: if_splits)
  next
    case (CrRequest fp)
    with assms(5) show ?thesis by (intro tells) (auto simp: cr_requestFullState_def tells_def)
  next
    case CrDestroy
    with assms(5) show ?thesis by (intro same) (auto simp: cr_destroy_def cr_sent_def)
  qed
qed

interpretation crdt_network: inv_system "cnet_init y room" "cnet_step y"
    "\<lambda>c. yjs_ok y \<longrightarrow> (\<exists>a. reachable gset_init gset_step a \<and> represents y c a)" for y room
proof unfold_locales
  fix c assume "cnet_init y room c"
  then have "represents y c \<lparr>gs_state = (\<lambda>i. {}), gs_sent = {}\<rparr>"
    by (auto simp: cnet_init_def represents_def rep_ok_def new_CRDTSync_def doc_of_def intro!: exI [of _ "[]"])
  then show "yjs_ok y \<longrightarrow> (\<exists>a. reachable gset_init gset_step a \<and> represents y c a)"
    by (intro impI exI conjI reachable.start) (auto simp: gset_init_def)
next
  fix c e c' assume "cnet_step y c e c'" "yjs_ok y \<longrightarrow> (\<exists>a. reachable gset_init gset_step a \<and> represents y c a)"
  then show "yjs_ok y \<longrightarrow> (\<exists>a. reachable gset_init gset_step a \<and> represents y c' a)"
    by (cases rule: cnet_step.cases) (blast dest: sim_step)
qed


text \<open>A document that is a set of bytes; an update carries the bytes after its first.\<close>

definition toy_yjs :: "8 word set yjs" where
  "toy_yjs = \<lparr>y_new = {}, y_apply = (\<lambda>u d. Some (d \<union> set (tl u))), y_encode = (\<lambda>d. 0 # sorted_list_of_set d)\<rparr>"

lemma toy_yjs_ok: "yjs_ok toy_yjs"
proof -
  have app: "y_app toy_yjs u d = d \<union> set (tl u)" for u d by (simp add: y_app_def toy_yjs_def)
  have f: "fold (y_app toy_yjs) us d = d \<union> (\<Union>u\<in>set us. set (tl u))" for us d
    by (induction us arbitrary: d) (auto simp: app)
  have e: "set (tl (y_encode toy_yjs d)) = d" "y_encode toy_yjs d \<noteq> []" "y_new toy_yjs = {}" for d
    by (simp_all add: toy_yjs_def)
  show ?thesis unfolding yjs_ok_def f app e by (simp add: e Un_ac)
qed

definition cn_pair :: "8 word set crdt \<Rightarrow> 8 word set crdt \<Rightarrow> js set \<Rightarrow> 8 word set cnet" where
  "cn_pair a b ms = \<lparr>cn_rep = (\<lambda>i. if i = 0 then a else if i = 1 then b else new_CRDTSync toy_yjs ''r''), cn_msgs = ms\<rparr>"

lemma pair_steps:
  assumes "reachable (cnet_init toy_yjs ''r'') (cnet_step toy_yjs) (cn_pair a b ms)" "cr_honest ms e"
  shows "cr_step toy_yjs a e = (t, out) \<Longrightarrow> reachable (cnet_init toy_yjs ''r'') (cnet_step toy_yjs) (cn_pair t b (ms \<union> cr_sent out))"
    "cr_step toy_yjs b e = (t, out) \<Longrightarrow> reachable (cnet_init toy_yjs ''r'') (cnet_step toy_yjs) (cn_pair a t (ms \<union> cr_sent out))"
proof -
  have p: "cn_msgs (cn_pair a b ms) = ms" "cn_rep (cn_pair a b ms) 0 = a" "cn_rep (cn_pair a b ms) 1 = b"
    "(cn_pair a b ms)\<lparr>cn_rep := (cn_rep (cn_pair a b ms))(0 := t), cn_msgs := ns\<rparr> = cn_pair t b ns"
    "(cn_pair a b ms)\<lparr>cn_rep := (cn_rep (cn_pair a b ms))(1 := t), cn_msgs := ns\<rparr> = cn_pair a t ns" for t ns
    by (auto simp: cn_pair_def fun_eq_iff)
  show "cr_step toy_yjs a e = (t, out) \<Longrightarrow> reachable (cnet_init toy_yjs ''r'') (cnet_step toy_yjs) (cn_pair t b (ms \<union> cr_sent out))"
    using reachable.step [OF assms(1) act [where c = "cn_pair a b ms" and e = e and i = 0 and t = t and out = out, unfolded p, OF assms(2)]] by blast
  show "cr_step toy_yjs b e = (t, out) \<Longrightarrow> reachable (cnet_init toy_yjs ''r'') (cnet_step toy_yjs) (cn_pair a t (ms \<union> cr_sent out))"
    using reachable.step [OF assms(1) act [where c = "cn_pair a b ms" and e = e and i = 1 and t = t and out = out, unfolded p, OF assms(2)]] by blast
qed


end
