(* ===== verification/Media.thy ===== *)
theory Media
  imports Room
begin

text \<open>
  The classes \<open>DirectMedia\<close> and \<open>GroupMedia\<close> of packages/peer-client/src/media.ts, composed with the
  client they are built on as the rooms are.  A local stream is a list of tracks in a heap of all the streams
  \<open>getUserMedia\<close> has returned; a call that awaits it is an entry of \<open>md_starting\<close>, and the browser's
  answer is an event.  A remote stream is a number.
\<close>

section \<open>Shared by both classes\<close>

record mtrack =
  tk_audio :: bool                       \<comment> \<open>otherwise video\<close>
  tk_enabled :: bool
  tk_live :: bool                        \<comment> \<open>\<open>stop\<close> has not been called\<close>

datatype media_call = StartOnly | CreateAndJoin | JoinAndStart

record media =
  md_id :: string
  md_streams :: "mtrack list list"
  md_local :: "nat option"               \<comment> \<open>\<open>localStream\<close>\<close>
  md_closed :: bool
  md_listens :: nat
  md_awaits :: "(nat \<times> bool) list"       \<comment> \<open>requests awaited by \<open>createAndJoin\<close> and \<open>joinAndStart\<close>\<close>
  md_starting :: "(nat \<times> media_call) list"
  md_next :: nat
  md_subs :: "(nat \<times> string) list"       \<comment> \<open>listeners attached to peers\<close>

datatype media_out =
    MClient client_out
  | MEmit string "js list"
  | MGetUserMedia js js                  \<comment> \<open>audio, video\<close>
  | MAddStream nat nat                   \<comment> \<open>peer, stream\<close>

definition md_begin :: "media_call \<Rightarrow> js \<Rightarrow> 'a media_scheme \<Rightarrow> 'a media_scheme \<times> media_out list" where
  "md_begin how config g =
     (g\<lparr>md_starting := md_starting g @ [(md_next g, how)], md_next := Suc (md_next g)\<rparr>,
      [MGetUserMedia (coalesce (prop_opt config ''audio'') (JBool True)) (coalesce (prop_opt config ''video'') (JBool True))])"

text \<open>\<open>start\<close> once the browser has answered, and which method goes on.\<close>

definition md_started :: "nat \<Rightarrow> mtrack list option \<Rightarrow> 'a media_scheme \<Rightarrow> media_call option \<times> 'a media_scheme \<times> media_out list" where
  "md_started i tracks g =
     (case map_get (md_starting g) i of
        None \<Rightarrow> (None, g, [])
      | Some how \<Rightarrow>
          (let g1 = g\<lparr>md_starting := map_del i (md_starting g)\<rparr> in
           case tracks of
             None \<Rightarrow> (None, g1, [])
           | Some ts \<Rightarrow>
               (Some how, g1\<lparr>md_streams := md_streams g1 @ [ts], md_local := Some (length (md_streams g1))\<rparr>,
                [MEmit ''local_stream'' [JNum (int (length (md_streams g1)))]])))"

definition md_local_tracks :: "'a media_scheme \<Rightarrow> mtrack list" where
  "md_local_tracks g = (case md_local g of None \<Rightarrow> [] | Some i \<Rightarrow> md_streams g ! i)"

definition md_map_local :: "(mtrack \<Rightarrow> mtrack) \<Rightarrow> 'a media_scheme \<Rightarrow> 'a media_scheme" where
  "md_map_local f g = (case md_local g of None \<Rightarrow> g | Some i \<Rightarrow> g\<lparr>md_streams := (md_streams g)[i := map f (md_streams g ! i)]\<rparr>)"

definition md_enable :: "bool \<Rightarrow> bool \<Rightarrow> 'a media_scheme \<Rightarrow> 'a media_scheme \<times> media_out list" where
  "md_enable audio b g =
     (md_map_local (\<lambda>t. if tk_audio t = audio then t\<lparr>tk_enabled := b\<rparr> else t) g,
      [MEmit (if b then ''unmuted'' else ''muted'') [JStr (if audio then ''audio'' else ''video'')]])"

definition md_muted :: "bool \<Rightarrow> 'a media_scheme \<Rightarrow> bool" where
  "md_muted audio g = (case filter (\<lambda>t. tk_audio t = audio) (md_local_tracks g) of [] \<Rightarrow> True | t # _ \<Rightarrow> \<not> tk_enabled t)"

text \<open>The streams part of \<open>close\<close>.\<close>

definition md_shut :: "'a media_scheme \<Rightarrow> 'a media_scheme" where
  "md_shut g = (md_map_local (\<lambda>t. t\<lparr>tk_live := False\<rparr>) g)\<lparr>md_closed := True, md_listens := 0, md_local := None\<rparr>"

text \<open>The end of \<open>connectTo\<close>: \<open>addStream\<close>, the listeners on the peer and the offer.\<close>

definition md_call :: "nat \<Rightarrow> string \<Rightarrow> 'a media_scheme \<Rightarrow> 'a media_scheme \<times> media_out list" where
  "md_call r fp g =
     (g\<lparr>md_subs := md_subs g @ [(r, fp)]\<rparr>,
      (case md_local g of None \<Rightarrow> [] | Some i \<Rightarrow> [MAddStream r i]) @ [MClient (PeerOffer r)])"

definition md_peer_subs :: "nat \<Rightarrow> client \<Rightarrow> 'a media_scheme \<Rightarrow> string list" where
  "md_peer_subs r c g =
     (if r < length (c_heap c) \<and> \<not> cp_closed (c_heap c ! r) then map snd (filter (\<lambda>e. fst e = r) (md_subs g)) else [])"

section \<open>\<open>GroupMedia\<close>\<close>

record group_media = media +
  gm_remote :: "(string, nat) jsmap"     \<comment> \<open>\<open>remoteStreams\<close>\<close>
  gm_peers :: "(string, nat) jsmap"      \<comment> \<open>\<open>mediaPeers\<close>\<close>

type_synonym gmsys = "client \<times> group_media"

definition new_GroupMedia :: "string \<Rightarrow> group_media" where
  "new_GroupMedia room = \<lparr>md_id = room, md_streams = [], md_local = None, md_closed = False, md_listens = 0, md_awaits = [],
     md_starting = [], md_next = 0, md_subs = [], gm_remote = [], gm_peers = []\<rparr>"

definition gm_media :: "nat \<Rightarrow> mtrack list option \<Rightarrow> gmsys \<Rightarrow> gmsys \<times> media_out list" where
  "gm_media i tracks = (\<lambda>(c, g).
     (let (how, g1, o1) = md_started i tracks g in
      case how of
        Some CreateAndJoin \<Rightarrow>
          (let (c1, o2) = createRoom (md_id g1) (JNum (int MAX_MEDIA_PEERS)) c
           in ((c1, g1\<lparr>md_awaits := map_set (length (c_reqs c)) False (md_awaits g1)\<rparr>), o1 @ map MClient o2))
      | Some JoinAndStart \<Rightarrow>
          (let (c1, o2) = joinRoom (md_id g1) c
           in ((c1, g1\<lparr>md_awaits := map_set (length (c_reqs c)) True (md_awaits g1)\<rparr>), o1 @ map MClient o2))
      | _ \<Rightarrow> ((c, g1), o1)))"

definition gm_connectTo :: "string \<Rightarrow> string \<Rightarrow> gmsys \<Rightarrow> gmsys \<times> media_out list" where
  "gm_connectTo fp al = (\<lambda>(c, g).
     (if map_has (gm_peers g) fp then ((c, g), [])
      else
        (let (c1, r, o1) = createPeer fp al c;
             (g1, o2) = md_call r fp (g\<lparr>gm_peers := map_set fp r (gm_peers g)\<rparr>)
         in ((c1, g1), map MClient o1 @ o2))))"

definition gm_invite :: "string \<times> string \<Rightarrow> gmsys \<Rightarrow> gmsys \<times> media_out list" where
  "gm_invite p s = (if length (gm_peers (snd s)) < MAX_MEDIA_PEERS - 1 then gm_connectTo (fst p) (snd p) s else (s, []))"

definition gm_close :: "gmsys \<Rightarrow> gmsys \<times> media_out list" where
  "gm_close = (\<lambda>(c, g).
     (if md_closed g then ((c, g), [])
      else
        (let (c1, o1) = close_all (map_vals (gm_peers g)) c; (c2, o2) = leave (md_id g) c1
         in ((c2, (md_shut g)\<lparr>gm_peers := [], gm_remote := []\<rparr>), map MClient (o1 @ o2) @ [MEmit ''closed'' []]))))"

definition gm_onJoined :: "js \<Rightarrow> gmsys \<Rightarrow> gmsys \<times> media_out list" where
  "gm_onJoined info s =
     (let (s1, o1) = (case peer_entry info of None \<Rightarrow> (s, []) | Some p \<Rightarrow> gm_invite p s) in (s1, MEmit ''peer_joined'' [info] # o1))"

definition gm_onLeft :: "js \<Rightarrow> gmsys \<Rightarrow> gmsys \<times> media_out list" where
  "gm_onLeft fp = (\<lambda>(c, g).
     (let (c1, o1) = (case js_get (gm_peers g) fp of None \<Rightarrow> (c, []) | Some r \<Rightarrow> peer_close r c)
      in ((c1, g\<lparr>gm_peers := js_del fp (gm_peers g), gm_remote := js_del fp (gm_remote g)\<rparr>),
          map MClient o1 @ (if js_get (gm_remote g) fp \<noteq> None then [MEmit ''remote_stream_removed'' [fp]] else []) @ [MEmit ''peer_left'' [fp]])))"

definition gm_onKicked :: "js \<Rightarrow> gmsys \<Rightarrow> gmsys \<times> media_out list" where
  "gm_onKicked payload = (\<lambda>(c, g). if prop_opt payload ''room_id'' = JStr (md_id g) then gm_close (c, g) else ((c, g), []))"

definition gm_listener :: "client_out \<Rightarrow> gmsys \<Rightarrow> gmsys \<times> media_out list" where
  "gm_listener out = (case out of
      Emit ev args \<Rightarrow>
        (if ev = ''peer_joined'' then (case args of [info] \<Rightarrow> gm_onJoined info | _ \<Rightarrow> (\<lambda>s. (s, [])))
         else if ev = ''peer_left'' then (case args of [fp, ns] \<Rightarrow> gm_onLeft fp | _ \<Rightarrow> (\<lambda>s. (s, [])))
         else if ev = ''kicked'' then (case args of [p] \<Rightarrow> gm_onKicked p | _ \<Rightarrow> (\<lambda>s. (s, [])))
         else (\<lambda>s. (s, [])))
    | _ \<Rightarrow> (\<lambda>s. (s, [])))"

definition gm_dispatch :: "client_out \<Rightarrow> gmsys \<Rightarrow> gmsys \<times> media_out list" where
  "gm_dispatch out s = (let (s1, o1) = times (md_listens (snd s)) (gm_listener out) s in (s1, MClient out # o1))"

text \<open>\<open>createAndJoin\<close> and \<open>joinAndStart\<close> once their request is settled.\<close>

definition gm_resume :: "nat \<Rightarrow> gmsys \<Rightarrow> gmsys \<times> media_out list" where
  "gm_resume i = (\<lambda>(c, g).
     (case map_get (md_awaits g) i of
        None \<Rightarrow> ((c, g), [])
      | Some isJoin \<Rightarrow>
          (let g1 = g\<lparr>md_awaits := map_del i (md_awaits g)\<rparr> in
           case rq_promise (c_reqs c ! i) of
             Waiting \<Rightarrow> ((c, g), [])
           | Failed e \<Rightarrow> ((c, g1), [])
           | Fulfilled v \<Rightarrow>
               (let g2 = g1\<lparr>md_listens := Suc (md_listens g1)\<rparr> in
                if isJoin then each gm_invite (filter (other_than c) (peer_entries v)) (c, g2)
                else ((c, g2), [])))))"

text \<open>The listeners on a peer.\<close>

definition gm_onStream :: "nat \<Rightarrow> string \<Rightarrow> gmsys \<Rightarrow> gmsys \<times> media_out list" where
  "gm_onStream sid fp = (\<lambda>(c, g). ((c, g\<lparr>gm_remote := map_set fp sid (gm_remote g)\<rparr>), [MEmit ''remote_stream'' [JNum (int sid), JStr fp]]))"

definition gm_onGone :: "string \<Rightarrow> gmsys \<Rightarrow> gmsys \<times> media_out list" where
  "gm_onGone fp = (\<lambda>(c, g).
     ((c, g\<lparr>gm_peers := map_del fp (gm_peers g), gm_remote := map_del fp (gm_remote g)\<rparr>),
      if map_has (gm_remote g) fp then [MEmit ''remote_stream_removed'' [JStr fp]] else []))"

definition gm_muteAudio :: "group_media \<Rightarrow> group_media \<times> media_out list" where "gm_muteAudio = md_enable True False"
definition gm_unmuteAudio :: "group_media \<Rightarrow> group_media \<times> media_out list" where "gm_unmuteAudio = md_enable True True"
definition gm_muteVideo :: "group_media \<Rightarrow> group_media \<times> media_out list" where "gm_muteVideo = md_enable False False"
definition gm_unmuteVideo :: "group_media \<Rightarrow> group_media \<times> media_out list" where "gm_unmuteVideo = md_enable False True"
definition gm_isAudioMuted :: "group_media \<Rightarrow> bool" where "gm_isAudioMuted = md_muted True"
definition gm_isVideoMuted :: "group_media \<Rightarrow> bool" where "gm_isVideoMuted = md_muted False"
definition gm_getPeerCount :: "group_media \<Rightarrow> nat" where "gm_getPeerCount g = length (gm_peers g)"

datatype gm_event =
    GmClient client_event
  | GmStart media_call js
  | GmMedia nat "mtrack list option"     \<comment> \<open>\<open>getUserMedia\<close> is settled\<close>
  | GmResume nat
  | GmPeerStream nat nat
  | GmMuteAudio
  | GmUnmuteAudio
  | GmMuteVideo
  | GmUnmuteVideo
  | GmKick string
  | GmClose

fun gm_step ::
  "(string \<Rightarrow> js option) \<Rightarrow> (js \<Rightarrow> js) \<Rightarrow> client_config \<Rightarrow> gmsys \<Rightarrow> gm_event \<Rightarrow> gmsys \<times> media_out list" where
  "gm_step parse stringify cfg (c, g) (GmClient (PeerState r st)) =
     (if st \<in> {''disconnected'', ''failed'', ''closed''} then each gm_onGone (md_peer_subs r c g) (peer_state r st c, g)
      else ((peer_state r st c, g), []))"
| "gm_step parse stringify cfg (c, g) (GmClient e) =
     (let (c1, out) = client_step parse stringify cfg c e in each gm_dispatch out (c1, g))"
| "gm_step parse stringify cfg (c, g) (GmStart how config) = (let (g1, out) = md_begin how config g in ((c, g1), out))"
| "gm_step parse stringify cfg s (GmMedia i tracks) = gm_media i tracks s"
| "gm_step parse stringify cfg s (GmResume i) = gm_resume i s"
| "gm_step parse stringify cfg (c, g) (GmPeerStream r sid) = each (gm_onStream sid) (md_peer_subs r c g) (c, g)"
| "gm_step parse stringify cfg (c, g) GmMuteAudio = (let (g1, out) = gm_muteAudio g in ((c, g1), out))"
| "gm_step parse stringify cfg (c, g) GmUnmuteAudio = (let (g1, out) = gm_unmuteAudio g in ((c, g1), out))"
| "gm_step parse stringify cfg (c, g) GmMuteVideo = (let (g1, out) = gm_muteVideo g in ((c, g1), out))"
| "gm_step parse stringify cfg (c, g) GmUnmuteVideo = (let (g1, out) = gm_unmuteVideo g in ((c, g1), out))"
| "gm_step parse stringify cfg (c, g) (GmKick fp) = ((c, g), map MClient (kick (md_id g) fp))"
| "gm_step parse stringify cfg s GmClose = gm_close s"

section \<open>\<open>DirectMedia\<close>\<close>

record direct_media = media +
  dm_remoteStream :: "nat option"
  dm_remotePeer :: "nat option"
  dm_fp :: string                        \<comment> \<open>\<open>remoteFingerprint\<close>\<close>

type_synonym dmsys = "client \<times> direct_media"

definition new_DirectMedia :: "string \<Rightarrow> direct_media" where
  "new_DirectMedia room = \<lparr>md_id = room, md_streams = [], md_local = None, md_closed = False, md_listens = 0, md_awaits = [],
     md_starting = [], md_next = 0, md_subs = [], dm_remoteStream = None, dm_remotePeer = None, dm_fp = []\<rparr>"

definition dm_media :: "nat \<Rightarrow> mtrack list option \<Rightarrow> dmsys \<Rightarrow> dmsys \<times> media_out list" where
  "dm_media i tracks = (\<lambda>(c, g).
     (let (how, g1, o1) = md_started i tracks g in
      case how of
        Some CreateAndJoin \<Rightarrow>
          (let (c1, o2) = createRoom (md_id g1) (JNum 2) c
           in ((c1, g1\<lparr>md_awaits := map_set (length (c_reqs c)) False (md_awaits g1)\<rparr>), o1 @ map MClient o2))
      | Some JoinAndStart \<Rightarrow>
          (let (c1, o2) = joinRoom (md_id g1) c
           in ((c1, g1\<lparr>md_awaits := map_set (length (c_reqs c)) True (md_awaits g1)\<rparr>), o1 @ map MClient o2))
      | _ \<Rightarrow> ((c, g1), o1)))"

definition dm_connectTo :: "string \<Rightarrow> string \<Rightarrow> dmsys \<Rightarrow> dmsys \<times> media_out list" where
  "dm_connectTo fp al = (\<lambda>(c, g).
     (let (c1, r, o1) = createPeer fp al c;
          (g1, o2) = md_call r fp (g\<lparr>dm_fp := fp, dm_remotePeer := Some r\<rparr>)
      in ((c1, g1), map MClient o1 @ o2)))"

definition dm_close :: "dmsys \<Rightarrow> dmsys \<times> media_out list" where
  "dm_close = (\<lambda>(c, g).
     (if md_closed g then ((c, g), [])
      else
        (let (c1, o1) = (case dm_remotePeer g of None \<Rightarrow> (c, []) | Some r \<Rightarrow> peer_close r c); (c2, o2) = leave (md_id g) c1
         in ((c2, (md_shut g)\<lparr>dm_remoteStream := None, dm_remotePeer := None\<rparr>), map MClient (o1 @ o2) @ [MEmit ''closed'' []]))))"

definition dm_onJoined :: "js \<Rightarrow> dmsys \<Rightarrow> dmsys \<times> media_out list" where
  "dm_onJoined info s =
     (let (s1, o1) = (case (dm_remotePeer (snd s), peer_entry info) of
                        (None, Some (fp, al)) \<Rightarrow> dm_connectTo fp al s | _ \<Rightarrow> (s, []))
      in (s1, MEmit ''peer_joined'' [info] # o1))"

definition dm_onLeft :: "js \<Rightarrow> dmsys \<Rightarrow> dmsys \<times> media_out list" where
  "dm_onLeft fp = (\<lambda>(c, g).
     (if fp = JStr (dm_fp g)
      then ((c, g\<lparr>dm_remotePeer := None, dm_fp := [], dm_remoteStream := None\<rparr>),
            [MEmit ''remote_stream_removed'' [fp], MEmit ''peer_left'' [fp]])
      else ((c, g), [])))"

definition dm_onKicked :: "js \<Rightarrow> dmsys \<Rightarrow> dmsys \<times> media_out list" where
  "dm_onKicked payload = (\<lambda>(c, g). if prop_opt payload ''room_id'' = JStr (md_id g) then dm_close (c, g) else ((c, g), []))"

definition dm_listener :: "client_out \<Rightarrow> dmsys \<Rightarrow> dmsys \<times> media_out list" where
  "dm_listener out = (case out of
      Emit ev args \<Rightarrow>
        (if ev = ''peer_joined'' then (case args of [info] \<Rightarrow> dm_onJoined info | _ \<Rightarrow> (\<lambda>s. (s, [])))
         else if ev = ''peer_left'' then (case args of [fp, ns] \<Rightarrow> dm_onLeft fp | _ \<Rightarrow> (\<lambda>s. (s, [])))
         else if ev = ''kicked'' then (case args of [p] \<Rightarrow> dm_onKicked p | _ \<Rightarrow> (\<lambda>s. (s, [])))
         else (\<lambda>s. (s, [])))
    | _ \<Rightarrow> (\<lambda>s. (s, [])))"

definition dm_dispatch :: "client_out \<Rightarrow> dmsys \<Rightarrow> dmsys \<times> media_out list" where
  "dm_dispatch out s = (let (s1, o1) = times (md_listens (snd s)) (dm_listener out) s in (s1, MClient out # o1))"

text \<open>\<open>createAndJoin\<close> reports a failed \<open>createRoom\<close> and listens all the same.\<close>

definition dm_resume :: "nat \<Rightarrow> dmsys \<Rightarrow> dmsys \<times> media_out list" where
  "dm_resume i = (\<lambda>(c, g).
     (case map_get (md_awaits g) i of
        None \<Rightarrow> ((c, g), [])
      | Some isJoin \<Rightarrow>
          (let g1 = g\<lparr>md_awaits := map_del i (md_awaits g)\<rparr>; g2 = g1\<lparr>md_listens := Suc (md_listens g1)\<rparr> in
           case rq_promise (c_reqs c ! i) of
             Waiting \<Rightarrow> ((c, g), [])
           | Failed e \<Rightarrow> if isJoin then ((c, g1), []) else ((c, g2), [MEmit ''error'' [e]])
           | Fulfilled v \<Rightarrow>
               (if isJoin then (case find (other_than c) (peer_entries v) of
                                  None \<Rightarrow> ((c, g2), []) | Some (fp, al) \<Rightarrow> dm_connectTo fp al (c, g2))
                else ((c, g2), [])))))"

definition dm_onStream :: "nat \<Rightarrow> string \<Rightarrow> dmsys \<Rightarrow> dmsys \<times> media_out list" where
  "dm_onStream sid fp = (\<lambda>(c, g). ((c, g\<lparr>dm_remoteStream := Some sid\<rparr>), [MEmit ''remote_stream'' [JNum (int sid), JStr fp]]))"

definition dm_onGone :: "string \<Rightarrow> dmsys \<Rightarrow> dmsys \<times> media_out list" where
  "dm_onGone fp = (\<lambda>(c, g). ((c, g\<lparr>dm_remoteStream := None\<rparr>),
     [MEmit ''remote_stream_removed'' [JStr fp], MEmit ''peer_left'' [JStr fp]]))"

definition dm_muteAudio :: "direct_media \<Rightarrow> direct_media \<times> media_out list" where "dm_muteAudio = md_enable True False"
definition dm_unmuteAudio :: "direct_media \<Rightarrow> direct_media \<times> media_out list" where "dm_unmuteAudio = md_enable True True"
definition dm_muteVideo :: "direct_media \<Rightarrow> direct_media \<times> media_out list" where "dm_muteVideo = md_enable False False"
definition dm_unmuteVideo :: "direct_media \<Rightarrow> direct_media \<times> media_out list" where "dm_unmuteVideo = md_enable False True"
definition dm_isAudioMuted :: "direct_media \<Rightarrow> bool" where "dm_isAudioMuted = md_muted True"
definition dm_isVideoMuted :: "direct_media \<Rightarrow> bool" where "dm_isVideoMuted = md_muted False"

datatype dm_event =
    DmClient client_event
  | DmStart media_call js
  | DmMedia nat "mtrack list option"
  | DmResume nat
  | DmPeerStream nat nat
  | DmMuteAudio
  | DmUnmuteAudio
  | DmMuteVideo
  | DmUnmuteVideo
  | DmClose

fun dm_step ::
  "(string \<Rightarrow> js option) \<Rightarrow> (js \<Rightarrow> js) \<Rightarrow> client_config \<Rightarrow> dmsys \<Rightarrow> dm_event \<Rightarrow> dmsys \<times> media_out list" where
  "dm_step parse stringify cfg (c, g) (DmClient (PeerState r st)) =
     (if st \<in> {''disconnected'', ''failed'', ''closed''} then each dm_onGone (md_peer_subs r c g) (peer_state r st c, g)
      else ((peer_state r st c, g), []))"
| "dm_step parse stringify cfg (c, g) (DmClient e) =
     (let (c1, out) = client_step parse stringify cfg c e in each dm_dispatch out (c1, g))"
| "dm_step parse stringify cfg (c, g) (DmStart how config) = (let (g1, out) = md_begin how config g in ((c, g1), out))"
| "dm_step parse stringify cfg s (DmMedia i tracks) = dm_media i tracks s"
| "dm_step parse stringify cfg s (DmResume i) = dm_resume i s"
| "dm_step parse stringify cfg (c, g) (DmPeerStream r sid) = each (dm_onStream sid) (md_peer_subs r c g) (c, g)"
| "dm_step parse stringify cfg (c, g) DmMuteAudio = (let (g1, out) = dm_muteAudio g in ((c, g1), out))"
| "dm_step parse stringify cfg (c, g) DmUnmuteAudio = (let (g1, out) = dm_unmuteAudio g in ((c, g1), out))"
| "dm_step parse stringify cfg (c, g) DmMuteVideo = (let (g1, out) = dm_muteVideo g in ((c, g1), out))"
| "dm_step parse stringify cfg (c, g) DmUnmuteVideo = (let (g1, out) = dm_unmuteVideo g in ((c, g1), out))"
| "dm_step parse stringify cfg s DmClose = dm_close s"

end
