(* ===== verification/Media_Props.thy ===== *)
theory Media_Props
  imports Media Room_Props
begin

text \<open>
  The properties of the media classes: the invariant of a group call in every state of the call and its
  client, the peers of other rooms a call takes in, and the camera a call leaves on.
\<close>

section \<open>The invariant of a group call\<close>

definition gm_wf :: "client \<Rightarrow> group_media \<Rightarrow> bool" where
  "gm_wf c g = (map_wf (gm_peers g) \<and> length (gm_peers g) \<le> MAX_MEDIA_PEERS - 1 \<and> map_wf (gm_remote g)
     \<and> entries_ok c (set (gm_peers g)) \<and> entries_ok c (prod.swap ` set (md_subs g))
     \<and> (\<forall>i. md_local g = Some i \<longrightarrow> i < length (md_streams g)))"

definition gm_inv :: "gmsys \<Rightarrow> bool" where
  "gm_inv = (\<lambda>(c, g). client_inv c \<and> gm_wf c g)"

lemma gm_inv_client: "gm_inv (c, g) \<Longrightarrow> client_ok c c' \<Longrightarrow> gm_inv (c', g)"
  unfolding gm_inv_def gm_wf_def using client_ok_inv entries_ok_mono by (auto simp: client_ok_def)

text \<open>What \<open>gm_wf\<close> reads of a call.\<close>

lemma gm_inv_frame:
  assumes "gm_inv (c, g)" "gm_peers g' = gm_peers g" "gm_remote g' = gm_remote g" "md_subs g' = md_subs g"
    "md_local g' = md_local g" "length (md_streams g') = length (md_streams g)"
  shows "gm_inv (c, g')"
  using assms by (simp add: gm_inv_def gm_wf_def)

lemma map_local_fields [simp]:
  "gm_peers (md_map_local f g) = gm_peers g" "gm_remote (md_map_local f g) = gm_remote g"
  "md_subs (md_map_local f h) = md_subs h" "md_local (md_map_local f h) = md_local h"
  "length (md_streams (md_map_local f h)) = length (md_streams h)" "md_id (md_map_local f h) = md_id h"
  by (simp_all add: md_map_local_def split: option.split)

lemma createPeer_ref:
  assumes "peers_inv c"
  shows "fst (snd (createPeer fp al c)) < length (c_heap (fst (createPeer fp al c)))
    \<and> cp_fp (c_heap (fst (createPeer fp al c)) ! fst (snd (createPeer fp al c))) = fp"
  using assms by (auto simp: createPeer_def peers_inv_def Let_def nth_append split: option.split)

lemma gm_connectTo_inv:
  assumes i: "gm_inv (c, g)" and n: "length (gm_peers g) < MAX_MEDIA_PEERS - 1"
  shows "gm_inv (fst (gm_connectTo fp al (c, g)))"
proof (cases "map_has (gm_peers g) fp")
  case False
  obtain c1 r out where cp: "createPeer fp al c = (c1, r, out)" by (metis prod.collapse)
  have ok: "client_ok c c1" using createPeer_ok [where s = c and fp = fp and al = al] by (simp add: cp)
  have r: "r < length (c_heap c1)" "cp_fp (c_heap c1 ! r) = fp"
    using createPeer_ref [of c fp al] i by (simp_all add: cp gm_inv_def client_inv_def)
  from gm_inv_client [OF i ok] False n r show ?thesis
    by (auto simp: gm_connectTo_def cp md_call_def gm_inv_def gm_wf_def map_set_fresh entries_ok_def map_has_def)
qed (use i in \<open>simp add: gm_connectTo_def\<close>)

lemma gm_invite_inv: "gm_inv s \<Longrightarrow> gm_inv (fst (gm_invite p s))"
  by (cases s) (simp add: gm_invite_def gm_connectTo_inv)

lemma close_all_client_ok: "client_ok c (fst (close_all rs c))"
  by (rule client_ok_peers [OF close_all_ok(1) close_all_heap])
    (use close_all_all [of c rs] in \<open>auto simp: peers_inv_def\<close>)

lemma leave_client_ok: "client_ok c (fst (leave ns c))"
  by (simp add: leave_def)

lemma gm_close_inv: "gm_inv s \<Longrightarrow> gm_inv (fst (gm_close s))"
proof (cases s)
  case (Pair c g)
  assume i: "gm_inv s"
  have "client_ok c (fst (leave (md_id g) (fst (close_all (map_vals (gm_peers g)) c))))"
    using close_all_client_ok leave_client_ok by (blast intro: client_ok_trans)
  from gm_inv_client [OF i [unfolded Pair] this] i show ?thesis
    by (auto simp: Pair gm_close_def split_def Let_def gm_inv_def gm_wf_def entries_ok_def md_shut_def)
qed

lemma gm_onJoined_inv: "gm_inv s \<Longrightarrow> gm_inv (fst (gm_onJoined info s))"
  by (auto simp: gm_onJoined_def split_def Let_def gm_invite_inv split: option.split)

lemma gm_wf_drop:
  "gm_wf c g \<Longrightarrow> gm_wf c (g\<lparr>gm_peers := map_del fp (gm_peers g), gm_remote := map_del fp (gm_remote g)\<rparr>)"
  using length_map_del_le [of fp "gm_peers g"] by (auto simp: gm_wf_def entries_ok_def set_map_del)

lemma gm_wf_js_drop:
  "gm_wf c g \<Longrightarrow> gm_wf c (g\<lparr>gm_peers := js_del fp (gm_peers g), gm_remote := js_del fp (gm_remote g)\<rparr>)"
  using gm_wf_drop [of c g] by (cases fp) simp_all

lemma gm_onLeft_inv: "gm_inv s \<Longrightarrow> gm_inv (fst (gm_onLeft fp s))"
proof (cases s)
  case (Pair c g)
  assume i: "gm_inv s"
  let ?c = "fst (case js_get (gm_peers g) fp of None \<Rightarrow> (c, []) | Some r \<Rightarrow> peer_close r c)"
  have "client_ok c ?c" by (simp add: peer_close_client_ok split: option.split)
  from gm_inv_client [OF i [unfolded Pair] this] show ?thesis
    by (cases "js_get (gm_peers g) fp") (simp_all add: Pair gm_onLeft_def split_def Let_def gm_inv_def gm_wf_js_drop)
qed

lemma gm_listener_inv: "gm_inv s \<Longrightarrow> gm_inv (fst (gm_listener out s))"
  using gm_close_inv [of s]
  by (cases s) (auto simp: gm_listener_def gm_onJoined_inv gm_onLeft_inv gm_onKicked_def split: client_out.split list.split)

lemma gm_dispatch_inv: "gm_inv s \<Longrightarrow> gm_inv (fst (gm_dispatch out s))"
  using each_inv [of "replicate (md_listens (snd s)) ()" gm_inv "\<lambda>_. gm_listener out" s]
  by (simp add: gm_dispatch_def split_def Let_def gm_listener_inv)

lemma gm_each_inv:
  assumes "gm_inv s"
  shows "gm_inv (fst (each gm_dispatch out s))" "gm_inv (fst (each gm_invite ps s))" "gm_inv (fst (each gm_onGone fps s))"
    "gm_inv (fst (each (gm_onStream sid) fps s))"
proof -
  show "gm_inv (fst (each gm_dispatch out s))" by (rule each_inv [where P = gm_inv]) (auto intro: gm_dispatch_inv assms)
  show "gm_inv (fst (each gm_invite ps s))" by (rule each_inv [where P = gm_inv]) (auto intro: gm_invite_inv assms)
  have "gm_inv (fst (gm_onGone fp s))" if "gm_inv s" for fp s
    using that gm_wf_drop by (cases s) (simp add: gm_onGone_def gm_inv_def)
  then show "gm_inv (fst (each gm_onGone fps s))" by (intro each_inv [where P = gm_inv]) (auto intro: assms)
  have "gm_inv (fst (gm_onStream sid fp s))" if "gm_inv s" for fp s
    using that by (cases s) (simp add: gm_onStream_def gm_inv_def gm_wf_def)
  then show "gm_inv (fst (each (gm_onStream sid) fps s))" by (intro each_inv [where P = gm_inv]) (auto intro: assms)
qed

lemma gm_started_inv:
  assumes "gm_inv (c, g)" "md_started i ts g = (how, g1, out)"
  shows "gm_inv (c, g1)"
  using assms
  by (auto simp: md_started_def gm_inv_def gm_wf_def Let_def less_Suc_eq split: option.splits)

lemma gm_media_inv:
  assumes "gm_inv s"
  shows "gm_inv (fst (gm_media i ts s))"
proof -
  obtain c g where s: "s = (c, g)" by force
  obtain how g1 out where st: "md_started i ts g = (how, g1, out)" by (metis prod.collapse)
  have g1: "gm_inv (c, g1)" using gm_started_inv assms s st by blast
  then have aw: "gm_inv (c, g1\<lparr>md_awaits := A\<rparr>)" for A by (rule gm_inv_frame) simp_all
  show ?thesis
    using g1 gm_inv_client [OF aw createRoom_ok] gm_inv_client [OF aw joinRoom_ok]
    by (auto simp: s gm_media_def st split_def Let_def split: option.split media_call.split)
qed

lemma gm_resume_inv: "gm_inv s \<Longrightarrow> gm_inv (fst (gm_resume i s))"
proof (cases s)
  case (Pair c g)
  assume i: "gm_inv s"
  have f: "gm_inv (c, g\<lparr>md_awaits := A\<rparr>)" "gm_inv (c, g\<lparr>md_awaits := A, md_listens := n\<rparr>)" for A n
    by (rule gm_inv_frame [OF i [unfolded Pair]]; simp)+
  with i gm_each_inv(2) show ?thesis by (auto simp: Pair gm_resume_def Let_def split: option.split cpromise.split)
qed

lemma gm_step_inv: "gm_inv s \<Longrightarrow> gm_inv (fst (gm_step parse stringify cfg s e))"
proof -
  assume i: "gm_inv s"
  obtain c g where s: "s = (c, g)" by force
  note frame = gm_inv_frame [OF i [unfolded s]]
  have cl: "gm_inv (fst (case client_step parse stringify cfg c ev of (c1, out) \<Rightarrow> each gm_dispatch out (c1, g)))" for ev
    using gm_each_inv(1) [OF gm_inv_client [OF i [unfolded s] client_step_ok]] by (simp add: split_def)
  show ?thesis
  proof (cases e)
    case (GmClient ev)
    show ?thesis
    proof (cases "\<exists>r st. ev = PeerState r st")
      case True
      then show ?thesis
        using gm_inv_client [OF i [unfolded s] peer_state_ok] gm_each_inv(3) by (auto simp: GmClient s)
    next
      case False
      then show ?thesis using cl [of ev] by (cases ev) (simp_all add: GmClient s del: client_step.simps)
    qed
  next
    case (GmStart how config)
    then show ?thesis by (simp add: s md_begin_def frame)
  next
    case (GmPeerStream r sid)
    then show ?thesis using gm_each_inv(4) [OF i] by (simp add: s)
  qed (use i in \<open>simp_all add: s gm_media_inv gm_resume_inv gm_close_inv gm_muteAudio_def gm_unmuteAudio_def gm_muteVideo_def
      gm_unmuteVideo_def md_enable_def frame\<close>)
qed

interpretation group_call: machine "gm_step parse stringify cfg" gm_inv "\<lambda>e. True"
  for parse stringify cfg
  by unfold_locales (rule gm_step_inv)

lemma gm_inv_new: "gm_inv (new_PeerClient, new_GroupMedia room)"
  using client_inv_new by (simp add: gm_inv_def gm_wf_def new_GroupMedia_def entries_ok_def)
text \<open>
  C34. In every state a group call and its client can reach there is one entry for each peer, at most
  \<open>MAX_MEDIA_PEERS - 1\<close> of them however the others join, leave and drop, each stands for the client's
  peer object of that fingerprint, and the local stream, when there is one, is a stream the browser gave.
\<close>

theorem group_call_wellformed:
  assumes "run_state (gm_step parse stringify cfg) (new_PeerClient, new_GroupMedia room) es = (c, g)"
  shows "distinct (map_keys (gm_peers g)) \<and> gm_getPeerCount g \<le> MAX_MEDIA_PEERS - 1
    \<and> (\<forall>fp r. map_get (gm_peers g) fp = Some r \<longrightarrow> r < length (c_heap c) \<and> cp_fp (c_heap c ! r) = fp)
    \<and> (\<forall>i. md_local g = Some i \<longrightarrow> i < length (md_streams g))"
proof -
  have "gm_inv (c, g)"
    using group_call.run_inv [OF gm_inv_new, of es parse stringify cfg room] assms by (simp add: list_all_iff)
  then show ?thesis
    by (auto simp: gm_inv_def gm_wf_def entries_ok_def gm_getPeerCount_def dest!: map_of_SomeD)
qed

section \<open>Peers of other rooms\<close>

definition joined_msg :: "string \<Rightarrow> (string \<times> js) list \<Rightarrow> server_msg" where
  "joined_msg ns fs = \<lparr>sm_type = ''peer_joined'', sm_from = None, sm_to = None, sm_namespace = Some ns, sm_payload = JObj fs\<rparr>"

lemma joined_step:
  "snd (client_step parse stringify cfg c (TransportMessage (joined_msg ns fs))) = [Emit ''peer_joined'' [JObj (map_set ''namespace'' (JStr ns) fs)]]"
  by (simp add: on_message_def handleMessage_def joined_msg_def split_def Let_def)

lemma gm_connect_again:
  "map_has (gm_peers g) fp \<Longrightarrow> peer_entry info = Some (fp, al) \<Longrightarrow> gm_onJoined info (c, g) = ((c, g), [MEmit ''peer_joined'' [info]])"
  by (simp add: gm_onJoined_def gm_invite_def gm_connectTo_def)

lemma gm_joined_calls:
  assumes "gm_inv (c, g)" "peer_entry info = Some (fp, al)" "\<not> map_has (gm_peers g) fp" "length (gm_peers g) < MAX_MEDIA_PEERS - 1"
    "md_local g = Some i"
  shows "\<exists>c1 g1 r out. gm_onJoined info (c, g) = ((c1, g1), out) \<and> {MAddStream r i, MClient (PeerOffer r)} \<subseteq> set out
    \<and> cp_fp (c_heap c1 ! r) = fp \<and> map_get (gm_peers g1) fp = Some r"
proof -
  obtain c1 r o1 where cp: "createPeer fp al c = (c1, r, o1)" by (metis prod.collapse)
  have "cp_fp (c_heap c1 ! r) = fp"
    using createPeer_ref [of c fp al] assms(1) by (simp add: cp gm_inv_def client_inv_def)
  with assms(2-) cp show ?thesis by (auto simp: gm_onJoined_def gm_invite_def gm_connectTo_def md_call_def Let_def)
qed

text \<open>
  C35. A group call takes in strangers.  The listener on \<open>peer_joined\<close> does not look at the
  namespace: as long as there is room, a peer that joins any other namespace of the client is called and is
  given the local stream.
\<close>

theorem stranger_gets_stream:
  assumes "run_state (gm_step parse stringify cfg) (new_PeerClient, new_GroupMedia room) es = (c, g)"
    and "0 < md_listens g" "md_local g = Some i" "gm_getPeerCount g < MAX_MEDIA_PEERS - 1"
    and "map_get fs ''fingerprint'' = Some (JStr fp)" "map_get fs ''alias'' = Some (JStr al)" "map_get (gm_peers g) fp = None"
    and "ns \<noteq> room"
    and "gm_step parse stringify cfg (c, g) (GmClient (TransportMessage
           \<lparr>sm_type = ''peer_joined'', sm_from = None, sm_to = None, sm_namespace = Some ns, sm_payload = JObj fs\<rparr>)) = ((c', g'), out)"
  shows "\<exists>r. {MAddStream r i, MClient (PeerOffer r)} \<subseteq> set out \<and> cp_fp (c_heap c' ! r) = fp \<and> map_get (gm_peers g') fp = Some r"
proof -
  let ?info = "JObj (map_set ''namespace'' (JStr ns) fs)"
  define c1 where "c1 = fst (client_step parse stringify cfg c (TransportMessage (joined_msg ns fs)))"
  then have c1: "client_step parse stringify cfg c (TransportMessage (joined_msg ns fs)) = (c1, [Emit ''peer_joined'' [?info]])"
    by (simp add: prod_eq_iff joined_step del: client_step.simps)
  have "gm_inv (c, g)"
    using group_call.run_inv [OF gm_inv_new, of es parse stringify cfg room] assms(1) by (simp add: list_all_iff)
  then have i1: "gm_inv (c1, g)" unfolding c1_def by (rule gm_inv_client [OF _ client_step_ok])
  have p: "peer_entry ?info = Some (fp, al)" using assms(5,6) by (simp add: peer_entry_def str_prop_def)
  obtain c2 g2 r o2 where j: "gm_onJoined ?info (c1, g) = ((c2, g2), o2)" "{MAddStream r i, MClient (PeerOffer r)} \<subseteq> set o2"
      "cp_fp (c_heap c2 ! r) = fp" "map_get (gm_peers g2) fp = Some r"
    using gm_joined_calls [OF i1 p _ _ assms(3)] assms(4,7) by (auto simp: map_has_get gm_getPeerCount_def)
  obtain n where n: "md_listens g = Suc n" using assms(2) by (cases "md_listens g") auto
  have "times n (gm_onJoined ?info) (c2, g2) = ((c2, g2), concat (replicate n [MEmit ''peer_joined'' [?info]]))"
    using each_const [of "replicate n ()" "\<lambda>_. gm_onJoined ?info" "(c2, g2)" "\<lambda>_. [MEmit ''peer_joined'' [?info]]"]
      gm_connect_again [of g2 fp ?info al c2] j(4) p by (simp add: map_has_get map_replicate_const)
  then have "times (Suc n) (gm_listener (Emit ''peer_joined'' [?info])) (c1, g) = ((c2, g2), o2 @ concat (replicate n [MEmit ''peer_joined'' [?info]]))"
    by (simp add: gm_listener_def j(1))
  then have d: "gm_dispatch (Emit ''peer_joined'' [?info]) (c1, g) =
      ((c2, g2), MClient (Emit ''peer_joined'' [?info]) # o2 @ concat (replicate n [MEmit ''peer_joined'' [?info]]))"
    unfolding gm_dispatch_def snd_conv n by simp
  have "gm_step parse stringify cfg (c, g) (GmClient (TransportMessage (joined_msg ns fs))) = each gm_dispatch [Emit ''peer_joined'' [?info]] (c1, g)"
    unfolding gm_step.simps c1 Let_def by simp
  also have "\<dots> = ((c2, g2), MClient (Emit ''peer_joined'' [?info]) # o2 @ concat (replicate n [MEmit ''peer_joined'' [?info]]))"
    unfolding each.simps d Let_def by simp
  finally have "c' = c2" "g' = g2" "set o2 \<subseteq> set out" using assms(9) unfolding joined_msg_def by auto
  with j show ?thesis by blast
qed

section \<open>A call\<close>

text \<open>A call in the room \<open>show\<close>, created and listening, with one audio track.\<close>

abbreviation demo_gm :: "gmsys \<Rightarrow> gm_event \<Rightarrow> gmsys \<times> media_out list" where
  "demo_gm \<equiv> gm_step (\<lambda>t. None) (\<lambda>v. v) demo_cfg"

definition call_events :: "gm_event list" where
  "call_events = [GmStart CreateAndJoin Undef, GmMedia 0 (Some [\<lparr>tk_audio = True, tk_enabled = True, tk_live = True\<rparr>]),
     GmClient (TransportMessage \<lparr>sm_type = ''room_created'', sm_from = Some [], sm_to = None, sm_namespace = Some ''show'',
       sm_payload = JObj [(''room_id'', JStr ''show'')]\<rparr>), GmResume 0]"

lemmas gm_run_defs = gm_media_def md_begin_def md_started_def createRoom_def gm_resume_def new_req_def new_PeerClient_def new_GroupMedia_def
  on_message_def handleMessage_def each_req_def on_room_created_def req_cleanup_def clear_req_def
  settle_req_def upd_req_def on_room_info_def gm_dispatch_def gm_listener_def limit_defs msg_def set_add_def

lemma call_state:
  "run_state demo_gm (new_PeerClient, new_GroupMedia ''show'') call_events =
    (new_PeerClient\<lparr>c_reqs := [\<lparr>rq_kind = RCreateRoom ''show'', rq_promise = Fulfilled (JObj [(''room_id'', JStr ''show'')]),
        rq_timer = False, rq_live = False\<rparr>], c_namespaces := [''show'']\<rparr>,
     (new_GroupMedia ''show'')\<lparr>md_streams := [[\<lparr>tk_audio = True, tk_enabled = True, tk_live = True\<rparr>]], md_local := Some 0, md_listens := 1,
       md_next := 1\<rparr>)"
  by (simp add: call_events_def gm_run_defs Let_def del: run.simps(2))

theorem group_call_wellformed_witness:
  "gm_getPeerCount (snd (run_state demo_gm (new_PeerClient, new_GroupMedia ''show'') call_events)) \<le> MAX_MEDIA_PEERS - 1
   \<and> md_local (snd (run_state demo_gm (new_PeerClient, new_GroupMedia ''show'') call_events)) = Some 0
   \<and> 0 < length (md_streams (snd (run_state demo_gm (new_PeerClient, new_GroupMedia ''show'') call_events)))"
  using group_call_wellformed [OF prod.collapse [symmetric], of "\<lambda>t. None" "\<lambda>v. v" demo_cfg "''show''" call_events]
  by (simp add: call_state del: run.simps)

theorem stranger_gets_stream_witness:
  "\<exists>r. {MAddStream r 0, MClient (PeerOffer r)} \<subseteq> set (snd (demo_gm (run_state demo_gm (new_PeerClient, new_GroupMedia ''show'') call_events)
     (GmClient (TransportMessage \<lparr>sm_type = ''peer_joined'', sm_from = None, sm_to = None, sm_namespace = Some ''elsewhere'',
        sm_payload = JObj [(''fingerprint'', JStr ''eve''), (''alias'', JStr [])]\<rparr>))))"
proof -
  obtain c g where s: "run_state demo_gm (new_PeerClient, new_GroupMedia ''show'') call_events = (c, g)" by (metis prod.collapse)
  have g: "0 < md_listens g" "md_local g = Some 0" "gm_getPeerCount g < MAX_MEDIA_PEERS - 1" "map_get (gm_peers g) ''eve'' = None"
    using s unfolding call_state by (auto simp: new_GroupMedia_def gm_getPeerCount_def limit_defs)
  let ?r = "demo_gm (c, g) (GmClient (TransportMessage \<lparr>sm_type = ''peer_joined'', sm_from = None, sm_to = None,
    sm_namespace = Some ''elsewhere'', sm_payload = JObj [(''fingerprint'', JStr ''eve''), (''alias'', JStr [])]\<rparr>))"
  have r: "?r = ((fst (fst ?r), snd (fst ?r)), snd ?r)" by simp
  from stranger_gets_stream [OF s g(1-3) _ _ g(4) _ r] show ?thesis unfolding s by auto
qed

end
