(* ===== verification/Image.thy ===== *)
theory Image
  imports FileTransfer
begin

text \<open>
  The class \<open>ImageTransfer\<close> of packages/peer-client/src/transfer.ts: a \<open>FileTransfer\<close> whose five
  events the constructor forwards to the listeners of the image object.  Every method calls the method
  of the same name, so the events of the machine are those of \<open>FileTransfer\<close>, which a user can also
  call through \<open>getFileTransfer\<close>.  \<open>destroy\<close> takes off all listeners, the forwarding ones too.
\<close>

record image_transfer =
  it_ft :: filetransfer
  it_forwards :: bool        \<comment> \<open>the listeners of the constructor are attached\<close>

datatype img_out = ImgEmit ft_out | ImgObject ft_out

definition new_ImageTransfer :: image_transfer where
  "new_ImageTransfer = \<lparr>it_ft = new_FileTransfer, it_forwards = True\<rparr>"

fun is_emit :: "ft_out \<Rightarrow> bool" where
  "is_emit (EmitIncoming meta from) = True"
| "is_emit (EmitProgress p) = True"
| "is_emit (EmitSent i) = True"
| "is_emit (EmitComplete i b meta from) = True"
| "is_emit (EmitError i n) = True"
| "is_emit (EmitCancelled i) = True"
| "is_emit out = False"

text \<open>An event of the object is emitted again while the listeners are there; everything else is the object's own.\<close>

definition img_forward :: "bool \<Rightarrow> ft_out list \<Rightarrow> img_out list" where
  "img_forward on out = map (\<lambda>a. if is_emit a then ImgEmit a else ImgObject a) (filter (\<lambda>a. is_emit a \<longrightarrow> on) out)"

definition img_destroy :: "image_transfer \<Rightarrow> image_transfer \<times> img_out list" where
  "img_destroy s = (let (f, out) = ft_destroy (it_ft s) in (\<lparr>it_ft = f, it_forwards = False\<rparr>, img_forward (it_forwards s) out))"

definition img_call :: "ft_env \<Rightarrow> ft_event \<Rightarrow> image_transfer \<Rightarrow> image_transfer \<times> img_out list" where
  "img_call env ev s =
     (let (f, out) = ft_step (it_ft s) (env, ev) in (s\<lparr>it_ft := f\<rparr>, img_forward (it_forwards s) out))"

definition img_step :: "image_transfer \<Rightarrow> ft_env \<times> ft_event \<Rightarrow> image_transfer \<times> img_out list" where
  "img_step s e = (if snd e = CallDestroy then img_destroy s else img_call (fst e) (snd e) s)"

definition img_emitted :: "img_out list \<Rightarrow> ft_out list" where
  "img_emitted out = List.map_filter (\<lambda>a. case a of ImgEmit x \<Rightarrow> Some x | ImgObject x \<Rightarrow> None) out"

lemma img_emitted_forward: "img_emitted (img_forward on out) = (if on then filter is_emit out else [])"
  by (induction out) (auto simp: img_emitted_def img_forward_def map_filter_def)

lemma img_emitted_append: "img_emitted (xs @ ys) = img_emitted xs @ img_emitted ys"
  by (simp add: img_emitted_def map_filter_def)

lemma destroy_fold_quiet:
  "filter is_emit (snd (fold (\<lambda>i (s, out). let (s', o') = cleanupSend i s in (s', out @ o')) ks x)) = filter is_emit (snd x)"
  by (induction ks arbitrary: x) (simp_all add: split_def Let_def cleanupSend_def split: option.split)

lemma destroy_quiet: "filter is_emit (snd (ft_destroy s)) = []"
  using destroy_fold_quiet by (simp add: ft_destroy_def Let_def split_def)

lemma img_step_simps:
  "it_ft (fst (img_step s e)) = fst (ft_step (it_ft s) e)"
  "it_forwards (fst (img_step s e)) = (it_forwards s \<and> snd e \<noteq> CallDestroy)"
  "img_emitted (snd (img_step s e)) = (if it_forwards s then filter is_emit (snd (ft_step (it_ft s) e)) else [])"
  by (cases e; simp add: img_step_def img_destroy_def img_call_def split_def Let_def img_emitted_forward)+

text \<open>
  Along every run the object inside goes through the same run of a \<open>FileTransfer\<close>, and the image
  object emits exactly its events, in order, up to the first \<open>destroy\<close> and none after it.
\<close>

lemma img_run_object: "it_ft (run_state img_step s es) = run_state ft_step (it_ft s) es"
  by (induction es arbitrary: s) (simp_all add: img_step_simps del: run.simps(2))

lemma img_run_emits:
  "img_emitted (snd (run img_step s es)) =
   (if it_forwards s then filter is_emit (snd (run ft_step (it_ft s) (takeWhile (\<lambda>e. snd e \<noteq> CallDestroy) es))) else [])"
proof (induction es arbitrary: s)
  case (Cons e es)
  have "snd (ft_step (it_ft s) e) = snd (ft_destroy (it_ft s))" if "snd e = CallDestroy"
    using that by (cases e) simp
  with Cons.IH [of "fst (img_step s e)"] show ?case
    by (auto simp: split_def Let_def img_emitted_append img_step_simps destroy_quiet)
qed (simp add: img_emitted_def map_filter_def)

end
