(* ===== verification/Hook_Sync.thy ===== *)
theory Hook_Sync
  imports Sync
begin

text \<open>
  The React hook \<open>useSync\<close> of packages/peerserver-client/src/react/useSync.ts over the
  \<open>StateSync\<close> of that package, whose methods are those of packages/peer-client without
  \<open>loadState\<close>, \<open>getState\<close> and \<open>getHLC\<close>.  The effect of the hook makes an object, starts it and
  listens to it; its cleanup destroys the object.  The listener on \<open>state_changed\<close> reads
  \<open>getAll\<close> at the moment of the event, so an exchange of full states is followed entry by entry.
\<close>

section \<open>The hook\<close>

record use_sync =
  us_sync :: "statesync option"            \<comment> \<open>\<open>syncRef.current\<close>\<close>
  us_state :: "(string, js) jsmap"         \<comment> \<open>the React state \<open>state\<close>\<close>
  us_error :: "string option"

datatype us_event =
    UsMount string sync_mode "(js \<Rightarrow> js \<Rightarrow> js) option"   \<comment> \<open>the effect runs for a room, after its cleanup\<close>
  | UsUnmount
  | UsSet string js
  | UsDelete string
  | UsClient sync_event                     \<comment> \<open>a callback of the client or of the timer\<close>

datatype us_out = UsAct sync_action | UsThrows string

definition new_useSync :: use_sync where
  "new_useSync = \<lparr>us_sync = None, us_state = [], us_error = None\<rparr>"

definition us_changed :: "sync_action \<Rightarrow> bool" where
  "us_changed a = (case a of StateChanged k v from \<Rightarrow> True | _ \<Rightarrow> False)"

text \<open>The listeners on \<open>state_changed\<close> and \<open>error\<close> after a piece of the object's work.\<close>

definition us_listen :: "statesync \<Rightarrow> sync_action list \<Rightarrow> use_sync \<Rightarrow> use_sync" where
  "us_listen s out h =
     h\<lparr>us_state := (if list_ex us_changed out then ss_getAll s else us_state h),
       us_error := fold (\<lambda>a e. case a of SyncError m \<Rightarrow> Some m | _ \<Rightarrow> e) out (us_error h)\<rparr>"

fun us_full :: "string \<Rightarrow> clock \<Rightarrow> nat \<Rightarrow> sync_wire list \<Rightarrow> string \<Rightarrow> statesync \<Rightarrow> use_sync \<Rightarrow> use_sync" where
  "us_full me clk i [] from s h = h"
| "us_full me clk i (w # ws) from s h =
     (let (s1, out) = handleFullState me clk i [w] from s
      in us_full me clk (case w of Wire e \<Rightarrow> Suc i | _ \<Rightarrow> i) ws from s1 (us_listen s1 out h))"

fun us_body :: "sync_event \<Rightarrow> statesync \<Rightarrow> (string \<times> sync_body) option" where
  "us_body (OnBroadcast from ns p) s = (if ns = ss_roomId s \<and> sp_sync p then Some (from, sp_body p) else None)"
| "us_body (OnRelay from p) s = (if sp_sync p \<and> sp_room p = Some (ss_roomId s) then Some (from, sp_body p) else None)"
| "us_body e s = None"

definition us_client :: "string \<Rightarrow> (nat \<Rightarrow> clock) \<Rightarrow> sync_event \<Rightarrow> statesync \<Rightarrow> use_sync \<Rightarrow> use_sync \<times> us_out list" where
  "us_client me clk e s h =
     (let (s1, out) = ss_step s (me, clk, e);
          h1 = (case us_body e s of
                  Some (from, FullState (Some ws)) \<Rightarrow> us_full me (clk 0) 0 ws from s h
                | _ \<Rightarrow> us_listen s1 out h)
      in (h1\<lparr>us_sync := Some s1\<rparr>, map UsAct out))"

definition us_cleanup :: "use_sync \<Rightarrow> use_sync" where
  "us_cleanup h = (case us_sync h of None \<Rightarrow> h | Some s \<Rightarrow> h\<lparr>us_sync := None, us_state := []\<rparr>)"

definition us_mount ::
  "string \<Rightarrow> int \<Rightarrow> string \<Rightarrow> sync_mode \<Rightarrow> (js \<Rightarrow> js \<Rightarrow> js) option \<Rightarrow> use_sync \<Rightarrow> use_sync \<times> us_out list" where
  "us_mount me now room mode merge h =
     (if room = [] then (us_cleanup h, [])
      else case new_StateSync me now room mode merge of
        Inl x \<Rightarrow> (us_cleanup h, [UsThrows x])
      | Inr s \<Rightarrow> ((us_cleanup h)\<lparr>us_sync := Some (ss_start s)\<rparr>, []))"

definition us_set :: "string \<Rightarrow> (nat \<Rightarrow> clock) \<Rightarrow> string \<Rightarrow> js \<Rightarrow> use_sync \<Rightarrow> use_sync \<times> us_out list" where
  "us_set me clk k v h =
     (let (h1, out) = (case us_sync h of None \<Rightarrow> (h, []) | Some s \<Rightarrow> us_client me clk (SetKey k v) s h)
      in (h1\<lparr>us_state := map_set k v (us_state h1)\<rparr>, out))"

definition us_delete :: "string \<Rightarrow> (nat \<Rightarrow> clock) \<Rightarrow> string \<Rightarrow> use_sync \<Rightarrow> use_sync \<times> us_out list" where
  "us_delete me clk k h =
     (let (h1, out) = (case us_sync h of None \<Rightarrow> (h, []) | Some s \<Rightarrow> us_client me clk (DeleteKey k) s h)
      in (h1\<lparr>us_state := map_del k (us_state h1)\<rparr>, out))"

definition us_get :: "use_sync \<Rightarrow> string \<Rightarrow> js" where
  "us_get h k = (case us_sync h of None \<Rightarrow> Undef | Some s \<Rightarrow> ss_get s k)"

text \<open>The callbacks a mounted hook's object gets: those of the client and of the purge timer.\<close>

fun us_callback :: "sync_event \<Rightarrow> bool" where
  "us_callback (OnBroadcast from ns p) = True"
| "us_callback (OnRelay from p) = True"
| "us_callback OnPeerJoined = True"
| "us_callback PurgeTick = True"
| "us_callback e = False"

fun us_step :: "use_sync \<Rightarrow> string \<times> (nat \<Rightarrow> clock) \<times> us_event \<Rightarrow> use_sync \<times> us_out list" where
  "us_step h (me, clk, UsMount room mode merge) = us_mount me (clk 0 0) room mode merge h"
| "us_step h (me, clk, UsUnmount) = (us_cleanup h, [])"
| "us_step h (me, clk, UsSet k v) = us_set me clk k v h"
| "us_step h (me, clk, UsDelete k) = us_delete me clk k h"
| "us_step h (me, clk, UsClient e) =
     (case us_sync h of
        Some s \<Rightarrow> if us_callback e then us_client me clk e s h else (h, [])
      | None \<Rightarrow> (h, []))"

section \<open>What the hook displays\<close>

text \<open>
  \<open>us_ok\<close> leaves out unmounting, a mount that throws, and full states that carry a tombstone.
\<close>

fun no_tombstone :: "sync_wire \<Rightarrow> bool" where
  "no_tombstone (Wire e) = (\<not> e_deleted e)"
| "no_tombstone w = True"

fun body_ok :: "sync_body \<Rightarrow> bool" where
  "body_ok (FullState (Some ws)) = list_all no_tombstone ws"
| "body_ok b = True"

fun us_ok :: "us_event \<Rightarrow> bool" where
  "us_ok (UsMount room mode merge) = (room \<noteq> [] \<and> (mode = Operational \<longrightarrow> merge \<noteq> None))"
| "us_ok UsUnmount = False"
| "us_ok (UsClient (OnBroadcast from ns p)) = body_ok (sp_body p)"
| "us_ok (UsClient (OnRelay from p)) = body_ok (sp_body p)"
| "us_ok e = True"

definition displays :: "statesync \<Rightarrow> use_sync \<Rightarrow> bool" where
  "displays s h \<longleftrightarrow> map_of (us_state h) = map_of (ss_getAll s)"

definition us_inv :: "use_sync \<Rightarrow> bool" where
  "us_inv h \<longleftrightarrow> (\<exists>s. us_sync h = Some s \<and> ss_inv s \<and> ss_attached s = 1 \<and> displays s h)"

lemma getAll_map: "map_wf (ss_state s) \<Longrightarrow> map_of (ss_getAll s) k =
    (case ss_entries s k of None \<Rightarrow> None | Some e \<Rightarrow> if e_deleted e then None else Some (e_val e))"
proof -
  have "map_wf m \<Longrightarrow> map_of (map (\<lambda>(k, e). (k, e_val e)) (filter (\<lambda>(k, e). \<not> e_deleted e) m)) k =
    (case map_of m k of None \<Rightarrow> None | Some e \<Rightarrow> if e_deleted e then None else Some (e_val e))" for m
    by (induction m) (auto split: option.splits simp: map_of_eq_None_iff rev_image_eqI)
  then show "map_wf (ss_state s) \<Longrightarrow> ?thesis" by (simp add: ss_getAll_def)
qed



lemma listen_sync [simp]: "us_sync (us_listen s out h) = us_sync h"
  by (simp add: us_listen_def)

text \<open>A piece of work that leaves the entries alone or reports a change keeps what is shown up to date.\<close>

definition reported :: "statesync \<Rightarrow> statesync \<times> sync_action list \<Rightarrow> bool" where
  "reported s r \<longleftrightarrow> list_ex us_changed (snd r) \<or> ss_state (fst r) = ss_state s"

lemma displays_listen: "displays s h \<Longrightarrow> reported s (s1, out) \<Longrightarrow> displays s1 (us_listen s1 out h)"
  by (auto simp: displays_def reported_def us_listen_def ss_getAll_def)

lemma reported_handle:
  "reported s (handle_update me clk e from s)" "reported s (handle_delete me clk e from s)"
  "reported s (ss_set me clk k v s)" "reported s (ss_delete me clk k s)"
  by (auto simp: reported_def handle_update_def handle_delete_def ss_set_def ss_delete_def Let_def split_def us_changed_def
      split: sync_mode.split option.split)

lemma reported_remote:
  "\<forall>ws. b \<noteq> FullState (Some ws) \<Longrightarrow> reported s (handleRemoteUpdate me clk b from s)"
  by (cases "(me, clk, b, from, s)" rule: handleRemoteUpdate.cases)
    (simp_all add: reported_handle, simp_all add: reported_def)

lemma reported_entry: "no_tombstone w \<Longrightarrow> reported s (handleFullState me clk i [w] from s)"
  by (cases w) (auto simp: reported_def us_changed_def Let_def)

lemma fullState_Cons:
  "fst (handleFullState me clk i (w # ws) from s) =
   fst (handleFullState me clk (case w of Wire e \<Rightarrow> Suc i | _ \<Rightarrow> i) ws from (fst (handleFullState me clk i [w] from s)))"
  by (cases w) (simp_all add: Let_def split_def)

lemma us_full_sync [simp]: "us_sync (us_full me clk i ws from s h) = us_sync h"
  by (induction ws arbitrary: i s h) (simp_all add: split_def Let_def)

lemma displays_full:
  "list_all no_tombstone ws \<Longrightarrow> displays s h \<Longrightarrow>
   displays (fst (handleFullState me clk i ws from s)) (us_full me clk i ws from s h)"
proof (induction ws arbitrary: i s h)
  case (Cons w ws)
  from Cons.prems have "reported s (handleFullState me clk i [w] from s)" by (simp add: reported_entry)
  with displays_listen [OF Cons.prems(2)] have "displays (fst (handleFullState me clk i [w] from s))
    (us_listen (fst (handleFullState me clk i [w] from s)) (snd (handleFullState me clk i [w] from s)) h)" by simp
  with Cons show ?case unfolding fullState_Cons [of me clk i w ws] by (simp add: split_def Let_def)
qed simp



lemma attached_handle [simp]:
  "ss_attached (fst (ss_set me clk k v s)) = ss_attached s" "ss_attached (fst (ss_delete me clk k s)) = ss_attached s"
  "ss_attached (fst (handle_update me clk e from s)) = ss_attached s"
  "ss_attached (fst (handle_delete me clk e from s)) = ss_attached s"
  "ss_attached (purgeTombstones now s) = ss_attached s"
  by (auto simp: ss_set_def ss_delete_def handle_update_def handle_delete_def purgeTombstones_def ss_tick_def ss_put_def
      ss_merge_clock_def Let_def split_def split: sync_mode.split option.split)

lemma attached_full [simp]: "ss_attached (fst (handleFullState me clk i ws from s)) = ss_attached s"
  by (induction me clk i ws "from" s rule: handleFullState.induct)
    (simp_all add: Let_def split_def ss_put_def ss_merge_clock_def)

lemma attached_remote [simp]: "ss_attached (fst (handleRemoteUpdate me clk b from s)) = ss_attached s"
  by (cases "(me, clk, b, from, s)" rule: handleRemoteUpdate.cases) simp_all

text \<open>With its listeners attached once, the object hands an incoming body to one run of the handler.\<close>

lemma step_body:
  assumes "ss_attached s = 1" "us_body e s = Some (from, b)"
  shows "ss_step s (me, clk, e) = handleRemoteUpdate me (clk 0) b from s"
  using assms by (cases "(e, s)" rule: us_body.cases) (auto simp: split_def Let_def split: if_splits)

lemma step_no_body:
  assumes "ss_attached s = 1" "us_body e s = None" "us_callback e" "e \<noteq> PurgeTick"
  shows "fst (ss_step s (me, clk, e)) = s"
  using assms by (cases "(e, s)" rule: us_body.cases) (auto split: if_splits)

lemma getAll_purge: "map_of (ss_getAll (purgeTombstones now s)) = map_of (ss_getAll s)"
  by (simp add: ss_getAll_def purgeTombstones_def expired_def split_def) (metis (no_types, lifting) filter_cong)



lemma us_client_inv:
  assumes "us_inv h" "us_sync h = Some s" and out: "ss_step s (me, clk, e) = (s1, out)"
    and "ss_attached s1 = 1" and d: "displays s1 (fst (us_client me clk e s h))"
  shows "us_inv (fst (us_client me clk e s h))"
proof -
  have "ss_inv s" using assms by (simp add: us_inv_def)
  then have "ss_inv s1" using statesync_inv.step_inv [of s "(me, clk, e)"] out by simp
  moreover have "us_sync (fst (us_client me clk e s h)) = Some s1" by (simp add: us_client_def out Let_def)
  ultimately show ?thesis using assms by (simp add: us_inv_def)
qed

lemma displays_field [simp]: "displays s (h\<lparr>us_sync := x\<rparr>) = displays s h"
  by (simp add: displays_def)

lemma us_client_callback:
  assumes h: "us_inv h" "us_sync h = Some s" and ok: "us_ok (UsClient e)" and cb: "us_callback e"
  shows "us_inv (fst (us_client me clk e s h))"
proof -
  have s: "displays s h" "ss_attached s = 1" using h by (auto simp: us_inv_def)
  obtain s1 out where r: "ss_step s (me, clk, e) = (s1, out)" by fastforce
  have body: "ss_attached s1 = 1 \<and> displays s1 (fst (us_client me clk e s h))" if b: "us_body e s = Some (f, b)" for f b
  proof -
    have hr: "handleRemoteUpdate me (clk 0) b f s = (s1, out)" using step_body [OF s(2) b] r by simp
    have "body_ok b" using ok b by (cases "(e, s)" rule: us_body.cases) (auto split: if_splits)
    have "displays s1 (fst (us_client me clk e s h))"
    proof (cases "\<exists>ws. b = FullState (Some ws)")
      case True
      then obtain ws where ws: "b = FullState (Some ws)" by blast
      then show ?thesis using displays_full [of ws s h me "clk 0" 0 f] s \<open>body_ok b\<close> hr b
        by (simp add: us_client_def r)
    next
      case False
      then have "reported s (s1, out)" using reported_remote [of b s me "clk 0" f] hr by simp
      from displays_listen [OF s(1) this] False b show ?thesis
        by (auto simp: us_client_def r split: sync_body.split option.split)
    qed
    then show ?thesis using hr s(2) attached_remote [of me "clk 0" b f s] by simp
  qed
  have none: "ss_attached s1 = 1 \<and> displays s1 (fst (us_client me clk e s h))" if b: "us_body e s = None"
  proof (cases "e = PurgeTick")
    case True
    then have "s1 = s \<or> s1 = purgeTombstones (clk 0 0) s" "out = []" using r by (auto split: if_splits)
    then show ?thesis using s b by (auto simp: us_client_def r us_listen_def displays_def getAll_purge)
  next
    case False
    with step_no_body [OF s(2) b cb] r have "s1 = s" by (metis fst_conv)
    then show ?thesis using s b displays_listen [OF s(1), of s1 out] by (simp add: us_client_def r reported_def)
  qed
  show ?thesis using body none by (cases "us_body e s") (auto intro: us_client_inv [OF h r])
qed



text \<open>A write of the hook shows what the object holds after it.\<close>

lemma us_client_write:
  assumes h: "us_inv h" "us_sync h = Some s" and e: "e = SetKey k v \<or> e = DeleteKey k"
  shows "us_inv (fst (us_client me clk e s h))"
proof -
  have s: "displays s h" "ss_attached s = 1" using h by (auto simp: us_inv_def)
  obtain s1 out where r: "ss_step s (me, clk, e) = (s1, out)" by fastforce
  have "reported s (ss_step s (me, clk, e))" "ss_attached (fst (ss_step s (me, clk, e))) = 1"
    "us_body e s = None" using e s by (auto simp: reported_handle)
  with displays_listen [OF s(1), of s1 out] show ?thesis by (intro us_client_inv [OF h r]) (simp_all add: r us_client_def)
qed

lemma us_written:
  assumes "us_inv h" "us_sync h = Some s"
  shows "map_of (us_state (fst (us_client me clk (SetKey k v) s h))) k = Some v"
    "map_of (us_state (fst (us_client me clk (DeleteKey k) s h))) k = None"
proof -
  have wf: "map_wf (ss_state s)" using assms by (auto simp: us_inv_def ss_inv_def)
  have r: "list_ex us_changed (snd (ss_set me (clk 0) k v s))" "list_ex us_changed (snd (ss_delete me (clk 0) k s))"
    by (simp_all add: ss_set_def ss_delete_def Let_def split_def us_changed_def)
  have "map_of (ss_getAll (fst (ss_set me (clk 0) k v s))) k = Some v"
    "map_of (ss_getAll (fst (ss_delete me (clk 0) k s))) k = None"
    using wf by (simp_all add: getAll_map ss_set_def ss_delete_def ss_put_def ss_tick_def local_entry_def Let_def distinct_update)
  with r show "map_of (us_state (fst (us_client me clk (SetKey k v) s h))) k = Some v"
    "map_of (us_state (fst (us_client me clk (DeleteKey k) s h))) k = None"
    by (simp_all add: us_client_def us_listen_def split_def Let_def)
qed

lemma us_inv_state: "us_inv h \<Longrightarrow> map_of m = map_of (us_state h) \<Longrightarrow> us_inv (h\<lparr>us_state := m\<rparr>)"
  by (auto simp: us_inv_def displays_def)

lemma us_mount_inv:
  assumes "room \<noteq> []" "mode = Operational \<longrightarrow> merge \<noteq> None" "us_sync h \<noteq> None \<or> us_state h = []"
  shows "us_inv (fst (us_mount me now room mode merge h))"
proof -
  let ?s = "\<lparr>ss_state = [], ss_mode = mode, ss_merge = merge, ss_hlc = HLC now 0 me,
     ss_roomId = room, ss_attached = 0, ss_intervals = 0, ss_timer = False\<rparr>"
  have "ss_inv (ss_start ?s)" by (simp add: ss_inv_def ss_start_def)
  moreover have "us_state (us_cleanup h) = []" using assms(3) by (auto simp: us_cleanup_def split: option.split)
  ultimately show ?thesis using assms(1,2)
    by (auto simp: us_mount_def us_inv_def displays_def new_StateSync_def ss_start_def ss_getAll_def)
qed

lemma us_step_inv: "us_inv h \<Longrightarrow> us_ok (snd (snd e)) \<Longrightarrow> us_inv (fst (us_step h e))"
proof (cases "(h, e)" rule: us_step.cases)
  case (1 h' me clk room mode merge)
  moreover assume "us_inv h" "us_ok (snd (snd e))"
  moreover from \<open>us_inv h\<close> have "us_sync h \<noteq> None" by (auto simp: us_inv_def)
  ultimately show ?thesis by (auto intro!: us_mount_inv)
next
  case (3 h' me clk k v)
  moreover assume inv: "us_inv h"
  moreover from inv obtain s where s: "us_sync h = Some s" by (auto simp: us_inv_def)
  ultimately show ?thesis using us_client_write [OF inv s, of "SetKey k v"] us_written(1) [OF inv s]
    by (auto simp: us_set_def split_def Let_def fun_upd_idem intro!: us_inv_state)
next
  case (4 h' me clk k)
  moreover assume inv: "us_inv h"
  moreover from inv obtain s where s: "us_sync h = Some s" by (auto simp: us_inv_def)
  ultimately show ?thesis using us_client_write [OF inv s, of "DeleteKey k"] us_written(2) [OF inv s]
    by (auto simp: us_delete_def split_def Let_def fun_upd_idem intro!: us_inv_state)
next
  case (5 h' me clk ev)
  moreover assume "us_inv h" "us_ok (snd (snd e))"
  ultimately show ?thesis by (auto intro!: us_client_callback split: option.split)
qed simp

interpretation sync_hook: machine us_step us_inv "\<lambda>e. us_ok (snd (snd e))"
  by unfold_locales (rule us_step_inv)

lemma us_run_inv:
  assumes "room \<noteq> []" "mode = Operational \<longrightarrow> merge \<noteq> None"
    and "list_all (\<lambda>e. us_ok (snd (snd e))) es"
    and "h = run_state us_step (fst (us_step new_useSync (me, clk, UsMount room mode merge))) es"
  shows "us_inv h"
proof -
  have "us_inv (fst (us_step new_useSync (me, clk, UsMount room mode merge)))"
    using us_mount_inv [OF assms(1,2)] by (simp add: new_useSync_def)
  from sync_hook.run_inv [OF this assms(3)] show ?thesis by (simp add: assms(4))
qed

text \<open>
  C36. The hook shows the replica.  From the moment \<open>useSync\<close> has mounted on a room, in every
  mode and after every sequence of writes through the hook, callbacks of the client and purges, and
  mounts on other rooms, the displayed \<open>state\<close> has for every key what \<open>get\<close> of the object returns,
  and no key that \<open>getAll\<close> does not have, as long as no exchange of full states carries a tombstone.
\<close>

theorem useSync_shows_replica:
  assumes "room \<noteq> []" "mode = Operational \<longrightarrow> merge \<noteq> None"
    and "list_all (\<lambda>e. us_ok (snd (snd e))) es"
    and "h = run_state us_step (fst (us_step new_useSync (me, clk, UsMount room mode merge))) es"
  shows "\<exists>s. us_sync h = Some s \<and> map_of (us_state h) = map_of (ss_getAll s)
     \<and> (\<forall>k. us_get h k = (case map_of (us_state h) k of None \<Rightarrow> Undef | Some v \<Rightarrow> v))"
proof -
  have "us_inv h" by (rule us_run_inv [OF assms(1-4)])
  then obtain s where s: "us_sync h = Some s" "ss_inv s" "displays s h" by (auto simp: us_inv_def)
  have "map_wf (ss_state s)" using s by (simp add: ss_inv_def)
  from getAll_map [OF this] s show ?thesis
    by (auto simp: us_get_def displays_def ss_get_def split: option.split)
qed



text \<open>A hook on room \<open>r\<close> whose user has set \<open>k\<close>.\<close>

definition demo_clk :: "nat \<Rightarrow> clock" where "demo_clk = (\<lambda>i j. 5)"

definition demo_mounted :: use_sync where
  "demo_mounted = fst (us_step new_useSync (''a'', demo_clk, UsMount ''r'' Lww None))"

definition demo_hook :: use_sync where
  "demo_hook = run_state us_step demo_mounted [(''a'', demo_clk, UsSet ''k'' (JStr ''v''))]"

definition demo_replica :: statesync where
  "demo_replica = \<lparr>ss_state = [(''k'', local_entry ''a'' (HLC 5 1 ''a'') ''k'' (JStr ''v'') False)], ss_mode = Lww,
     ss_merge = None, ss_hlc = HLC 5 1 ''a'', ss_roomId = ''r'', ss_attached = 1, ss_intervals = 1, ss_timer = True\<rparr>"

lemma demo_hook_sync: "us_sync demo_hook = Some demo_replica"
  by (simp add: demo_hook_def demo_mounted_def demo_replica_def demo_clk_def new_useSync_def us_mount_def us_cleanup_def
      new_StateSync_def ss_start_def us_set_def us_client_def us_listen_def ss_set_def ss_tick_def ss_put_def createHLC_def Let_def
      local_entry_def)

lemma demo_hook_state: "map_of (us_state demo_hook) ''k'' = Some (JStr ''v'')"
  by (simp add: demo_hook_def us_set_def split_def Let_def)

lemma demo_hook_run:
  "demo_hook = run_state us_step (fst (us_step new_useSync (''a'', demo_clk, UsMount ''r'' Lww None)))
     [(''a'', demo_clk, UsSet ''k'' (JStr ''v''))]"
  by (simp add: demo_hook_def demo_mounted_def del: us_step.simps)

theorem useSync_shows_replica_witness:
  "\<exists>s. us_sync demo_hook = Some s \<and> map_of (us_state demo_hook) = map_of (ss_getAll s)
     \<and> (\<forall>k. us_get demo_hook k = (case map_of (us_state demo_hook) k of None \<Rightarrow> Undef | Some v \<Rightarrow> v))"
  using useSync_shows_replica [OF _ _ _ demo_hook_run] by simp

lemma us_tombstone_entry:
  assumes "newer d (ss_entries s (e_key d))" "e_deleted d"
  shows "ss_entries (fst (handleFullState me clk i [Wire d] from s)) (e_key d) = Some d"
    "\<not> list_ex us_changed (snd (handleFullState me clk i [Wire d] from s))"
  using assms by (simp_all add: Let_def ss_put_def us_changed_def)


text \<open>A key set before the hook has mounted is displayed, also after it has mounted, and is in no replica.\<close>

lemma unmounted_set_displayed:
  assumes "room \<noteq> []" and "h = run_state us_step new_useSync [(me, clk, UsSet k v), (me, clk, UsMount room Lww None)]"
  shows "map_of (us_state h) k = Some v \<and> us_get h k = Undef"
  using assms by (simp add: us_set_def us_mount_def us_cleanup_def new_useSync_def new_StateSync_def us_get_def ss_get_def ss_start_def)

definition demo_tombstone :: sync_state where
  "demo_tombstone = local_entry ''b'' (HLC 9 0 ''b'') ''k'' Undef True"

lemma demo_tombstone_facts:
  "e_key demo_tombstone = ''k''" "e_deleted demo_tombstone" "newer demo_tombstone (ss_entries demo_replica ''k'')"
  "ss_roomId demo_replica = ''r''"
  by (simp_all add: newer_def demo_tombstone_def demo_replica_def local_entry_def compareHLC_def)


end
