(* ===== verification/Hook_Transfer.thy ===== *)
theory Hook_Transfer
  imports Transfer_Recv Transfer_Send
begin

text \<open>
  The React hook \<open>useFileTransfer\<close> of packages/peerserver-client/src/react/useFileTransfer.ts over the
  \<open>FileTransfer\<close> of that package, whose transfer.ts is the same file as the one of
  packages/peer-client.  The hook keeps a table of transfers for display; the listeners its effect
  attaches update the table, and the functions it returns call the object.  \<open>u\<close> is the
  identifier \<open>crypto.randomUUID()\<close> returned and \<open>i\<close> the one \<open>uid()\<close> returned.
\<close>

section \<open>The hook\<close>

datatype tx_status = TxPending | TxActive | TxComplete | TxCancelled | TxError

datatype tx_direction = TxSend | TxReceive

record tx_row =
  tx_id :: string
  tx_filename :: string
  tx_size :: nat
  tx_direction :: tx_direction
  tx_from :: "string option"
  tx_progress :: "int option"        \<comment> \<open>\<open>None\<close>: not a number\<close>
  tx_bytesPerSecond :: "int option"
  tx_status :: tx_status
  tx_blob :: "bytes option"
  tx_meta :: "file_metadata option"

record use_transfer =
  ut_ft :: "filetransfer option"              \<comment> \<open>\<open>ftRef.current\<close>\<close>
  ut_transfers :: "(string, tx_row) jsmap"
  ut_cleanups :: "(string \<times> nat) list"        \<comment> \<open>\<open>cleanupRefs\<close>: listeners on peers to take off\<close>

definition new_useFileTransfer :: use_transfer where
  "new_useFileTransfer = \<lparr>ut_ft = None, ut_transfers = [], ut_cleanups = []\<rparr>"

text \<open>\<open>const t = next.get(id); if (t) next.set(id, ...)\<close>\<close>

definition tx_update :: "string \<Rightarrow> (tx_row \<Rightarrow> tx_row) \<Rightarrow> (string, tx_row) jsmap \<Rightarrow> (string, tx_row) jsmap" where
  "tx_update i f m = (case map_get m i of None \<Rightarrow> m | Some t \<Rightarrow> map_set i (f t) m)"

definition incoming_row :: "file_metadata \<Rightarrow> string \<Rightarrow> tx_row" where
  "incoming_row meta from =
     \<lparr>tx_id = m_id meta, tx_filename = m_filename meta, tx_size = m_size meta, tx_direction = TxReceive,
      tx_from = Some from, tx_progress = Some 0, tx_bytesPerSecond = Some 0, tx_status = TxPending, tx_blob = None,
      tx_meta = Some meta\<rparr>"

definition sent_row :: "string \<Rightarrow> string \<Rightarrow> nat \<Rightarrow> tx_row" where
  "sent_row u name sz =
     \<lparr>tx_id = u, tx_filename = name, tx_size = sz, tx_direction = TxSend, tx_from = None, tx_progress = Some 0,
      tx_bytesPerSecond = Some 0, tx_status = TxActive, tx_blob = None, tx_meta = None\<rparr>"

text \<open>The listeners of the effect.\<close>

fun ut_on :: "ft_out \<Rightarrow> (string, tx_row) jsmap \<Rightarrow> (string, tx_row) jsmap" where
  "ut_on (EmitProgress p) m =
     tx_update (pr_id p) (\<lambda>t. t\<lparr>tx_progress := pr_percentage p,
        tx_bytesPerSecond := Some (case pr_bytesPerSecond p of None \<Rightarrow> 0 | Some n \<Rightarrow> n), tx_status := TxActive\<rparr>) m"
| "ut_on (EmitIncoming meta from) m = map_set (m_id meta) (incoming_row meta from) m"
| "ut_on (EmitSent i) m = tx_update i (\<lambda>t. t\<lparr>tx_progress := Some 100, tx_status := TxComplete, tx_blob := None\<rparr>) m"
| "ut_on (EmitComplete i blob meta from) m =
     tx_update i (\<lambda>t. t\<lparr>tx_progress := Some 100, tx_status := TxComplete, tx_blob := Some blob\<rparr>) m"
| "ut_on (EmitCancelled i) m = tx_update i (\<lambda>t. t\<lparr>tx_status := TxCancelled\<rparr>) m"
| "ut_on (EmitError i n) m = (if i = [] then m else tx_update i (\<lambda>t. t\<lparr>tx_status := TxError\<rparr>) m)"
| "ut_on out m = m"

definition ut_object :: "ft_env \<Rightarrow> ft_event \<Rightarrow> use_transfer \<Rightarrow> use_transfer \<times> ft_out list" where
  "ut_object env ev h =
     (case ut_ft h of
        None \<Rightarrow> (h, [])
      | Some s \<Rightarrow> (let (s1, out) = ft_step s (env, ev)
                  in (h\<lparr>ut_ft := Some s1, ut_transfers := fold ut_on out (ut_transfers h)\<rparr>, out)))"

text \<open>The cleanup of the effect and the effect.\<close>

definition ut_cleanup :: "ft_env \<Rightarrow> use_transfer \<Rightarrow> use_transfer \<times> ft_out list" where
  "ut_cleanup env h =
     (case ut_ft h of
        None \<Rightarrow> (h, [])
      | Some s \<Rightarrow> (let s1 = run_state ft_step s (map (\<lambda>(fp, n). (env, CallOffIncoming fp n)) (ut_cleanups h));
                      (s2, out) = ft_destroy s1
                  in (h\<lparr>ut_ft := None, ut_cleanups := []\<rparr>, out)))"

definition ut_mount :: "ft_env \<Rightarrow> use_transfer \<Rightarrow> use_transfer \<times> ft_out list" where
  "ut_mount env h = (let (h1, out) = ut_cleanup env h in (h1\<lparr>ut_ft := Some new_FileTransfer\<rparr>, out))"

section \<open>The functions the hook returns\<close>

definition ut_name :: "string option \<Rightarrow> string option \<Rightarrow> string" where
  "ut_name filename fileName =
     (case filename of Some n \<Rightarrow> n | None \<Rightarrow> (case fileName of Some n \<Rightarrow> n | None \<Rightarrow> ''file''))"

definition ut_send ::
  "ft_env \<Rightarrow> bool \<Rightarrow> string \<Rightarrow> string \<Rightarrow> string \<Rightarrow> bytes \<Rightarrow> string option \<Rightarrow> string option \<Rightarrow> string \<Rightarrow>
   use_transfer \<Rightarrow> use_transfer \<times> ft_out list" where
  "ut_send env connected u i peer file filename fileName mime h =
     (if ut_ft h = None then (h, [SendRejected ''FileTransfer not initialized''])
      else (let name = ut_name filename fileName
            in ut_object env (CallSend connected i peer file (Some name) fileName mime)
                 (h\<lparr>ut_transfers := map_set u (sent_row u name (length file)) (ut_transfers h)\<rparr>)))"

definition throws :: "ft_out list \<Rightarrow> bool" where
  "throws out = list_ex (\<lambda>a. case a of Throws m \<Rightarrow> True | _ \<Rightarrow> False) out"

definition ut_reject :: "ft_env \<Rightarrow> string \<Rightarrow> use_transfer \<Rightarrow> use_transfer \<times> ft_out list" where
  "ut_reject env i h =
     (let (h1, out) = ut_object env (CallReject i) h
      in (if throws out then h1 else h1\<lparr>ut_transfers := map_del i (ut_transfers h1)\<rparr>, out))"

definition listenToPeer :: "ft_env \<Rightarrow> string \<Rightarrow> use_transfer \<Rightarrow> use_transfer \<times> ft_out list" where
  "listenToPeer env fp h =
     (case ut_ft h of
        None \<Rightarrow> (h, [])
      | Some s \<Rightarrow> (let (h1, out) = ut_object env (CallHandleIncoming fp) h
                  in (h1\<lparr>ut_cleanups := ut_cleanups h1 @ [(fp, ft_fresh s)]\<rparr>, out)))"

definition clearCompleted :: "use_transfer \<Rightarrow> use_transfer" where
  "clearCompleted h =
     h\<lparr>ut_transfers := filter (\<lambda>(i, t). tx_status t \<notin> {TxComplete, TxCancelled, TxError}) (ut_transfers h)\<rparr>"

datatype ut_event =
    UtMount
  | UtUnmount
  | UtSend bool string string string bytes "string option" "string option" string
  | UtAccept string
  | UtReject string
  | UtCancel string
  | UtListen string
  | UtOff string nat           \<comment> \<open>the function a \<open>listenToPeer\<close> of the current object returned\<close>
  | UtClear
  | UtFt ft_event              \<comment> \<open>a peer, a channel, a timer or a task of the object\<close>

fun ft_callback :: "ft_event \<Rightarrow> bool" where
  "ft_callback (PeerData p d ch) = True"
| "ft_callback (TaskResume t) = True"
| "ft_callback (ChanOpened r) = True"
| "ft_callback (ChanLow r) = True"
| "ft_callback (ChanClosedEv r) = True"
| "ft_callback (OpenTimeout t) = True"
| "ft_callback (ReadFails t) = True"
| "ft_callback (OfferTimeout r) = True"
| "ft_callback e = False"

fun ut_step :: "use_transfer \<Rightarrow> ft_env \<times> ut_event \<Rightarrow> use_transfer \<times> ft_out list" where
  "ut_step h (env, UtMount) = ut_mount env h"
| "ut_step h (env, UtUnmount) = ut_cleanup env h"
| "ut_step h (env, UtSend connected u i peer file filename fileName mime) =
     ut_send env connected u i peer file filename fileName mime h"
| "ut_step h (env, UtAccept i) = ut_object env (CallAccept i) h"
| "ut_step h (env, UtReject i) = ut_reject env i h"
| "ut_step h (env, UtCancel i) = ut_object env (CallCancel i) h"
| "ut_step h (env, UtListen fp) = listenToPeer env fp h"
| "ut_step h (env, UtOff fp n) = ut_object env (CallOffIncoming fp n) h"
| "ut_step h (env, UtClear) = (clearCompleted h, [])"
| "ut_step h (env, UtFt e) = (if ft_callback e then ut_object env e h else (h, []))"



section \<open>A file received is displayed complete\<close>

definition has_row :: "string \<Rightarrow> use_transfer \<Rightarrow> bool" where
  "has_row i h \<longleftrightarrow> map_get (ut_transfers h) i \<noteq> None"

lemma tx_update_get: "map_get (tx_update i f m) j = (if j = i then map_option f (map_get m i) else map_get m j)"
  by (auto simp: tx_update_def split: option.split)

lemma ut_on_row: "map_get m i \<noteq> None \<Longrightarrow> map_get (ut_on out m) i \<noteq> None"
  by (cases out) (auto simp: tx_update_get)

lemma ut_on_rows: "map_get m i \<noteq> None \<Longrightarrow> map_get (fold ut_on out m) i \<noteq> None"
  by (induction out arbitrary: m) (simp_all add: ut_on_row del: not_None_eq)

lemma object_row: "has_row i h \<Longrightarrow> has_row i (fst (ut_object env ev h))"
  by (auto simp: has_row_def ut_object_def split_def Let_def ut_on_rows simp del: not_None_eq split: option.split)

lemma object_ft:
  "ut_ft h = Some s \<Longrightarrow> ut_ft (fst (ut_object env ev h)) = Some (fst (ft_step s (env, ev)))"
  "ut_ft h = Some s \<Longrightarrow> snd (ut_object env ev h) = snd (ft_step s (env, ev))"
  by (simp_all add: ut_object_def split_def Let_def)

text \<open>What a call or an event of the hook does to the object, and those that do not concern transfer \<open>i\<close>.\<close>

fun ut_call :: "ut_event \<Rightarrow> ft_event option" where
  "ut_call (UtSend connected u i peer file filename fileName mime) =
     Some (CallSend connected i peer file (Some (ut_name filename fileName)) fileName mime)"
| "ut_call (UtAccept i) = Some (CallAccept i)"
| "ut_call (UtReject i) = Some (CallReject i)"
| "ut_call (UtCancel i) = Some (CallCancel i)"
| "ut_call (UtListen fp) = Some (CallHandleIncoming fp)"
| "ut_call (UtOff fp n) = Some (CallOffIncoming fp n)"
| "ut_call (UtFt e) = (if ft_callback e then Some e else None)"
| "ut_call e = None"

fun ut_foreign :: "string \<Rightarrow> string \<Rightarrow> ut_event \<Rightarrow> bool" where
  "ut_foreign fp i UtClear = False"
| "ut_foreign fp i e = (case ut_call e of None \<Rightarrow> False | Some ev \<Rightarrow> foreign fp i ev)"

lemma call_ft:
  "ut_ft h = Some s \<Longrightarrow> ut_call e = Some ev \<Longrightarrow> ut_ft (fst (ut_step h (env, e))) = Some (fst (ft_step s (env, ev)))"
  by (cases e) (auto simp: ut_send_def ut_reject_def listenToPeer_def split_def Let_def object_ft split: if_splits)

lemma foreign_call: "ut_foreign fp i e \<Longrightarrow> \<exists>ev. ut_call e = Some ev \<and> foreign fp i ev"
  by (cases e) (auto split: if_splits)

lemma foreign_row: "ut_foreign fp i e \<Longrightarrow> has_row i h \<Longrightarrow> has_row i (fst (ut_step h (env, e)))"
proof (cases e)
  case (UtReject j)
  moreover assume "ut_foreign fp i e" "has_row i h"
  ultimately show ?thesis using object_row [of i h env "CallReject j"]
    by (auto simp: ut_reject_def has_row_def split_def Let_def)
next
  case (UtSend c u j p f n m k)
  moreover assume "has_row i h"
  moreover have "has_row i (h\<lparr>ut_transfers := map_set u r (ut_transfers h)\<rparr>)" if "has_row i h" for r
    using that by (simp add: has_row_def)
  ultimately show ?thesis by (auto simp: ut_send_def Let_def intro: object_row)
next
  case (UtListen p)
  moreover assume "has_row i h"
  ultimately show ?thesis using object_row [of i h env "CallHandleIncoming p"]
    by (auto simp: listenToPeer_def has_row_def split_def Let_def split: option.split)
qed (auto simp: object_row split: if_splits)

definition ut_deliveries ::
  "bytes \<Rightarrow> nat \<Rightarrow> string \<Rightarrow> string \<Rightarrow> (ft_env \<times> (nat + ut_event)) list \<Rightarrow> (ft_env \<times> ut_event) list" where
  "ut_deliveries f c fp i xs =
     map (\<lambda>(env, x). (env, case x of Inl k \<Rightarrow> UtFt (chunk_ev f c fp i k) | Inr ev \<Rightarrow> ev)) xs"

definition to_ft :: "ft_env \<times> (nat + ut_event) \<Rightarrow> ft_env \<times> (nat + ft_event)" where
  "to_ft = (\<lambda>(env, x). (env, case x of Inl k \<Rightarrow> Inl k | Inr ev \<Rightarrow> Inr (the (ut_call ev))))"

text \<open>The object of the hook goes through the run of a \<open>FileTransfer\<close>, and the row stays in the table.\<close>

lemma ut_run_follows:
  assumes "ut_ft h = Some s" "has_row i h"
    "\<forall>x\<in>set (map snd xs). case x of Inl k \<Rightarrow> k < n | Inr ev \<Rightarrow> ut_foreign fp i ev"
  shows "ut_ft (run_state ut_step h (ut_deliveries f c fp i xs)) =
      Some (run_state ft_step s (deliveries f c fp i (map to_ft xs)))
    \<and> has_row i (run_state ut_step h (ut_deliveries f c fp i xs))"
  using assms
proof (induction xs arbitrary: h s)
  case Nil
  then show ?case by (simp add: ut_deliveries_def)
next
  case (Cons x xs)
  obtain env y where x: "x = (env, y)" by (cases x)
  let ?e = "case y of Inl k \<Rightarrow> UtFt (chunk_ev f c fp i k) | Inr ev \<Rightarrow> ev"
  let ?v = "case y of Inl k \<Rightarrow> chunk_ev f c fp i k | Inr ev \<Rightarrow> the (ut_call ev)"
  have call: "ut_call ?e = Some ?v"
    using Cons.prems(3) x by (auto simp: chunk_ev_def split: sum.split) (fastforce dest: foreign_call)
  have "has_row i (fst (ut_step h (env, ?e)))"
    using Cons.prems(2,3) x by (cases y) (auto simp: chunk_ev_def object_row intro: foreign_row)
  from Cons.IH [OF call_ft [OF Cons.prems(1) call, of env] this] Cons.prems(3)
  show ?case by (cases y) (simp_all add: x to_ft_def ut_deliveries_def deliveries_def del: ut_step.simps run.simps(2))
qed



lemma to_ft_foreign:
  assumes "\<forall>x\<in>set (map snd xs). case x of Inl k \<Rightarrow> k < n | Inr ev \<Rightarrow> ut_foreign fp i ev"
  shows "\<forall>x\<in>set (map snd (map to_ft xs)). case x of Inl k \<Rightarrow> k < n | Inr ev \<Rightarrow> foreign fp i ev"
proof -
  have "case y of Inl k \<Rightarrow> k < n | Inr ev \<Rightarrow> foreign fp i ev"
    if "case x of Inl k \<Rightarrow> k < n | Inr ev \<Rightarrow> ut_foreign fp i ev" "y = snd (to_ft (env, x))" for x y env
    using that by (cases x) (auto simp: to_ft_def dest: foreign_call)
  with assms show ?thesis by fastforce
qed

lemma fold_same:
  assumes "set out = {x}" "map_get m i \<noteq> None"
    and "\<And>m. map_get m i \<noteq> None \<Longrightarrow> \<exists>t. map_get (ut_on x m) i = Some t \<and> Q t"
  shows "\<exists>t. map_get (fold ut_on out m) i = Some t \<and> Q t"
proof -
  have "out \<noteq> []" using assms(1) by auto
  then obtain ys y where out: "out = ys @ [y]" by (meson rev_exhaust)
  then have "y = x" using assms(1) by auto
  with assms(3) [OF ut_on_rows [OF assms(2)], of ys] show ?thesis by (simp add: out)
qed

lemma dispatch_offer_row:
  assumes "LIncoming m \<in> set ls" "(fp, LIncoming m) \<in> set (ft_attached s)" "n < 2 ^ 32"
  shows "EmitIncoming \<lparr>m_id = i, m_filename = nm, m_size = sz, m_mime = mime, m_totalChunks = n, m_chunkSize = c\<rparr> fp
    \<in> set (snd (dispatch env fp (Ctl (Offer i nm sz mime c n)) ch ls s))"
  using assms(1,2)
proof (induction ls arbitrary: s)
  case (Cons l ls)
  have att: "(fp, LIncoming m) \<in> set (ft_attached (fst (handleControl env (Offer i nm sz mime c n) fp s)))"
    using Cons.prems(2) by (simp add: handleControl_def Let_def)
  show ?case
  proof (cases "is_incoming l \<and> (fp, l) \<in> set (ft_attached s)")
    case True
    then show ?thesis using assms(3)
      by (cases l) (auto simp: on_incoming_data_def handleControl_def split_def Let_def)
  next
    case False
    with Cons.prems have "LIncoming m \<in> set ls" by auto
    from Cons.IH [OF this Cons.prems(2)] False show ?thesis
      by (cases l) (auto simp: split_def Let_def on_send_data_def)
  qed
qed simp

lemma incoming_has_row:
  "EmitIncoming meta from \<in> set out \<Longrightarrow> map_get (fold ut_on out m) (m_id meta) \<noteq> None"
proof (induction out arbitrary: m)
  case (Cons a out)
  show ?case
  proof (cases "a = EmitIncoming meta from")
    case True
    then show ?thesis using ut_on_rows [of "ut_on a m" "m_id meta" out] by simp
  next
    case False
    with Cons show ?thesis by simp
  qed
qed simp

text \<open>
  C38. A file received through the hook is displayed complete with its bytes.  While the hook is
  mounted and listens to a peer, let that peer announce a file, let its chunks arrive in any order and
  with repetitions, between any other calls of the hook's functions and events that do not concern this
  transfer, and let the completion message arrive.  If every chunk was delivered the table shows the
  transfer as complete, at 100, with exactly the bytes of the file; otherwise it shows an error.
\<close>

theorem received_file_displayed:
  assumes "0 < c" "n = ceil_div (length f) c" "n < 2 ^ 32" "i \<noteq> []"
    and "ut_ft h = Some s" "(fp, LIncoming m) \<in> set (ft_attached s)"
    and "h1 = fst (ut_step h (e0, UtFt (PeerData fp (Ctl (Offer i nm (length f) mime c n)) ch)))"
    and "\<forall>x\<in>set (map snd xs). case x of Inl k \<Rightarrow> k < n | Inr ev \<Rightarrow> ut_foreign fp i ev"
    and "h2 = run_state ut_step h1 (ut_deliveries f c fp i xs)"
    and "h3 = fst (ut_step h2 (e1, UtFt (PeerData fp (Ctl (Complete i)) ch')))"
  shows "\<exists>t. map_get (ut_transfers h3) i = Some t \<and>
    (if {..<n} \<subseteq> delivered (map to_ft xs)
     then tx_status t = TxComplete \<and> tx_progress t = Some 100 \<and> tx_blob t = Some f
     else tx_status t = TxError)"
proof -
  let ?o = "PeerData fp (Ctl (Offer i nm (length f) mime c n)) ch" and ?c = "PeerData fp (Ctl (Complete i)) ch'"
  let ?s1 = "fst (ft_step s (e0, ?o))" and ?s2 = "run_state ft_step (fst (ft_step s (e0, ?o))) (deliveries f c fp i (map to_ft xs))"
  let ?Q = "\<lambda>t. if {..<n} \<subseteq> delivered (map to_ft xs)
     then tx_status t = TxComplete \<and> tx_progress t = Some 100 \<and> tx_blob t = Some f else tx_status t = TxError"
  have f1: "ut_ft h1 = Some ?s1" using assms(5) by (simp add: assms(7) object_ft)
  have "LIncoming m \<in> set (map snd (filter (\<lambda>(p, _). p = fp) (ft_attached s)))" using assms(6) by force
  from dispatch_offer_row [OF this assms(6,3)]
  have "EmitIncoming \<lparr>m_id = i, m_filename = nm, m_size = length f, m_mime = mime, m_totalChunks = n, m_chunkSize = c\<rparr> fp
    \<in> set (snd (ft_step s (e0, ?o)))" by (simp add: peer_data_def)
  from incoming_has_row [OF this, of "ut_transfers h"] have r1: "has_row i h1"
    using assms(5) by (simp add: assms(7) has_row_def ut_object_def split_def Let_def del: not_None_eq ft_step.simps)
  from ut_run_follows [OF f1 r1 assms(8)] have f2: "ut_ft h2 = Some ?s2" "has_row i h2" by (simp_all add: assms(9))
  have fr: "\<forall>x\<in>set (map snd (map to_ft xs)). case x of Inl k \<Rightarrow> k < n | Inr ev \<Rightarrow> foreign fp i ev"
    using assms(8) by (rule to_ft_foreign)
  let ?x = "if {..<n} \<subseteq> delivered (map to_ft xs)
     then EmitComplete i f \<lparr>m_id = i, m_filename = nm, m_size = length f, m_mime = mime, m_totalChunks = n, m_chunkSize = c\<rparr> fp
     else EmitError i (LEAST k. k \<notin> delivered (map to_ft xs))"
  have out: "set (snd (ft_step ?s2 (e1, ?c))) = {?x}"
    unfolding reassembly [OF assms(1-3,6) refl refl fr refl] by (simp only: if_distrib [of "\<lambda>x. {x}"])
  have h3: "ut_transfers h3 = fold ut_on (snd (ft_step ?s2 (e1, ?c))) (ut_transfers h2)"
    using f2(1) by (simp add: assms(10) ut_object_def split_def Let_def)
  show ?thesis unfolding h3
    by (rule fold_same [OF out]) (use f2(2) in \<open>auto simp: tx_update_get has_row_def assms(4)\<close>)
qed



definition demo_ut :: use_transfer where
  "demo_ut = run_state ut_step new_useFileTransfer [(demo_env, UtMount), (demo_env, UtListen ''p'')]"

definition demo_arrivals :: "(ft_env \<times> (nat + ut_event)) list" where
  "demo_arrivals = [(demo_env, Inl 1), (demo_env, Inr (UtAccept ''x'')), (demo_env, Inl 0), (demo_env, Inl 1)]"

lemma demo_ut_ft: "ut_ft demo_ut = Some demo_listening"
  by (simp add: demo_ut_def demo_listening_def new_useFileTransfer_def ut_mount_def ut_cleanup_def listenToPeer_def ut_object_def)

lemma demo_arrivals_facts:
  "\<forall>x\<in>set (map snd demo_arrivals). case x of Inl k \<Rightarrow> k < (2::nat) | Inr ev \<Rightarrow> ut_foreign ''p'' ''x'' ev"
  "{..<2} \<subseteq> delivered (map to_ft demo_arrivals)"
  by (auto simp: demo_arrivals_def to_ft_def)

definition demo_file :: bytes where "demo_file = [1, 2, 3]"

theorem received_file_displayed_witness:
  "\<exists>t. map_get (ut_transfers (fst (ut_step (run_state ut_step (fst (ut_step demo_ut
       (demo_env, UtFt (PeerData ''p'' (Ctl (Offer ''x'' ''f'' (length demo_file) ''m'' 2 2)) ''data''))))
       (ut_deliveries demo_file 2 ''p'' ''x'' demo_arrivals))
       (demo_env, UtFt (PeerData ''p'' (Ctl (Complete ''x'')) ''data''))))) ''x'' = Some t
     \<and> tx_status t = TxComplete \<and> tx_progress t = Some 100 \<and> tx_blob t = Some demo_file"
proof -
  have att: "(''p'', LIncoming 0) \<in> set (ft_attached demo_listening)"
    by (simp add: demo_listening_def handleIncoming_def new_FileTransfer_def)
  have n: "0 < (2::nat)" "(2::nat) = ceil_div (length demo_file) 2" "(2::nat) < 2 ^ 32" "''x'' \<noteq> []"
    by (simp_all add: ceil_div_def demo_file_def)
  show ?thesis
    by (rule received_file_displayed [OF n demo_ut_ft att refl demo_arrivals_facts(1) refl refl,
        unfolded if_P [OF demo_arrivals_facts(2)]])
qed

section \<open>A file sent is never displayed as sent\<close>

text \<open>
  The object does not know an identifier; the events that bring one in; the transfer an event the
  object emits is about.
\<close>

definition unused :: "string \<Rightarrow> filetransfer \<Rightarrow> bool" where
  "unused u s \<longleftrightarrow> (\<forall>a\<in>set (ft_sends s). as_id a \<noteq> u) \<and> map_get (ft_sending s) u = None \<and> map_get (ft_receiving s) u = None
     \<and> (\<forall>x\<in>set (ft_tasks s). fst x < length (ft_sends s)) \<and> (\<forall>p r. (p, LSend r) \<in> set (ft_attached s) \<longrightarrow> r < length (ft_sends s))"

fun brings :: "string \<Rightarrow> ft_event \<Rightarrow> bool" where
  "brings u (CallSend c i p f n m k) = (i = u)"
| "brings u (PeerData p (Ctl (Offer i nm sz mime c n)) ch) = (i = u)"
| "brings u e = False"

fun out_id :: "ft_out \<Rightarrow> string option" where
  "out_id (EmitProgress p) = Some (pr_id p)"
| "out_id (EmitIncoming meta from) = Some (m_id meta)"
| "out_id (EmitSent i) = Some i"
| "out_id (EmitComplete i b meta from) = Some i"
| "out_id (EmitError i n) = Some i"
| "out_id (EmitCancelled i) = Some i"
| "out_id e = None"

definition silent_on :: "string \<Rightarrow> filetransfer \<times> ft_out list \<Rightarrow> bool" where
  "silent_on u r \<longleftrightarrow> unused u (fst r) \<and> (\<forall>out\<in>set (snd r). out_id out \<noteq> Some u)"

lemma unused_upd_send:
  assumes "unused u s" "\<And>a. as_id (f a) = as_id a"
  shows "unused u (upd_send r f s)"
proof (cases "r < length (ft_sends s)")
  case True
  then have "as_id (f (ft_sends s ! r)) \<noteq> u" using assms by (simp add: unused_def)
  then have "as_id a \<noteq> u" if "a \<in> set ((ft_sends s)[r := f (ft_sends s ! r)])" for a
    using that set_update_subset_insert [of "ft_sends s" r "f (ft_sends s ! r)"] assms(1) by (auto simp: unused_def)
  then show ?thesis using assms(1) by (simp add: unused_def upd_send_def)
next
  case False
  with assms show ?thesis by (simp add: unused_def upd_send_def list_update_beyond)
qed


lemma unused_set_pc: "unused u s \<Longrightarrow> unused u (set_pc t pc s)"
proof (cases "t < length (ft_tasks s)")
  case True
  assume u: "unused u s"
  from True have "ft_tasks s ! t \<in> set (ft_tasks s)" by simp
  with u have "fst (ft_tasks s ! t) < length (ft_sends s)" by (auto simp: unused_def)
  then have "fst x < length (ft_sends s)" if "x \<in> set ((ft_tasks s)[t := (fst (ft_tasks s ! t), pc)])" for x
    using that set_update_subset_insert [of "ft_tasks s" t "(fst (ft_tasks s ! t), pc)"] u by (auto simp: unused_def)
  with u show ?thesis by (simp add: unused_def set_pc_def)
qed (simp add: set_pc_def list_update_beyond unused_def)

lemma unused_maps:
  "unused u s \<Longrightarrow> unused u (s\<lparr>ft_sending := map_del i (ft_sending s)\<rparr>)"
  "unused u s \<Longrightarrow> unused u (s\<lparr>ft_receiving := map_del i (ft_receiving s)\<rparr>)"
  "unused u s \<Longrightarrow> i \<noteq> u \<Longrightarrow> unused u (s\<lparr>ft_receiving := map_set i v (ft_receiving s)\<rparr>)"
  "unused u s \<Longrightarrow> unused u (s\<lparr>ft_channelListeners := m\<rparr>)"
  "unused u s \<Longrightarrow> unused u (detach r s)"
  "unused u s \<Longrightarrow> unused u (s\<lparr>ft_attached := filter P (ft_attached s)\<rparr>)"
  "unused u s \<Longrightarrow> unused u (s\<lparr>ft_receiving := []\<rparr>)"
  "unused u s \<Longrightarrow> unused u (handleIncoming p s)"
  by (auto simp: unused_def detach_def handleIncoming_def)

lemma unused_sent: "unused u s \<Longrightarrow> r < length (ft_sends s) \<Longrightarrow> as_id (ft_sends s ! r) \<noteq> u"
  by (simp add: unused_def)

lemma unused_keys: "unused u s \<Longrightarrow> map_get (ft_sending s) i = Some r \<Longrightarrow> i \<noteq> u"
  "unused u s \<Longrightarrow> map_get (ft_receiving s) i = Some v \<Longrightarrow> i \<noteq> u"
  "unused u s \<Longrightarrow> map_has (ft_receiving s) i \<Longrightarrow> i \<noteq> u"
  by (auto simp: unused_def map_has_get)

lemma unused_settle: "unused u s \<Longrightarrow> unused u (as_settle p r s)"
  by (simp add: as_settle_def unused_upd_send)

lemmas unused_intros = unused_upd_send unused_set_pc unused_maps unused_settle

lemma silent_cleanup: "unused u s \<Longrightarrow> silent_on u (cleanupSend i s)"
  by (auto simp: silent_on_def cleanupSend_def Let_def intro!: unused_intros split: option.split)

lemma silent_cancel: "unused u s \<Longrightarrow> silent_on u (cancelSend i s)"
proof (cases "map_get (ft_sending s) i")
  case (Some r)
  moreover assume u: "unused u s"
  moreover have "silent_on u (cleanupSend i (upd_send r (\<lambda>a. a\<lparr>as_cancelled := True\<rparr>) s))"
    by (intro silent_cleanup unused_intros u) simp
  ultimately show ?thesis using unused_keys(1) [OF u Some]
    by (auto simp: cancelSend_def Let_def split_def silent_on_def intro: unused_settle)
qed (simp add: cancelSend_def silent_on_def)

lemma unused_loop:
  "unused u s \<Longrightarrow> unused u (read_slice t r s)" "unused u s \<Longrightarrow> unused u (drain env t s)"
  "unused u s \<Longrightarrow> unused u (after_loop env t r s)" "unused u s \<Longrightarrow> unused u (loop_top env t r s)"
  by (auto simp: read_slice_def drain_def after_loop_def loop_top_def Let_def intro!: unused_intros)

lemma unused_start: "unused u s \<Longrightarrow> r < length (ft_sends s) \<Longrightarrow> unused u (startSending env r s)"
proof -
  assume "unused u s" "r < length (ft_sends s)"
  then have "unused u (s\<lparr>ft_tasks := ft_tasks s @ [(r, TOpenWait)]\<rparr>)" by (auto simp: unused_def)
  then show ?thesis by (auto simp: startSending_def Let_def intro!: unused_loop unused_upd_send)
qed

lemma silent_push:
  assumes u: "unused u s" and r: "r < length (ft_sends s)"
  shows "silent_on u (push_chunk env t r b s)" "silent_on u (fail_send t r msg s)" "silent_on u (finish_send env t r s)"
proof -
  show fail: "silent_on u (fail_send t r msg s)" for msg
    using silent_cleanup [OF u] by (auto simp: fail_send_def silent_on_def Let_def split_def intro: unused_intros)
  show "silent_on u (finish_send env t r s)" using silent_cleanup [OF u] unused_sent [OF u r]
    by (auto simp: finish_send_def silent_on_def Let_def split_def intro: unused_intros)
  have "unused u (upd_send r (\<lambda>a. a\<lparr>as_bytesSent := as_bytesSent a + length b, as_currentIndex := as_currentIndex a + 1\<rparr>) s)"
    by (rule unused_upd_send [OF u]) simp
  with unused_sent [OF u r] fail show "silent_on u (push_chunk env t r b s)"
    by (auto simp: push_chunk_def Let_def silent_on_def send_progress_def r upd_send_def [of r] intro!: unused_set_pc unused_loop)
qed



lemma silent_resume: "unused u s \<Longrightarrow> silent_on u (task_resume env t s)"
proof (cases "t < length (ft_tasks s)")
  case True
  assume u: "unused u s"
  obtain r pc where x: "ft_tasks s ! t = (r, pc)" by fastforce
  from True have "ft_tasks s ! t \<in> set (ft_tasks s)" by simp
  with u x have r: "r < length (ft_sends s)" by (auto simp: unused_def)
  show ?thesis using True x silent_push [OF u r] u
    by (auto simp: task_resume_def silent_on_def intro: unused_loop split: task_pc.split)
qed (simp add: task_resume_def silent_on_def)

lemma silent_control:
  assumes u: "unused u s" and c: "\<not> brings u (PeerData p (Ctl c) ch)"
  shows "silent_on u (handleControl env c fp s)"
proof (cases c)
  case (Cancel i)
  have "silent_on u (if map_has (ft_sending s) i then cancelSend i s else (s, []))" (is "silent_on u ?r")
    using silent_cancel [OF u] u by (simp add: silent_on_def)
  moreover have "unused u (t\<lparr>ft_receiving := map_del i (ft_receiving s)\<rparr>)" if "unused u t" for t
    using u that by (simp add: unused_def)
  ultimately show ?thesis using unused_keys(3) [of u "fst ?r" i] Cancel
    by (auto simp: handleControl_def Let_def split_def silent_on_def)
next
  case (Complete i)
  then show ?thesis using u unused_keys(2) [OF u, of i]
    by (auto simp: handleControl_def assembleFile_def Let_def silent_on_def intro: unused_maps split: option.split)
qed (use u c in \<open>auto simp: handleControl_def Let_def silent_on_def intro: unused_maps\<close>)

lemma silent_reply: "out \<in> set (reply_quietly env fp c) \<Longrightarrow> out_id out = None"
  by (auto simp: reply_quietly_def split: if_splits)

lemma silent_chunk: "unused u s \<Longrightarrow> silent_on u (handleBinaryChunk env b fp ch s)"
  using unused_keys(2) [of u s]
  by (auto simp: handleBinaryChunk_def Let_def silent_on_def recv_progress_def silent_reply intro: unused_maps split: option.split)

lemma silent_send_data:
  assumes "unused u s" "r < length (ft_sends s)"
  shows "silent_on u (on_send_data env r d s)"
proof -
  have "unused u (upd_send r (\<lambda>a. a\<lparr>as_currentIndex := n\<rparr>) s)" for n by (rule unused_upd_send [OF assms(1)]) simp
  from unused_start [OF this, where r = r and env = env]
  have "unused u (startSending env r (upd_send r (\<lambda>a. a\<lparr>as_currentIndex := n\<rparr>) s))" for n
    using assms(2) by (simp add: upd_send_def)
  moreover note silent_cancel [OF assms(1)] unused_start [OF assms]
  ultimately show ?thesis using assms(1)
    by (auto simp: on_send_data_def Let_def silent_on_def split: ft_data.split transfer_control.split)
qed

lemma silent_dispatch:
  assumes "\<not> brings u (PeerData p d ch)" "unused u s"
  shows "silent_on u (dispatch env p d ch ls s)"
  using assms(2)
proof (induction ls arbitrary: s)
  case (Cons l ls)
  have "silent_on u (if (p, l) \<notin> set (ft_attached s) then (s, [])
     else case l of LIncoming _ \<Rightarrow> on_incoming_data env p d ch s | LSend r \<Rightarrow> on_send_data env r d s)" (is "silent_on u ?r")
    using Cons.prems assms(1)
    by (auto simp: on_incoming_data_def silent_chunk silent_control intro!: silent_send_data split: data_listener.split ft_data.split)
      (auto simp: silent_on_def unused_def)
  with Cons.IH [of "fst ?r"] show ?case by (auto simp: split_def Let_def silent_on_def)
qed (simp add: silent_on_def)



lemma silent_destroy: "unused u s \<Longrightarrow> silent_on u (ft_destroy s)"
proof -
  assume u: "unused u s"
  have mark: "unused u (fold (\<lambda>(i, r). upd_send r (\<lambda>a. a\<lparr>as_cancelled := True\<rparr>)) m t)" if "unused u t" for m t
    using that by (induction m arbitrary: t) (simp_all add: unused_upd_send split_def)
  have clean: "silent_on u (fold (\<lambda>i (s, out). let (s', o') = cleanupSend i s in (s', out @ o')) ks x)" if "silent_on u x" for ks x
    using that
  proof (induction ks arbitrary: x)
    case (Cons k ks)
    then have "silent_on u (cleanupSend k (fst x))" by (intro silent_cleanup) (simp add: silent_on_def)
    then have "silent_on u (fst (cleanupSend k (fst x)), snd x @ snd (cleanupSend k (fst x)))"
      using Cons.prems by (auto simp: silent_on_def)
    from Cons.IH [OF this] show ?case by (simp add: split_def Let_def)
  qed simp
  have "silent_on u (fold (\<lambda>(i, r). upd_send r (\<lambda>a. a\<lparr>as_cancelled := True\<rparr>)) (ft_sending s) s, [])"
    using mark [OF u] by (simp add: silent_on_def)
  from clean [OF this] show ?thesis
    by (auto simp: ft_destroy_def Let_def split_def silent_on_def intro: unused_maps)
qed

lemma silent_step:
  assumes u: "unused u s" and e: "\<not> brings u ev"
  shows "silent_on u (ft_step s (env, ev))"
proof (cases ev)
  case (CallSend c i p f n m k)
  then show ?thesis using u e by (auto simp: ft_send_def Let_def silent_on_def unused_def nth_append less_Suc_eq)
next
  case (CallCancel i)
  have "silent_on u (if map_has (ft_sending s) i then cancelSend i s else (s, []))" (is "silent_on u ?r")
    using silent_cancel [OF u] u by (simp add: silent_on_def)
  moreover have "unused u (t\<lparr>ft_receiving := map_del i (ft_receiving s)\<rparr>)" if "unused u t" for t
    using u that by (simp add: unused_def)
  ultimately show ?thesis using unused_keys(2) [of u "fst ?r" i] CallCancel
    by (auto simp: ft_cancel_def Let_def split_def silent_on_def silent_reply split: option.split)
next
  case (PeerData p d ch)
  then show ?thesis using silent_dispatch [OF _ u] e by (simp add: peer_data_def)
next
  case (OfferTimeout r)
  have "silent_on u (cleanupSend i (upd_send r (\<lambda>a. a\<lparr>as_timer := False\<rparr>) s))" for i
    by (intro silent_cleanup unused_upd_send [OF u]) simp
  then show ?thesis using OfferTimeout u
    by (auto simp: offer_timeout_def Let_def split_def silent_on_def intro!: unused_upd_send)
next
  case (ReadFails t)
  show ?thesis
  proof (cases "t < length (ft_tasks s)")
    case True
    then have "ft_tasks s ! t \<in> set (ft_tasks s)" by simp
    with u have "fst (ft_tasks s ! t) < length (ft_sends s)" by (auto simp: unused_def)
    from silent_push(2) [OF u this] ReadFails u show ?thesis
      by (auto simp: read_fails_def silent_on_def split: task_pc.split prod.split)
  qed (simp add: ReadFails u read_fails_def silent_on_def)
qed (use u in \<open>auto simp: ft_accept_def ft_reject_def requestResume_def reply_def silent_resume silent_destroy
      chan_open_def chan_low_def chan_closed_def open_timeout_def Let_def intro!: unused_intros split: option.split\<close>,
     use u in \<open>auto simp: silent_on_def chan_open_def chan_low_def chan_closed_def open_timeout_def ft_accept_def ft_reject_def
      requestResume_def reply_def Let_def intro!: unused_intros split: option.split\<close>)



text \<open>The hook and an identifier: the events that bring it in, and a row it no longer touches.\<close>

fun ut_names :: "string \<Rightarrow> ut_event \<Rightarrow> bool" where
  "ut_names u (UtSend c v i p f n m k) = (v = u \<or> i = u)"
| "ut_names u (UtReject i) = (i = u)"
| "ut_names u (UtFt e) = brings u e"
| "ut_names u e = False"

definition ut_unused :: "string \<Rightarrow> use_transfer \<Rightarrow> bool" where
  "ut_unused u h = (case ut_ft h of None \<Rightarrow> True | Some s \<Rightarrow> unused u s)"

definition frozen :: "string \<Rightarrow> tx_row \<Rightarrow> use_transfer \<Rightarrow> bool" where
  "frozen u t h \<longleftrightarrow> ut_unused u h \<and> map_get (ut_transfers h) u = Some t"

lemma ut_on_other: "out_id out \<noteq> Some u \<Longrightarrow> map_get (ut_on out m) u = map_get m u"
  by (cases out) (auto simp: tx_update_get)

lemma ut_on_others: "\<forall>out\<in>set outs. out_id out \<noteq> Some u \<Longrightarrow> map_get (fold ut_on outs m) u = map_get m u"
  by (induction outs arbitrary: m) (simp_all add: ut_on_other)

lemma object_unused:
  assumes "ut_unused u h" "\<not> brings u ev"
  shows "ut_unused u (fst (ut_object env ev h))"
    "map_get (ut_transfers (fst (ut_object env ev h))) u = map_get (ut_transfers h) u"
proof -
  have "silent_on u (ft_step s (env, ev))" if "ut_ft h = Some s" for s
    using assms that by (intro silent_step) (auto simp: ut_unused_def)
  then show "ut_unused u (fst (ut_object env ev h))"
    "map_get (ut_transfers (fst (ut_object env ev h))) u = map_get (ut_transfers h) u"
    by (auto simp: ut_object_def ut_unused_def silent_on_def split_def Let_def ut_on_others split: option.split)
qed

lemma map_get_filter: "map_get m k = Some v \<Longrightarrow> P (k, v) \<Longrightarrow> map_get (filter P m) k = Some v"
  by (induction m) (auto split: if_splits)

lemma cleanup_unused: "ut_unused u (fst (ut_cleanup env h))" if "ut_unused u h"
  using that by (auto simp: ut_cleanup_def ut_unused_def Let_def split_def split: option.split)

lemma cleanup_rows [simp]: "ut_transfers (fst (ut_cleanup env h)) = ut_transfers h"
  by (simp add: ut_cleanup_def Let_def split_def split: option.split)

lemma new_unused: "unused u new_FileTransfer"
  by (simp add: unused_def new_FileTransfer_def)

lemma ut_unused_field [simp]: "ut_unused u (h\<lparr>ut_transfers := m\<rparr>) = ut_unused u h"
  "ut_unused u (h\<lparr>ut_cleanups := x\<rparr>) = ut_unused u h"
  by (simp_all add: ut_unused_def)

lemma send_unused:
  assumes "ut_unused u h" "i \<noteq> u"
  shows "ut_unused u (fst (ut_send env c v i p f n m k h))"
    "map_get (ut_transfers (fst (ut_send env c v i p f n m k h))) u =
     (if v = u \<and> ut_ft h \<noteq> None then Some (sent_row u (ut_name n m) (length f)) else map_get (ut_transfers h) u)"
  using assms by (auto simp: ut_send_def Let_def object_unused)

lemma ut_unused_step:
  assumes "ut_unused u h" "\<not> ut_names u e"
  shows "ut_unused u (fst (ut_step h (env, e)))"
    "map_get (ut_transfers h) u = Some t \<Longrightarrow> tx_status t = TxActive \<Longrightarrow>
     map_get (ut_transfers (fst (ut_step h (env, e)))) u = Some t"
proof -
  have "ut_unused u (fst (ut_step h (env, e))) \<and> (map_get (ut_transfers h) u = Some t \<longrightarrow> tx_status t = TxActive \<longrightarrow>
     map_get (ut_transfers (fst (ut_step h (env, e)))) u = Some t)"
    using assms
    by (cases e) (auto simp: object_unused send_unused cleanup_unused ut_mount_def ut_reject_def listenToPeer_def clearCompleted_def
        Let_def split_def map_get_filter split: option.split, simp add: ut_unused_def new_unused)
  then show "ut_unused u (fst (ut_step h (env, e)))"
    "map_get (ut_transfers h) u = Some t \<Longrightarrow> tx_status t = TxActive \<Longrightarrow>
     map_get (ut_transfers (fst (ut_step h (env, e)))) u = Some t" by blast+
qed



interpretation frozen_row: machine ut_step "\<lambda>h. tx_status t = TxActive \<and> frozen u t h" "\<lambda>e. \<not> ut_names u (snd e)" for t u
  by unfold_locales (auto simp: frozen_def ut_unused_step simp del: ut_step.simps)

interpretation unknown_id: machine ut_step "ut_unused u" "\<lambda>e. \<not> ut_names u (snd e)" for u
  by unfold_locales (auto simp: ut_unused_step simp del: ut_step.simps)

text \<open>
  C39. A file sent through the hook stays active at 0 for ever.  The hook files a transfer it sends
  under an identifier of its own, which the \<open>FileTransfer\<close> object does not know.  Whatever happens
  afterwards (acceptance, progress, completion, cancellation by the peer, \<open>clearCompleted\<close>, remounting),
  as long as nobody else uses that identifier the row stays as it was made, and \<open>cancel\<close> with the
  identifier \<open>send\<close> returned does nothing.
\<close>

theorem sent_transfer_never_updated:
  assumes "list_all (\<lambda>e. \<not> ut_names u (snd e)) (es @ fs)" "i \<noteq> u"
    and "h = run_state ut_step new_useFileTransfer es" "ut_ft h \<noteq> None"
    and "h' = run_state ut_step (fst (ut_step h (env, UtSend c u i p f n m k))) fs"
  shows "map_get (ut_transfers h') u = Some (sent_row u (ut_name n m) (length f))
     \<and> ut_step h' (env', UtCancel u) = (h', [])"
proof -
  let ?t = "sent_row u (ut_name n m) (length f)"
  have es: "list_all (\<lambda>e. \<not> ut_names u (snd e)) es" "list_all (\<lambda>e. \<not> ut_names u (snd e)) fs" using assms(1) by auto
  have "ut_unused u h" unfolding assms(3)
    by (rule unknown_id.run_inv [OF _ es(1)]) (simp add: ut_unused_def new_useFileTransfer_def)
  with assms(2,4) have "tx_status ?t = TxActive \<and> frozen u ?t (fst (ut_step h (env, UtSend c u i p f n m k)))"
    by (simp add: frozen_def send_unused sent_row_def)
  from frozen_row.run_inv [OF this es(2)] have fr: "frozen u ?t h'" by (simp add: assms(5))
  have "ft_cancel env' u s = (s, [])" if "ut_ft h' = Some s" for s
    using fr that by (simp add: frozen_def ut_unused_def unused_def ft_cancel_def map_has_get)
  then have "ut_step h' (env', UtCancel u) = (h', [])" by (simp add: ut_object_def split: option.split)
  with fr show ?thesis by (simp add: frozen_def)
qed

text \<open>The object of a hook that stays mounted goes through the calls made on it.\<close>

lemma ut_follow:
  "ut_ft h = Some s \<Longrightarrow> list_all (\<lambda>e. ut_call (snd e) \<noteq> None) es \<Longrightarrow>
   ut_ft (run_state ut_step h es) = Some (run_state ft_step s (map (\<lambda>e. (fst e, the (ut_call (snd e)))) es))"
proof (induction es arbitrary: h s)
  case (Cons e es)
  obtain env ev where e: "e = (env, ev)" by (cases e)
  with Cons.prems obtain v where v: "ut_call ev = Some v" by auto
  from Cons.IH [OF call_ft [OF Cons.prems(1) v, of env]] Cons.prems(2) v show ?case
    by (simp add: e del: ut_step.simps run.simps(2))
qed simp



definition demo_after :: "(ft_env \<times> ut_event) list" where
  "demo_after = map (Pair demo_env) [UtFt (ChanOpened 0), UtFt (PeerData ''p'' (Ctl (Accept ''x'')) ''data''),
     UtFt (TaskResume 0), UtFt (TaskResume 0)]"

definition demo_sent :: use_transfer where
  "demo_sent = run_state ut_step (fst (ut_step (run_state ut_step new_useFileTransfer [(demo_env, UtMount)])
     (demo_env, UtSend True ''u'' ''x'' ''p'' [1, 2, 3] (Some ''f'') None []))) demo_after"

lemma demo_mounted_ft: "ut_ft (run_state ut_step new_useFileTransfer [(demo_env, UtMount)]) = Some new_FileTransfer"
  by (simp add: new_useFileTransfer_def ut_mount_def ut_cleanup_def)

lemma demo_sent_ft: "ut_ft demo_sent = Some (run_state ft_step new_FileTransfer demo_send)"
  using ut_follow [OF demo_mounted_ft, of "(demo_env, UtSend True ''u'' ''x'' ''p'' [1, 2, 3] (Some ''f'') None []) # demo_after"]
  by (simp add: demo_sent_def demo_after_def demo_send_def ut_name_def del: ut_step.simps ft_step.simps run.simps(2))

text \<open>The file has been sent and the promise of the object resolved; the row still says active.\<close>

theorem sent_transfer_never_updated_witness:
  "map_option (\<lambda>s. as_promise (ft_sends s ! 0)) (ut_ft demo_sent) = Some (Resolved ''x'')
   \<and> map_get (ut_transfers demo_sent) ''u'' = Some (sent_row ''u'' ''f'' 3)"
proof -
  have "list_all (\<lambda>e. \<not> ut_names ''u'' (snd e)) ([(demo_env, UtMount)] @ demo_after)" by (simp add: demo_after_def)
  moreover have "ut_ft (run_state ut_step new_useFileTransfer [(demo_env, UtMount)]) \<noteq> None"
    using demo_mounted_ft by (simp del: run_state_Cons)
  ultimately have "map_get (ut_transfers demo_sent) ''u'' = Some (sent_row ''u'' (ut_name (Some ''f'') None) (length ([1, 2, 3] :: bytes)))"
    using sent_transfer_never_updated [OF _ _ refl _ demo_sent_def] by blast
  with demo_sent_ft demo_send_run(4) show ?thesis by (simp add: ut_name_def eval_nat_numeral)
qed

end
