(* ===== verification/Hook_Identity.thy ===== *)
theory Hook_Identity
  imports Crypto_Props
begin

text \<open>
  The React hook \<open>useIdentity\<close> of packages/peerserver-client/src/react/useIdentity.ts: an
  \<open>Identity\<close> kept in \<open>localStorage\<close>.  A run of \<open>init\<close> or \<open>regenerate\<close> is a job suspended at its
  \<open>await\<close>; the methods of \<open>Identity\<close> run to their end between two events.  A run goes on after
  the hook has been unmounted or mounted again, so the identity objects live in a store.  The
  serialisation of exported keys is an argument: \<open>enc\<close> is \<open>JSON.stringify\<close> and \<open>dec\<close> is \<open>JSON.parse\<close>.
\<close>

section \<open>The hook\<close>

datatype ui_job =
    UiRestoring nat exported_identity      \<comment> \<open>\<open>init\<close> awaits \<open>restore\<close> of the object\<close>
  | UiGenerating nat string                \<comment> \<open>\<open>init\<close> awaits \<open>generate\<close>; the key of the storage\<close>
  | UiExporting nat string
  | UiRegenerating nat string              \<comment> \<open>\<open>regenerate\<close> awaits \<open>generate\<close>\<close>
  | UiReexporting nat string

record use_identity =
  ui_objs :: "identity list"
  ui_ref :: "nat option"                   \<comment> \<open>\<open>idRef.current\<close>\<close>
  ui_ready :: bool
  ui_fingerprint :: string
  ui_error :: "string option"
  ui_jobs :: "(nat, ui_job) jsmap"
  ui_fresh :: nat
  ui_storage :: "(string, string) jsmap"   \<comment> \<open>\<open>localStorage\<close>\<close>

datatype ui_event =
    UiMount string
  | UiUnmount
  | UiDone nat nat             \<comment> \<open>a job goes on; the key pair if one was generated\<close>
  | UiFails nat string
  | UiRegenerate string
  | UiClear string

definition new_useIdentity :: "(string, string) jsmap \<Rightarrow> use_identity" where
  "new_useIdentity st = \<lparr>ui_objs = [], ui_ref = None, ui_ready = False, ui_fingerprint = [], ui_error = None,
     ui_jobs = [], ui_fresh = 0, ui_storage = st\<rparr>"

definition ui_spawn :: "ui_job \<Rightarrow> use_identity \<Rightarrow> use_identity" where
  "ui_spawn j h = h\<lparr>ui_jobs := ui_jobs h @ [(ui_fresh h, j)], ui_fresh := Suc (ui_fresh h)\<rparr>"

definition ui_fail :: "string \<Rightarrow> use_identity \<Rightarrow> use_identity" where
  "ui_fail x h = h\<lparr>ui_error := Some x\<rparr>"

text \<open>The effect: a new object, and \<open>init\<close> up to its first \<open>await\<close>.  An empty stored string counts as none.\<close>

definition ui_mount :: "(string \<Rightarrow> exported_identity option) \<Rightarrow> string \<Rightarrow> use_identity \<Rightarrow> use_identity" where
  "ui_mount dec pk h =
     (let r = length (ui_objs h);
          h1 = h\<lparr>ui_objs := ui_objs h @ [new_Identity], ui_ref := Some r\<rparr>
      in case map_get (ui_storage h) pk of
           None \<Rightarrow> ui_spawn (UiGenerating r pk) h1
         | Some t \<Rightarrow>
             if t = [] then ui_spawn (UiGenerating r pk) h1
             else (case dec t of None \<Rightarrow> ui_fail ''SyntaxError'' h1 | Some x \<Rightarrow> ui_spawn (UiRestoring r x) h1))"

definition ui_set_obj :: "nat \<Rightarrow> identity \<Rightarrow> use_identity \<Rightarrow> use_identity" where
  "ui_set_obj r i h = h\<lparr>ui_objs := (ui_objs h)[r := i]\<rparr>"

definition ui_show :: "nat \<Rightarrow> use_identity \<Rightarrow> use_identity" where
  "ui_show r h = h\<lparr>ui_fingerprint := i_fingerprint (ui_objs h ! r)\<rparr>"

definition ui_store :: "(exported_identity \<Rightarrow> string) \<Rightarrow> string \<Rightarrow> exported_identity \<Rightarrow> use_identity \<Rightarrow> use_identity" where
  "ui_store enc pk x h = h\<lparr>ui_storage := map_set pk (enc x) (ui_storage h)\<rparr>"

text \<open>The rest of a run after its \<open>await\<close>; \<open>regenerate\<close> reads \<open>idRef.current\<close> again each time.\<close>

fun ui_resume :: "webcrypto \<Rightarrow> (exported_identity \<Rightarrow> string) \<Rightarrow> ui_job \<Rightarrow> nat \<Rightarrow> use_identity \<Rightarrow> use_identity" where
  "ui_resume w enc (UiRestoring r x) k h =
     (case id_restore w x (ui_objs h ! r) of
        Inl e \<Rightarrow> ui_fail e h
      | Inr i \<Rightarrow> (ui_show r (ui_set_obj r i h))\<lparr>ui_ready := True\<rparr>)"
| "ui_resume w enc (UiGenerating r pk) k h =
     ui_spawn (UiExporting r pk) (ui_set_obj r (id_generate w k (ui_objs h ! r)) h)"
| "ui_resume w enc (UiExporting r pk) k h =
     (case id_export w (ui_objs h ! r) of
        Inl e \<Rightarrow> ui_fail e h
      | Inr x \<Rightarrow> (ui_show r (ui_store enc pk x h))\<lparr>ui_ready := True\<rparr>)"
| "ui_resume w enc (UiRegenerating r pk) k h =
     (let h1 = ui_set_obj r (id_generate w k (ui_objs h ! r)) h in
      case ui_ref h1 of
        None \<Rightarrow> ui_fail ''TypeError'' h1
      | Some r' \<Rightarrow> ui_spawn (UiReexporting r' pk) h1)"
| "ui_resume w enc (UiReexporting r pk) k h =
     (case id_export w (ui_objs h ! r) of
        Inl e \<Rightarrow> ui_fail e h
      | Inr x \<Rightarrow> (let h1 = ui_store enc pk x h in
                 case ui_ref h1 of None \<Rightarrow> ui_fail ''TypeError'' h1 | Some r' \<Rightarrow> ui_show r' h1))"

fun ui_step ::
  "webcrypto \<Rightarrow> (exported_identity \<Rightarrow> string) \<Rightarrow> (string \<Rightarrow> exported_identity option) \<Rightarrow> use_identity \<Rightarrow> ui_event \<Rightarrow>
   use_identity \<times> unit list" where
  "ui_step w enc dec h (UiMount pk) = (ui_mount dec pk h, [])"
| "ui_step w enc dec h UiUnmount = (h\<lparr>ui_ref := None\<rparr>, [])"
| "ui_step w enc dec h (UiDone j k) =
     (case map_get (ui_jobs h) j of
        None \<Rightarrow> (h, [])
      | Some job \<Rightarrow> (ui_resume w enc job k (h\<lparr>ui_jobs := map_del j (ui_jobs h)\<rparr>), []))"
| "ui_step w enc dec h (UiFails j x) =
     (if map_has (ui_jobs h) j then (ui_fail x (h\<lparr>ui_jobs := map_del j (ui_jobs h)\<rparr>), []) else (h, []))"
| "ui_step w enc dec h (UiRegenerate pk) =
     (case ui_ref h of None \<Rightarrow> (h, []) | Some r \<Rightarrow> (ui_spawn (UiRegenerating r pk) h, []))"
| "ui_step w enc dec h (UiClear pk) =
     (h\<lparr>ui_storage := map_del pk (ui_storage h), ui_fingerprint := [], ui_ready := False\<rparr>, [])"

definition ui_exportKeys :: "webcrypto \<Rightarrow> use_identity \<Rightarrow> (string + exported_identity) option" where
  "ui_exportKeys w h = map_option (\<lambda>r. id_export w (ui_objs h ! r)) (ui_ref h)"



section \<open>The stored identity\<close>

definition exported_ok :: "webcrypto \<Rightarrow> exported_identity \<Rightarrow> bool" where
  "exported_ok w x \<longleftrightarrow> x_fingerprint x = [] \<and> x_alias x = [] \<and>
     (\<exists>k. x_pub x = btoa (wc_pub w k) \<and> x_private x = wc_export_private w k \<and> x_public x = wc_export_public w k)"

definition object_ok :: "webcrypto \<Rightarrow> identity \<Rightarrow> bool" where
  "object_ok w i \<longleftrightarrow> i_fingerprint i = [] \<and> i_alias i = [] \<and> (\<forall>k. i_keys i = Some k \<longrightarrow> i_pub i = btoa (wc_pub w k))"

fun ui_job_ok :: "webcrypto \<Rightarrow> nat \<Rightarrow> ui_job \<Rightarrow> bool" where
  "ui_job_ok w n (UiRestoring r x) = (r < n \<and> exported_ok w x)"
| "ui_job_ok w n (UiGenerating r pk) = (r < n)"
| "ui_job_ok w n (UiExporting r pk) = (r < n)"
| "ui_job_ok w n (UiRegenerating r pk) = (r < n)"
| "ui_job_ok w n (UiReexporting r pk) = (r < n)"

definition ui_inv :: "webcrypto \<Rightarrow> (exported_identity \<Rightarrow> string) \<Rightarrow> use_identity \<Rightarrow> bool" where
  "ui_inv w enc h \<longleftrightarrow> (\<forall>i\<in>set (ui_objs h). object_ok w i) \<and> ui_fingerprint h = []
     \<and> (\<forall>x\<in>set (ui_jobs h). fst x < ui_fresh h \<and> ui_job_ok w (length (ui_objs h)) (snd x))
     \<and> (\<forall>r. ui_ref h = Some r \<longrightarrow> r < length (ui_objs h))
     \<and> (\<forall>pk t. map_get (ui_storage h) pk = Some t \<longrightarrow> (\<exists>x. t = enc x \<and> exported_ok w x))"

lemma ui_job_mono: "ui_job_ok w n j \<Longrightarrow> n \<le> m \<Longrightarrow> ui_job_ok w m j"
  by (cases j) auto

lemma object_new: "object_ok w new_Identity"
  by (simp add: object_ok_def new_Identity_def)

lemma object_generate: "object_ok w i \<Longrightarrow> object_ok w (id_generate w k i)"
  by (simp add: object_ok_def id_generate_def)

lemma object_export: "object_ok w i \<Longrightarrow> id_export w i = Inr x \<Longrightarrow> exported_ok w x"
  by (auto simp: object_ok_def exported_ok_def id_export_def split: option.splits)

lemma restore_exported:
  assumes "webcrypto_ok w" "exported_ok w x"
  shows "\<exists>i'. id_restore w x i = Inr i' \<and> object_ok w i' \<and> id_export w i' = Inr x"
proof -
  from assms(2) obtain k where x: "x_fingerprint x = []" "x_alias x = []" "x_pub x = btoa (wc_pub w k)"
    "x_private x = wc_export_private w k" "x_public x = wc_export_public w k" by (auto simp: exported_ok_def)
  moreover have "wc_import w (x_private x) (x_public x) = Some k" using assms(1) x by (simp add: webcrypto_ok_def)
  ultimately show ?thesis by (simp add: id_restore_def object_ok_def id_export_def)
qed

lemma ui_inv_object:
  "ui_inv w enc h \<Longrightarrow> r < length (ui_objs h) \<Longrightarrow> object_ok w (ui_objs h ! r)"
  by (simp add: ui_inv_def)

lemma ui_inv_set_obj: "ui_inv w enc h \<Longrightarrow> object_ok w i \<Longrightarrow> ui_inv w enc (ui_set_obj r i h)"
  using set_update_subset_insert [of "ui_objs h" r i] by (auto simp: ui_inv_def ui_set_obj_def)

lemma ui_inv_spawn: "ui_inv w enc h \<Longrightarrow> ui_job_ok w (length (ui_objs h)) j \<Longrightarrow> ui_inv w enc (ui_spawn j h)"
  by (auto simp: ui_inv_def ui_spawn_def)

lemma ui_inv_store: "ui_inv w enc h \<Longrightarrow> exported_ok w x \<Longrightarrow> ui_inv w enc (ui_store enc pk x h)"
  by (auto simp: ui_inv_def ui_store_def)

lemma ui_inv_show: "ui_inv w enc h \<Longrightarrow> r < length (ui_objs h) \<Longrightarrow> ui_inv w enc (ui_show r h)"
  by (frule (1) ui_inv_object) (simp add: ui_inv_def ui_show_def object_ok_def)

lemma ui_inv_fields:
  "ui_inv w enc h \<Longrightarrow> ui_inv w enc (ui_fail e h)" "ui_inv w enc h \<Longrightarrow> ui_inv w enc (h\<lparr>ui_ready := b\<rparr>)"
  "ui_inv w enc h \<Longrightarrow> ui_inv w enc (h\<lparr>ui_ref := None\<rparr>)"
  "ui_inv w enc h \<Longrightarrow> ui_inv w enc (h\<lparr>ui_storage := map_del pk (ui_storage h), ui_fingerprint := [], ui_ready := False\<rparr>)"
  by (auto simp: ui_inv_def ui_fail_def)

lemma ui_inv_del: "ui_inv w enc h \<Longrightarrow> ui_inv w enc (h\<lparr>ui_jobs := map_del j (ui_jobs h)\<rparr>)"
  by (auto simp: ui_inv_def AList.delete_eq)

lemmas ui_inv_intros = ui_inv_set_obj ui_inv_spawn ui_inv_store ui_inv_show ui_inv_fields ui_inv_del

lemma objs_len [simp]: "length (ui_objs (ui_set_obj r i h)) = length (ui_objs h)" "ui_ref (ui_set_obj r i h) = ui_ref h"
  "ui_objs (ui_store enc pk x h) = ui_objs h" "ui_ref (ui_store enc pk x h) = ui_ref h"
  by (simp_all add: ui_set_obj_def ui_store_def)

lemma ui_inv_resume:
  assumes inv: "ui_inv w enc h" and job: "ui_job_ok w (length (ui_objs h)) j" and w: "webcrypto_ok w"
  shows "ui_inv w enc (ui_resume w enc j k h)"
proof (cases j)
  case (UiRestoring r x)
  with job have "exported_ok w x" "r < length (ui_objs h)" by auto
  with restore_exported [OF w this(1), of "ui_objs h ! r"] inv show ?thesis
    by (auto simp: UiRestoring intro!: ui_inv_intros)
next
  case (UiGenerating r pk)
  with job inv show ?thesis by (auto intro!: ui_inv_intros object_generate ui_inv_object)
next
  case (UiExporting r pk)
  with job inv object_export [OF ui_inv_object [OF inv]] show ?thesis
    by (auto intro!: ui_inv_intros split: sum.split)
next
  case (UiRegenerating r pk)
  with job inv show ?thesis
    by (auto simp: Let_def ui_inv_def [of w enc h] intro!: ui_inv_intros object_generate split: option.split)
next
  case (UiReexporting r pk)
  with job inv object_export [OF ui_inv_object [OF inv]] show ?thesis
    by (auto simp: Let_def intro!: ui_inv_intros split: sum.split option.split) (simp add: ui_inv_def)
qed



text \<open>What the hook relies on of \<open>JSON\<close>: exported keys come back from their text, which is not empty.\<close>

definition json_keys ::
  "webcrypto \<Rightarrow> (exported_identity \<Rightarrow> string) \<Rightarrow> (string \<Rightarrow> exported_identity option) \<Rightarrow> bool" where
  "json_keys w enc dec \<longleftrightarrow> (\<forall>x. exported_ok w x \<longrightarrow> enc x \<noteq> [] \<and> dec (enc x) = Some x)"

lemma ui_inv_storage:
  "ui_inv w enc h \<Longrightarrow> map_get (ui_storage h) pk = Some t \<Longrightarrow> \<exists>x. t = enc x \<and> exported_ok w x"
  unfolding ui_inv_def by blast

lemma ui_inv_mount:
  assumes inv: "ui_inv w enc h" and json: "json_keys w enc dec"
  shows "ui_inv w enc (ui_mount dec pk h)"
proof -
  let ?h = "h\<lparr>ui_objs := ui_objs h @ [new_Identity], ui_ref := Some (length (ui_objs h))\<rparr>"
  have h: "ui_inv w enc ?h" using inv object_new by (auto simp: ui_inv_def intro: ui_job_mono)
  have "\<exists>x. exported_ok w x \<and> dec t = Some x" if "map_get (ui_storage h) pk = Some t" for t
    using ui_inv_storage [OF inv that] json by (auto simp: json_keys_def)
  with h show ?thesis by (fastforce simp: ui_mount_def Let_def intro!: ui_inv_spawn ui_inv_fields split: option.split)
qed

lemma ui_step_inv:
  assumes inv: "ui_inv w enc h" and "webcrypto_ok w" "json_keys w enc dec"
  shows "ui_inv w enc (fst (ui_step w enc dec h e))"
proof (cases e)
  case (UiDone j k)
  have "ui_job_ok w (length (ui_objs h)) job" if "map_get (ui_jobs h) j = Some job" for job
    using inv map_of_SomeD [OF that] by (auto simp: ui_inv_def)
  with ui_inv_resume [OF ui_inv_del [OF inv] _ assms(2)] show ?thesis
    by (simp add: UiDone inv split: option.split)
next
  case (UiRegenerate pk)
  with inv show ?thesis by (auto simp: ui_inv_def [of w enc h] intro!: ui_inv_spawn split: option.split)
qed (use assms in \<open>auto intro!: ui_inv_mount ui_inv_intros\<close>)

interpretation identity_hook: machine "ui_step w enc dec" "\<lambda>h. webcrypto_ok w \<and> json_keys w enc dec \<and> ui_inv w enc h" "\<lambda>e. True"
  for w enc dec
  by unfold_locales (blast intro: ui_step_inv)

text \<open>
  C40. The identity kept in the browser's storage comes back.  After any sequence of mounts, unmounts,
  regenerations, clearings and completions or failures of their awaits from an empty storage, every
  text stored under a key is an exported key pair, and a component that mounts with that key becomes
  ready without an error and exports exactly the stored keys.  The displayed fingerprint is the empty
  string in every one of these states: nothing the hook does sets it.
\<close>

theorem stored_identity_restored:
  assumes "webcrypto_ok w" "json_keys w enc dec"
    and "h = run_state (ui_step w enc dec) (new_useIdentity []) es"
    and "map_get (ui_storage h) pk = Some t"
    and "h' = run_state (ui_step w enc dec) h [UiMount pk, UiDone (ui_fresh h) k]"
  shows "\<exists>x. dec t = Some x \<and> ui_exportKeys w h' = Some (Inr x) \<and> ui_ready h' \<and> ui_error h' = ui_error h
     \<and> ui_fingerprint h = [] \<and> ui_fingerprint h' = []"
proof -
  have "ui_inv w enc (new_useIdentity [])" by (simp add: ui_inv_def new_useIdentity_def)
  with identity_hook.run_inv [of w enc dec "new_useIdentity []" es] assms(1,2)
  have inv: "ui_inv w enc h" by (simp add: assms(3) list_all_iff)
  from ui_inv_storage [OF this assms(4)] obtain x where x: "t = enc x" "exported_ok w x" by blast
  then have t: "t \<noteq> []" "dec t = Some x" using assms(2) by (simp_all add: json_keys_def)
  have fresh: "map_get (ui_jobs h) (ui_fresh h) = None"
    using inv by (force simp: ui_inv_def map_of_eq_None_iff)
  obtain i where i: "id_restore w x new_Identity = Inr i" "object_ok w i" "id_export w i = Inr x"
    using restore_exported [OF assms(1) x(2)] by blast
  have "h' = fst (ui_step w enc dec (ui_mount dec pk h) (UiDone (ui_fresh h) k))" by (simp add: assms(5))
  with t fresh assms(4) i show ?thesis using inv
    by (simp add: ui_mount_def ui_spawn_def Let_def ui_show_def ui_set_obj_def ui_exportKeys_def nth_append
        object_ok_def map_add_def) (simp add: ui_inv_def)
qed



text \<open>A text form of the keys of \<open>toy_crypto\<close>, and a component that has generated its first pair.\<close>

definition toy_keys :: "nat \<Rightarrow> exported_identity" where
  "toy_keys k = \<lparr>x_fingerprint = [], x_alias = [], x_pub = btoa (wc_pub toy_crypto k),
     x_private = wc_export_private toy_crypto k, x_public = wc_export_public toy_crypto k\<rparr>"

definition toy_enc :: "exported_identity \<Rightarrow> string" where
  "toy_enc x = (case x_private x of JNum n \<Rightarrow> replicate (Suc (nat n)) CHR ''k'' | _ \<Rightarrow> [])"

definition toy_dec :: "string \<Rightarrow> exported_identity option" where
  "toy_dec t = (if t = [] then None else Some (toy_keys (length t - 1)))"

lemma toy_json: "json_keys toy_crypto toy_enc toy_dec"
proof -
  have "x = toy_keys k" if "x_fingerprint x = []" "x_alias x = []" "x_pub x = btoa (wc_pub toy_crypto k)"
    "x_private x = wc_export_private toy_crypto k" "x_public x = wc_export_public toy_crypto k" for x k
    using that by (cases x) (simp add: toy_keys_def)
  moreover have "toy_enc (toy_keys k) \<noteq> [] \<and> toy_dec (toy_enc (toy_keys k)) = Some (toy_keys k)" for k
    by (simp add: toy_enc_def toy_dec_def toy_keys_def toy_crypto_def)
  ultimately show ?thesis unfolding json_keys_def exported_ok_def by metis
qed

definition demo_identity :: use_identity where
  "demo_identity = run_state (ui_step toy_crypto toy_enc toy_dec) (new_useIdentity []) [UiMount ''id'', UiDone 0 2, UiDone 1 0]"

lemma demo_identity_stored:
  "map_get (ui_storage demo_identity) ''id'' = Some (toy_enc (toy_keys 2))" "ui_fresh demo_identity = 2"
  by (simp_all add: demo_identity_def new_useIdentity_def ui_mount_def ui_spawn_def ui_set_obj_def ui_show_def ui_store_def
      id_generate_def id_export_def new_Identity_def toy_keys_def Let_def del: btoa.simps)

theorem stored_identity_restored_witness:
  "\<exists>x. toy_dec (toy_enc (toy_keys 2)) = Some x
     \<and> ui_exportKeys toy_crypto (run_state (ui_step toy_crypto toy_enc toy_dec) demo_identity [UiMount ''id'', UiDone 2 0])
       = Some (Inr x)"
  using stored_identity_restored [OF toy_crypto_ok toy_json demo_identity_def demo_identity_stored(1) refl, of 0]
  unfolding demo_identity_stored(2) by blast

end
