(* ===== verification/Hook_Media.thy ===== *)
theory Hook_Media
  imports Media
begin

text \<open>
  The React hook \<open>useMedia\<close> of packages/peerserver-client/src/react/useMedia.ts over the media classes,
  whose media.ts is the same file as the one of packages/peer-client.  Of a media object the hook uses
  what both classes share, its local stream (\<open>md_started\<close>, \<open>md_enable\<close>, \<open>md_shut\<close> of Media), and listens
  to its events; the room and the peers are behind those events.  Objects live in a store: one that
  was closed can still be given its stream.  \<open>close\<close> takes off all listeners, so a closed object
  reports nothing.
\<close>

section \<open>The hook\<close>

record use_media =
  um_objs :: "media list"
  um_ref :: "nat option"                   \<comment> \<open>\<open>mediaRef.current\<close>\<close>
  um_local :: "(nat \<times> nat) option"         \<comment> \<open>\<open>localStream\<close>: the object and the number of its stream\<close>
  um_remote :: "(string, nat) jsmap"       \<comment> \<open>\<open>remoteStreams\<close>\<close>
  um_audioMuted :: bool
  um_videoMuted :: bool
  um_error :: "string option"

datatype um_event =
    UmMount string bool js js              \<comment> \<open>room, create, audio, video\<close>
  | UmUnmount
  | UmStream nat nat "mtrack list"         \<comment> \<open>\<open>getUserMedia\<close> has answered call \<open>i\<close> of object \<open>r\<close>\<close>
  | UmFails nat string                     \<comment> \<open>\<open>init\<close> of object \<open>r\<close> was rejected\<close>
  | UmRemote nat nat string
  | UmRemoved nat string
  | UmError nat string
  | UmKicked nat                           \<comment> \<open>object \<open>r\<close> closes itself\<close>
  | UmMute bool | UmUnmute bool | UmToggle bool    \<comment> \<open>audio, otherwise video\<close>

definition new_useMedia :: use_media where
  "new_useMedia = \<lparr>um_objs = [], um_ref = None, um_local = None, um_remote = [], um_audioMuted = False,
     um_videoMuted = False, um_error = None\<rparr>"

definition um_new_object :: "string \<Rightarrow> media" where
  "um_new_object room = \<lparr>md_id = room, md_streams = [], md_local = None, md_closed = False, md_listens = 0, md_awaits = [],
     md_starting = [], md_next = 0, md_subs = []\<rparr>"

definition um_close :: "nat \<Rightarrow> use_media \<Rightarrow> use_media" where
  "um_close r h = (if md_closed (um_objs h ! r) then h else h\<lparr>um_objs := (um_objs h)[r := md_shut (um_objs h ! r)]\<rparr>)"

definition um_cleanup :: "use_media \<Rightarrow> use_media" where
  "um_cleanup h =
     (case um_ref h of None \<Rightarrow> h | Some r \<Rightarrow> (um_close r h)\<lparr>um_ref := None, um_local := None, um_remote := []\<rparr>)"

definition um_mount :: "string \<Rightarrow> bool \<Rightarrow> js \<Rightarrow> js \<Rightarrow> use_media \<Rightarrow> use_media \<times> media_out list" where
  "um_mount room create audio video h =
     (let h1 = um_cleanup h in
      if room = [] then (h1, [])
      else (let (g, out) = md_begin (if create then CreateAndJoin else JoinAndStart)
                             (JObj [(''audio'', audio), (''video'', video)]) (um_new_object room)
            in (h1\<lparr>um_objs := um_objs h1 @ [g], um_ref := Some (length (um_objs h1))\<rparr>, out)))"

text \<open>The listeners of the effect run while the object is not closed.\<close>

definition um_listening :: "nat \<Rightarrow> use_media \<Rightarrow> bool" where
  "um_listening r h \<longleftrightarrow> r < length (um_objs h) \<and> \<not> md_closed (um_objs h ! r)"

definition um_stream :: "nat \<Rightarrow> nat \<Rightarrow> mtrack list \<Rightarrow> use_media \<Rightarrow> use_media \<times> media_out list" where
  "um_stream r i tracks h =
     (if r < length (um_objs h) then
        (let (how, g, out) = md_started i (Some tracks) (um_objs h ! r);
             h1 = h\<lparr>um_objs := (um_objs h)[r := g]\<rparr>
         in (if how \<noteq> None \<and> um_listening r h
             then h1\<lparr>um_local := map_option (Pair r) (md_local g)\<rparr> else h1, out))
      else (h, []))"

definition um_set_muted :: "bool \<Rightarrow> bool \<Rightarrow> use_media \<Rightarrow> use_media" where
  "um_set_muted audio b h = (if audio then h\<lparr>um_audioMuted := b\<rparr> else h\<lparr>um_videoMuted := b\<rparr>)"

definition um_muted :: "bool \<Rightarrow> use_media \<Rightarrow> bool" where
  "um_muted audio h = (if audio then um_audioMuted h else um_videoMuted h)"

text \<open>\<open>muteAudio\<close> and the like: the object if there is one, and the flag in any case.\<close>

definition um_enable :: "bool \<Rightarrow> bool \<Rightarrow> use_media \<Rightarrow> use_media \<times> media_out list" where
  "um_enable audio b h =
     (case um_ref h of
        None \<Rightarrow> (um_set_muted audio (\<not> b) h, [])
      | Some r \<Rightarrow> (let (g, out) = md_enable audio b (um_objs h ! r)
                  in (um_set_muted audio (\<not> b) (h\<lparr>um_objs := (um_objs h)[r := g]\<rparr>), out)))"

fun um_step :: "use_media \<Rightarrow> um_event \<Rightarrow> use_media \<times> media_out list" where
  "um_step h (UmMount room create audio video) = um_mount room create audio video h"
| "um_step h UmUnmount = (um_cleanup h, [])"
| "um_step h (UmStream r i tracks) = um_stream r i tracks h"
| "um_step h (UmFails r x) = (h\<lparr>um_error := Some x\<rparr>, [])"
| "um_step h (UmRemote r n fp) = (if um_listening r h then h\<lparr>um_remote := map_set fp n (um_remote h)\<rparr> else h, [])"
| "um_step h (UmRemoved r fp) = (if um_listening r h then h\<lparr>um_remote := map_del fp (um_remote h)\<rparr> else h, [])"
| "um_step h (UmError r x) = (if um_listening r h then h\<lparr>um_error := Some x\<rparr> else h, [])"
| "um_step h (UmKicked r) = (if r < length (um_objs h) then um_close r h else h, [])"
| "um_step h (UmMute audio) = um_enable audio False h"
| "um_step h (UmUnmute audio) = um_enable audio True h"
| "um_step h (UmToggle audio) = um_enable audio (um_muted audio h) h"

section \<open>Displayed muted, and live\<close>

definition live_on :: "bool \<Rightarrow> media \<Rightarrow> bool" where
  "live_on audio g \<longleftrightarrow> (\<exists>i t. md_local g = Some i \<and> i < length (md_streams g) \<and> t \<in> set (md_streams g ! i)
     \<and> tk_audio t = audio \<and> tk_enabled t \<and> tk_live t)"

definition exposed :: "bool \<Rightarrow> nat \<Rightarrow> use_media \<Rightarrow> bool" where
  "exposed audio r h \<longleftrightarrow> um_ref h = Some r \<and> r < length (um_objs h) \<and> um_muted audio h \<and> live_on audio (um_objs h ! r)"

text \<open>Events that leave the object of the hook and its flag for one kind of track alone.\<close>

fun leaves_kind :: "bool \<Rightarrow> nat \<Rightarrow> um_event \<Rightarrow> bool" where
  "leaves_kind audio r (UmMount room create a v) = False"
| "leaves_kind audio r UmUnmount = False"
| "leaves_kind audio r (UmStream q i ts) = (q \<noteq> r)"
| "leaves_kind audio r (UmKicked q) = (q \<noteq> r)"
| "leaves_kind audio r (UmMute k) = (k \<noteq> audio)"
| "leaves_kind audio r (UmUnmute k) = (k \<noteq> audio)"
| "leaves_kind audio r (UmToggle k) = (k \<noteq> audio)"
| "leaves_kind audio r e = True"

lemma live_other:
  assumes "live_on audio g" "k \<noteq> audio"
  shows "live_on audio (fst (md_enable k b g))"
proof -
  obtain i t where "md_local g = Some i" "i < length (md_streams g)" "t \<in> set (md_streams g ! i)" "tk_audio t = audio"
    "tk_enabled t" "tk_live t" using assms(1) by (auto simp: live_on_def)
  with assms(2) show ?thesis
    unfolding live_on_def md_enable_def md_map_local_def by (intro exI [of _ i] exI [of _ t]) (auto intro!: image_eqI [of _ _ t])
qed

lemma muted_set [simp]: "um_muted audio (um_set_muted k b h) = (if k = audio then b else um_muted audio h)"
  "um_ref (um_set_muted k b h) = um_ref h" "um_objs (um_set_muted k b h) = um_objs h"
  by (auto simp: um_muted_def um_set_muted_def)

lemma muted_fields [simp]: "um_muted audio (h\<lparr>um_objs := x\<rparr>) = um_muted audio h" "um_muted audio (h\<lparr>um_local := l\<rparr>) = um_muted audio h"
  "um_muted audio (h\<lparr>um_remote := m\<rparr>) = um_muted audio h" "um_muted audio (h\<lparr>um_error := e\<rparr>) = um_muted audio h"
  by (simp_all add: um_muted_def)

lemma exposed_enable:
  assumes "exposed audio r h" "k \<noteq> audio"
  shows "exposed audio r (fst (um_enable k b h))"
proof -
  from assms(1) have h: "um_ref h = Some r" "r < length (um_objs h)" "um_muted audio h" "live_on audio (um_objs h ! r)"
    by (auto simp: exposed_def)
  with live_other [OF h(4) assms(2), of b] assms(2) show ?thesis
    by (simp add: exposed_def um_enable_def split_def Let_def)
qed

lemma exposed_step: "exposed audio r h \<Longrightarrow> leaves_kind audio r e \<Longrightarrow> exposed audio r (fst (um_step h e))"
proof (cases e)
  case (UmStream q i ts)
  moreover assume "exposed audio r h" "leaves_kind audio r e"
  ultimately show ?thesis by (auto simp: exposed_def um_stream_def split_def Let_def)
next
  case (UmKicked q)
  moreover assume "exposed audio r h" "leaves_kind audio r e"
  ultimately show ?thesis by (auto simp: exposed_def um_close_def)
qed (auto simp: exposed_enable, auto simp: exposed_def)

interpretation exposed_call: machine um_step "exposed audio r" "leaves_kind audio r" for audio r
  by unfold_locales (rule exposed_step)

text \<open>
  A call that is displayed as muted although it is not.  If the flag of a kind of track says muted when the
  browser hands the mounted object its stream, because the user muted before the permission was given or
  in an earlier call, then a track of that kind is sent live while the display says muted, and stays so
  whatever happens short of the user switching that kind, the call ending or a new stream; and the first toggle,
  which is meant to mute it, leaves it live.
\<close>

theorem muted_call_is_live:
  assumes "um_ref h = Some r" "um_listening r h" "um_muted audio h"
    and "map_get (md_starting (um_objs h ! r)) i \<noteq> None"
    and "t \<in> set ts" "tk_audio t = audio" "tk_enabled t" "tk_live t"
    and "list_all (leaves_kind audio r) es"
    and "h' = run_state um_step (fst (um_step h (UmStream r i ts))) es"
  shows "um_muted audio h' \<and> live_on audio (um_objs h' ! r) \<and> live_on audio (um_objs (fst (um_step h' (UmToggle audio))) ! r)"
proof -
  have "exposed audio r (fst (um_step h (UmStream r i ts)))"
    using assms(1-8) by (auto simp: exposed_def um_stream_def um_listening_def md_started_def live_on_def Let_def split_def nth_append)
  from exposed_call.run_inv [OF this assms(9)] have e: "exposed audio r h'" by (simp add: assms(10))
  then obtain j u where "md_local (um_objs h' ! r) = Some j" "j < length (md_streams (um_objs h' ! r))"
    "u \<in> set (md_streams (um_objs h' ! r) ! j)" "tk_audio u = audio" "tk_enabled u" "tk_live u"
    by (auto simp: exposed_def live_on_def)
  then have "live_on audio (fst (md_enable audio True (um_objs h' ! r)))"
    unfolding live_on_def md_enable_def md_map_local_def by (intro exI [of _ j] exI [of _ u]) (auto intro!: image_eqI [of _ _ u])
  with e show ?thesis by (simp add: exposed_def um_enable_def split_def Let_def)
qed

text \<open>A user who mutes while the browser still asks for permission.\<close>

lemma muted_call_is_live_demo:
  "\<exists>h. h = run_state um_step new_useMedia [UmMount ''r'' False (JBool True) (JBool True), UmMute True,
        UmStream 0 0 [\<lparr>tk_audio = True, tk_enabled = True, tk_live = True\<rparr>]]
     \<and> um_audioMuted h \<and> live_on True (um_objs h ! 0)"
  by (simp add: new_useMedia_def um_mount_def um_cleanup_def um_new_object_def md_begin_def um_enable_def md_enable_def
      md_map_local_def um_set_muted_def um_stream_def um_listening_def md_started_def live_on_def Let_def)

end
