(* ===== verification/Hook_Lists.thy ===== *)
theory Hook_Lists
  imports Types
begin

text \<open>
  The React hooks of packages/peerserver-client/src/react that keep lists for display:
  \<open>useNamespace\<close>, \<open>useRoom\<close>, \<open>useMatch\<close>, \<open>useBroadcast\<close> and \<open>useRelay\<close>.  The client and the room
  objects are behind the events the hooks get and the calls they make.  A promise a hook waits for is a
  number in a list of pending ones; it is answered at most once, and the code does not look whether the hook
  is still mounted, or mounted on something else, when the answer comes.
\<close>

datatype hook_call =
    CallJoin string
  | CallLeave string
  | CallDiscover string js
  | CallBroadcast string js
  | CallRelay string js
  | CallMatch string js js
  | NewRoom bool string nat           \<comment> \<open>group, identifier, \<open>maxSize\<close>\<close>
  | RoomCreate nat
  | RoomJoin nat
  | RoomClose nat
  | RoomSend nat js "string option"

section \<open>Lists of peers\<close>

text \<open>\<open>[...prev.filter(p => p.fingerprint !== info.fingerprint), info]\<close> and the removal.\<close>

definition peers_left :: "string \<Rightarrow> peer_info list \<Rightarrow> peer_info list" where
  "peers_left fp ps = filter (\<lambda>p. pi_fingerprint p \<noteq> fp) ps"

definition peers_joined :: "peer_info \<Rightarrow> peer_info list \<Rightarrow> peer_info list" where
  "peers_joined info ps = peers_left (pi_fingerprint info) ps @ [info]"

definition fingerprints :: "peer_info list \<Rightarrow> string set" where
  "fingerprints ps = pi_fingerprint ` set ps"

lemma peers_list [simp]:
  "fingerprints (peers_left fp ps) = fingerprints ps - {fp}"
  "fingerprints (peers_joined info ps) = insert (pi_fingerprint info) (fingerprints ps)"
  "distinct (map pi_fingerprint ps) \<Longrightarrow> distinct (map pi_fingerprint (peers_left fp ps))"
  "distinct (map pi_fingerprint ps) \<Longrightarrow> distinct (map pi_fingerprint (peers_joined info ps))"
  by (auto simp: fingerprints_def peers_left_def peers_joined_def distinct_map_filter)

section \<open>\<open>useNamespace\<close>\<close>

record use_namespace =
  un_mounted :: "(nat \<times> string) option"    \<comment> \<open>the effect that is in force and its namespace\<close>
  un_pending :: "nat list"                 \<comment> \<open>joins not answered yet\<close>
  un_fresh :: nat
  un_peers :: "peer_info list"
  un_joined :: bool
  un_error :: "string option"

datatype un_event =
    UnMount string
  | UnUnmount
  | UnPeerJoined peer_info
  | UnPeerLeft string
  | UnResolved nat string "peer_info list"     \<comment> \<open>which join, the client's fingerprint, the list\<close>
  | UnRejected nat string
  | UnDiscover bool string js                  \<comment> \<open>whether there is a client; the namespace\<close>

definition new_useNamespace :: use_namespace where
  "new_useNamespace = \<lparr>un_mounted = None, un_pending = [], un_fresh = 0, un_peers = [], un_joined = False, un_error = None\<rparr>"

definition un_cleanup :: "use_namespace \<Rightarrow> use_namespace \<times> hook_call list" where
  "un_cleanup h =
     (case un_mounted h of
        None \<Rightarrow> (h, [])
      | Some (j, ns) \<Rightarrow> (h\<lparr>un_mounted := None, un_joined := False, un_peers := []\<rparr>, [CallLeave ns]))"

definition un_mount :: "string \<Rightarrow> use_namespace \<Rightarrow> use_namespace \<times> hook_call list" where
  "un_mount ns h =
     (let (h1, out) = un_cleanup h in
      if ns = [] then (h1, out)
      else (h1\<lparr>un_mounted := Some (un_fresh h1, ns), un_pending := un_pending h1 @ [un_fresh h1], un_fresh := Suc (un_fresh h1)\<rparr>,
            out @ [CallJoin ns]))"

fun un_step :: "use_namespace \<Rightarrow> un_event \<Rightarrow> use_namespace \<times> hook_call list" where
  "un_step h (UnMount ns) = un_mount ns h"
| "un_step h UnUnmount = un_cleanup h"
| "un_step h (UnPeerJoined info) =
     (if un_mounted h = None then h else h\<lparr>un_peers := peers_joined info (un_peers h)\<rparr>, [])"
| "un_step h (UnPeerLeft fp) = (if un_mounted h = None then h else h\<lparr>un_peers := peers_left fp (un_peers h)\<rparr>, [])"
| "un_step h (UnResolved j me ps) =
     (if j \<in> set (un_pending h)
      then h\<lparr>un_pending := removeAll j (un_pending h), un_peers := peers_left me ps, un_joined := True\<rparr> else h, [])"
| "un_step h (UnRejected j x) =
     (if j \<in> set (un_pending h) then h\<lparr>un_pending := removeAll j (un_pending h), un_error := Some x\<rparr> else h, [])"
| "un_step h (UnDiscover present ns limit) = (h, if present then [CallDiscover ns limit] else [])"

text \<open>The members as a set: what joins and departures make of it.\<close>

fun un_member :: "un_event \<Rightarrow> string set \<Rightarrow> string set" where
  "un_member (UnPeerJoined info) M = insert (pi_fingerprint info) M"
| "un_member (UnPeerLeft fp) M = M - {fp}"
| "un_member e M = M"

fun un_quiet :: "un_event \<Rightarrow> bool" where
  "un_quiet (UnMount ns) = False"
| "un_quiet UnUnmount = False"
| "un_quiet (UnResolved j me ps) = False"
| "un_quiet e = True"

definition un_wf :: "use_namespace \<Rightarrow> bool" where
  "un_wf h \<longleftrightarrow> un_mounted h \<noteq> None \<and> distinct (map pi_fingerprint (un_peers h))"

lemma un_step_members:
  assumes "un_wf h" "un_quiet e"
  shows "un_wf (fst (un_step h e)) \<and> fingerprints (un_peers (fst (un_step h e))) = un_member e (fingerprints (un_peers h))"
  using assms by (cases e) (auto simp: un_wf_def)

lemma un_run_members:
  "un_wf h \<Longrightarrow> list_all un_quiet es \<Longrightarrow>
   un_wf (run_state un_step h es) \<and>
   fingerprints (un_peers (run_state un_step h es)) = fold un_member es (fingerprints (un_peers h))"
proof (induction es arbitrary: h)
  case (Cons e es)
  with un_step_members [of h e] show ?case by (simp del: run.simps(2) un_step.simps)
qed simp

text \<open>
  Once the join has been answered, the displayed list has each member once and refines the set of members:
  the ones the server listed without the client itself, with every later arrival and departure.
\<close>

theorem namespace_list_refines_set:
  assumes "un_mounted h = Some (j, ns)" "j \<in> set (un_pending h)" "distinct (map pi_fingerprint ps)" "list_all un_quiet es"
    and "h' = run_state un_step (fst (un_step h (UnResolved j me ps))) es"
  shows "distinct (map pi_fingerprint (un_peers h')) \<and>
    fingerprints (un_peers h') = fold un_member es (fingerprints ps - {me})"
proof -
  have "un_wf (fst (un_step h (UnResolved j me ps)))" using assms(1-3) by (simp add: un_wf_def)
  from un_run_members [OF this assms(4)] assms(2) show ?thesis by (simp add: assms(5) un_wf_def)
qed

text \<open>
  The answer to the join of a namespace the hook has left is displayed as the list of the one it is
  mounted on now.
\<close>

theorem namespace_switch_shows_old_list:
  assumes "a \<noteq> []" "b \<noteq> []"
    and "h = run_state un_step new_useNamespace [UnMount a, UnMount b, UnResolved 1 me qs, UnResolved 0 me ps]"
  shows "un_mounted h = Some (1, b) \<and> un_peers h = peers_left me ps"
  using assms by (simp add: new_useNamespace_def un_mount_def un_cleanup_def)

section \<open>\<open>useRoom\<close>\<close>

record use_room =
  ur_room :: "(nat \<times> bool) option"         \<comment> \<open>\<open>roomRef.current\<close> and whether it is a \<open>GroupRoom\<close>\<close>
  ur_pending :: "(nat \<times> bool) list"        \<comment> \<open>runs of \<open>init\<close> and whether they create\<close>
  ur_fresh :: nat
  ur_peers :: "peer_info list"
  ur_messages :: "(js \<times> string \<times> int) list"
  ur_joined :: bool
  ur_error :: "string option"

datatype ur_event =
    UrMount string bool bool nat             \<comment> \<open>room, grp, create, \<open>maxSize\<close>\<close>
  | UrUnmount
  | UrPeerJoined nat peer_info               \<comment> \<open>events of room object \<open>r\<close>\<close>
  | UrPeerLeft nat string
  | UrData nat js string int
  | UrRoomError nat string
  | UrResolved nat string "peer_info list"   \<comment> \<open>the list \<open>join\<close> resolves with; \<open>create\<close> has none\<close>
  | UrRejected nat string
  | UrSend js "string option"
  | UrClear

definition new_useRoom :: use_room where
  "new_useRoom = \<lparr>ur_room = None, ur_pending = [], ur_fresh = 0, ur_peers = [], ur_messages = [], ur_joined = False, ur_error = None\<rparr>"

definition ur_cleanup :: "use_room \<Rightarrow> use_room \<times> hook_call list" where
  "ur_cleanup h =
     (case ur_room h of
        None \<Rightarrow> (h, [])
      | Some (r, grp) \<Rightarrow> (h\<lparr>ur_room := None, ur_joined := False, ur_peers := []\<rparr>, [RoomClose r]))"

definition ur_mount :: "string \<Rightarrow> bool \<Rightarrow> bool \<Rightarrow> nat \<Rightarrow> use_room \<Rightarrow> use_room \<times> hook_call list" where
  "ur_mount room grp create maxSize h =
     (let (h1, out) = ur_cleanup h; r = ur_fresh h1 in
      if room = [] then (h1, out)
      else (h1\<lparr>ur_room := Some (r, grp), ur_pending := ur_pending h1 @ [(r, create)], ur_fresh := Suc r\<rparr>,
            out @ [NewRoom grp room maxSize, if create then RoomCreate r else RoomJoin r]))"

text \<open>\<open>close\<close> takes off the listeners, so only the current object is heard.\<close>

definition ur_hears :: "nat \<Rightarrow> use_room \<Rightarrow> bool" where
  "ur_hears r h = (case ur_room h of Some (q, grp) \<Rightarrow> q = r | None \<Rightarrow> False)"

definition ur_init_done :: "nat \<Rightarrow> string \<Rightarrow> peer_info list \<Rightarrow> use_room \<Rightarrow> use_room" where
  "ur_init_done r me ps h =
     (case map_get (ur_pending h) r of
        None \<Rightarrow> h
      | Some create \<Rightarrow>
          (let h1 = h\<lparr>ur_pending := map_del r (ur_pending h), ur_joined := True\<rparr>
           in if create then h1 else h1\<lparr>ur_peers := peers_left me ps\<rparr>))"

definition ur_send :: "js \<Rightarrow> string option \<Rightarrow> use_room \<Rightarrow> hook_call list" where
  "ur_send d dest h =
     (case ur_room h of None \<Rightarrow> [] | Some (r, grp) \<Rightarrow> [RoomSend r d (if grp then dest else None)])"

fun ur_step :: "use_room \<Rightarrow> ur_event \<Rightarrow> use_room \<times> hook_call list" where
  "ur_step h (UrMount room grp create n) = ur_mount room grp create n h"
| "ur_step h UrUnmount = ur_cleanup h"
| "ur_step h (UrPeerJoined r info) = (if ur_hears r h then h\<lparr>ur_peers := peers_joined info (ur_peers h)\<rparr> else h, [])"
| "ur_step h (UrPeerLeft r fp) = (if ur_hears r h then h\<lparr>ur_peers := peers_left fp (ur_peers h)\<rparr> else h, [])"
| "ur_step h (UrData r d from ts) = (if ur_hears r h then h\<lparr>ur_messages := ur_messages h @ [(d, from, ts)]\<rparr> else h, [])"
| "ur_step h (UrRoomError r x) = (if ur_hears r h then h\<lparr>ur_error := Some x\<rparr> else h, [])"
| "ur_step h (UrResolved r me ps) = (ur_init_done r me ps h, [])"
| "ur_step h (UrRejected r x) =
     (if map_has (ur_pending h) r then h\<lparr>ur_pending := map_del r (ur_pending h), ur_error := Some x\<rparr> else h, [])"
| "ur_step h (UrSend d dest) = (h, ur_send d dest h)"
| "ur_step h UrClear = (h\<lparr>ur_messages := []\<rparr>, [])"

text \<open>The messages displayed are those the current rooms reported since the last clearing, in order.\<close>

fun ur_heard :: "use_room \<Rightarrow> ur_event list \<Rightarrow> (js \<times> string \<times> int) list \<Rightarrow> (js \<times> string \<times> int) list" where
  "ur_heard h [] ms = ms"
| "ur_heard h (e # es) ms =
     ur_heard (fst (ur_step h e)) es
       (case e of UrData r d from ts \<Rightarrow> if ur_hears r h then ms @ [(d, from, ts)] else ms | UrClear \<Rightarrow> [] | _ \<Rightarrow> ms)"

lemma ur_messages_run: "ur_messages (run_state ur_step h es) = ur_heard h es (ur_messages h)"
proof (induction es arbitrary: h)
  case (Cons e es)
  have "ur_messages (fst (ur_step h e)) =
    (case e of UrData r d from ts \<Rightarrow> if ur_hears r h then ur_messages h @ [(d, from, ts)] else ur_messages h
     | UrClear \<Rightarrow> [] | _ \<Rightarrow> ur_messages h)"
    by (cases e) (simp_all add: ur_mount_def ur_cleanup_def ur_init_done_def Let_def split_def split: option.split)
  with Cons.IH [of "fst (ur_step h e)"] show ?case by (simp del: run.simps(2) ur_step.simps)
qed simp

lemma room_list_distinct:
  "distinct (map pi_fingerprint (ur_peers h)) \<Longrightarrow> (\<And>r me ps. e = UrResolved r me ps \<Longrightarrow> distinct (map pi_fingerprint ps)) \<Longrightarrow>
   distinct (map pi_fingerprint (ur_peers (fst (ur_step h e))))"
  by (cases e) (auto simp: ur_mount_def ur_cleanup_def ur_init_done_def Let_def split_def split: option.split)

section \<open>\<open>useMatch\<close>\<close>

datatype match_status = MIdle | MMatching | MMatched | MError

record use_match =
  mt_status :: match_status
  mt_peers :: "peer_info list"
  mt_session :: string
  mt_error :: "string option"
  mt_pending :: "nat list"
  mt_fresh :: nat

datatype mt_event =
    MtMatch string js js
  | MtResolved nat match_result
  | MtRejected nat string
  | MtReset

definition new_useMatch :: use_match where
  "new_useMatch = \<lparr>mt_status = MIdle, mt_peers = [], mt_session = [], mt_error = None, mt_pending = [], mt_fresh = 0\<rparr>"

definition mt_reset :: "use_match \<Rightarrow> use_match" where
  "mt_reset h = h\<lparr>mt_status := MIdle, mt_peers := [], mt_session := [], mt_error := None\<rparr>"

fun mt_step :: "use_match \<Rightarrow> mt_event \<Rightarrow> use_match \<times> hook_call list" where
  "mt_step h (MtMatch ns meta count) =
     (h\<lparr>mt_status := MMatching, mt_error := None, mt_pending := mt_pending h @ [mt_fresh h], mt_fresh := Suc (mt_fresh h)\<rparr>,
      [CallMatch ns meta count])"
| "mt_step h (MtResolved j m) =
     (if j \<in> set (mt_pending h)
      then h\<lparr>mt_pending := removeAll j (mt_pending h), mt_peers := mr_peers m, mt_session := mr_session_id m, mt_status := MMatched\<rparr>
      else h, [])"
| "mt_step h (MtRejected j x) =
     (if j \<in> set (mt_pending h) then h\<lparr>mt_pending := removeAll j (mt_pending h), mt_error := Some x, mt_status := MError\<rparr> else h, [])"
| "mt_step h MtReset = (mt_reset h, [])"

text \<open>While the display says matching a match is open, and an error is displayed with its message.\<close>

definition mt_inv :: "use_match \<Rightarrow> bool" where
  "mt_inv h \<longleftrightarrow> (mt_status h = MMatching \<longrightarrow> mt_pending h \<noteq> []) \<and> (mt_status h = MError \<longrightarrow> mt_error h \<noteq> None)"

interpretation match_hook: machine mt_step mt_inv "\<lambda>e. True"
proof
  fix h e
  show "mt_inv h \<Longrightarrow> True \<Longrightarrow> mt_inv (fst (mt_step h e))"
    by (cases e) (auto simp: mt_inv_def mt_reset_def)
qed

lemma matching_is_open:
  "mt_status (run_state mt_step new_useMatch es) = MMatching \<Longrightarrow> mt_pending (run_state mt_step new_useMatch es) \<noteq> []"
  using match_hook.run_inv [of new_useMatch es] by (simp add: mt_inv_def new_useMatch_def list_all_iff)

text \<open>A match that was reset while it was open is displayed when it is found.\<close>

theorem reset_match_returns:
  "mt_status (run_state mt_step new_useMatch [MtMatch ns meta count, MtReset, MtResolved 0 m]) = MMatched"
  by (simp add: new_useMatch_def mt_reset_def)

section \<open>\<open>useBroadcast\<close> and \<open>useRelay\<close>\<close>

record use_messages =
  uq_channel :: "string option"            \<comment> \<open>the namespace listened to; for \<open>useRelay\<close> any\<close>
  uq_messages :: "(string \<times> string \<times> js \<times> int) list"

datatype uq_event =
    UqMount string
  | UqUnmount
  | UqArrives string string js int         \<comment> \<open>sender, namespace, payload, time\<close>
  | UqSend bool string js                  \<comment> \<open>whether there is a client; namespace or addressee\<close>
  | UqClear

fun ub_step :: "use_messages \<Rightarrow> uq_event \<Rightarrow> use_messages \<times> hook_call list" where
  "ub_step h (UqMount ns) = (h\<lparr>uq_channel := (if ns = [] then None else Some ns)\<rparr>, [])"
| "ub_step h UqUnmount = (h\<lparr>uq_channel := None\<rparr>, [])"
| "ub_step h (UqArrives from ns d ts) =
     (if uq_channel h = Some ns then h\<lparr>uq_messages := uq_messages h @ [(from, ns, d, ts)]\<rparr> else h, [])"
| "ub_step h (UqSend present ns d) = (h, if present then [CallBroadcast ns d] else [])"
| "ub_step h UqClear = (h\<lparr>uq_messages := []\<rparr>, [])"

text \<open>\<open>useRelay\<close> listens while there is a client; the namespace of what arrives plays no part.\<close>

fun ul_step :: "use_messages \<Rightarrow> uq_event \<Rightarrow> use_messages \<times> hook_call list" where
  "ul_step h (UqMount x) = (h\<lparr>uq_channel := Some x\<rparr>, [])"
| "ul_step h UqUnmount = (h\<lparr>uq_channel := None\<rparr>, [])"
| "ul_step h (UqArrives from ns d ts) =
     (if uq_channel h = None then h else h\<lparr>uq_messages := uq_messages h @ [(from, ns, d, ts)]\<rparr>, [])"
| "ul_step h (UqSend present dest d) = (h, if present then [CallRelay dest d] else [])"
| "ul_step h UqClear = (h\<lparr>uq_messages := []\<rparr>, [])"

fun uq_calm :: "uq_event \<Rightarrow> bool" where
  "uq_calm (UqArrives from ns d ts) = True"
| "uq_calm (UqSend present x d) = True"
| "uq_calm e = False"

fun uq_arrival :: "uq_event \<Rightarrow> (string \<times> string \<times> js \<times> int) list" where
  "uq_arrival (UqArrives from ns d ts) = [(from, ns, d, ts)]"
| "uq_arrival e = []"

lemma broadcasts_in_order:
  assumes "uq_channel h = Some ns" "list_all uq_calm es"
  shows "uq_messages (run_state ub_step h es) =
    uq_messages h @ filter (\<lambda>m. fst (snd m) = ns) (concat (map uq_arrival es))"
  using assms
proof (induction es arbitrary: h)
  case (Cons e es)
  have "uq_channel (fst (ub_step h e)) = Some ns" using Cons.prems by (cases e) auto
  from Cons.IH [OF this] Cons.prems show ?case by (cases e) (auto simp del: run.simps(2))
qed simp

lemma relays_in_order:
  assumes "uq_channel h \<noteq> None" "list_all uq_calm es"
  shows "uq_messages (run_state ul_step h es) = uq_messages h @ concat (map uq_arrival es)"
  using assms
proof (induction es arbitrary: h)
  case (Cons e es)
  have "uq_channel (fst (ul_step h e)) \<noteq> None" using Cons.prems by (cases e) auto
  from Cons.IH [OF this] Cons.prems show ?case by (cases e) (auto simp del: run.simps(2))
qed simp

end
