(* ===== verification/Spec2Isabelle.thy ===== *)
theory Spec2Isabelle
  imports Sync_Net Emitter Transfer_Recv Transfer_Send Transport_Props Room_Props Peer_Props Crypto_Props Offline_Props E2E_Props Crdt_Props Media_Props Image Hook_Sync Hook_Transfer Hook_Identity Hook_Media Hook_Lists
begin

text \<open>
  \<^bold>\<open>A verification of the client packages of the peer server.\<close>

  \<^bold>\<open>The program.\<close>  The repository holds a signalling server written in Go and the browser side that
  talks to it: packages/peer-client (version 1.0.3) and packages/peerserver-client (version 1.0.0 of
  the same classes, with React hooks on top).  A \<open>PeerClient\<close> registers an \<open>Identity\<close> over a \<open>Transport\<close>
  (a WebSocket with a queue and reconnection), joins namespaces and rooms, and opens a \<open>Peer\<close>
  (an RTCPeerConnection with data channels) to other members, exchanging offers, answers and candidates through
  the server.  What the rest of the package offers is built on these: rooms that send over a data
  channel or by relay, file transfer in chunks, replicated key-value state, Yjs documents, media
  calls, encrypted rooms and an offline copy in IndexedDB.  All of them report through \<open>Emitter\<close>.

  \<^bold>\<open>How the code is modelled.\<close>  An object is a record of its fields.  A method or a callback is one
  function from the record to the new record and the list of what it does, in order (messages sent,
  events emitted, calls of the browser).  What the code cannot decide (the clock, random identifiers,
  whether a channel's \<open>send\<close> throws) is an argument or part of the event.  A method that awaits is cut at the
  \<open>await\<close>: the rest is a job or task in the record, and an event resumes it, so every interleaving
  the event loop allows is a list of events.  A component is then a step function, run by \<open>run\<close> of
  Prelude, and its invariants are interpretations of the locale \<open>machine\<close>; networks of components are
  inductive step relations, and their invariants are interpretations of \<open>inv_system\<close>.  Objects that
  are shared or outlive their place in a table (peers, requests, sends, sockets, timers, listener sets,
  identities) live in a list and are referred to by index.  Errors are \<open>Inl\<close> of a sum or outputs.

  \<^bold>\<open>The theories and the sources\<close> (paths under packages/peer-client/src unless said otherwise).
  \<^item> Prelude: the JavaScript \<open>Map\<close> and \<open>Set\<close> as insertion-ordered lists with the locale
    \<open>ordered_dict\<close>, the slicing loop, \<open>run\<close>, \<open>machine\<close>, \<open>reachable\<close>, \<open>inv_system\<close>.  Types: core/types.ts
    and JavaScript values.
  \<^item> Hlc (sync.ts, the hybrid logical clock), Lww (what a last-writer-wins replica promises, as the
    locale \<open>lww_replica\<close>), Sync (sync.ts, class \<open>StateSync\<close>), Sync_Net (replicas over a network that
    loses, repeats and reorders).
  \<^item> Emitter: core/emitter.ts, with listener sets as objects that an iteration of \<open>emit\<close> sees change.
  \<^item> Transfer_Codec, FileTransfer, Transfer_Recv, Transfer_Send, Image: transfer.ts (chunks, class
    \<open>FileTransfer\<close>, its receiving and its sending side, class \<open>ImageTransfer\<close>).  Class \<open>JSONTransfer\<close>
    is in Room, since it needs the client.
  \<^item> Transport and Transport_Props: core/transport.ts, with time, timers and sockets.
  \<^item> Client and Client_Props: core/client.ts, every request with its timeout and listeners, every case
    of \<open>handleMessage\<close>.
  \<^item> Room and Room_Props: room.ts, composed with the client.
  \<^item> Peer and Peer_Props: core/peer.ts.
  \<^item> Base64, Crypto, Crypto_Props: crypto.ts and core/identity.ts.
  \<^item> Offline_Store, Offline_Room, Offline_Props: core/offline-store.ts and offline-sync-room.ts.
  \<^item> E2E_Room, E2E_Props: e2e.room.ts.
  \<^item> Crdt, Crdt_Props: sync.ts, class \<open>CRDTSync\<close>, against a network of grow-only sets of updates.
  \<^item> Media, Media_Props: media.ts, composed with the client.
  \<^item> Hook_Sync, Hook_Transfer, Hook_Identity, Hook_Media: useSync.ts, useFileTransfer.ts, useIdentity.ts
    and useMedia.ts of packages/peerserver-client/src/react, composed with the models of the classes they
    use.  Hook_Lists: useNamespace.ts, useRoom.ts, useMatch.ts, useBroadcast.ts and useRelay.ts there.

  \<^bold>\<open>What the lemmas show.\<close>
  \<^item> Replication: two replicas that have seen the same entries hold the same state, for \<open>StateSync\<close> and
    for \<open>OfflineSyncRoom\<close>, through one argument in Lww; the clock dominates what is stored; a network
    of \<open>CRDTSync\<close> refines the grow-only sets; the offline database mirrors the memory, so a restart
    gives the same values, and its queue is bounded and flushed in order.
  \<^item> Delivery: the transport is first-in first-out and bounded, closing is final, reconnection backs
    off; a room sends to each member exactly once; a file is reassembled byte for byte, and a single run
    of the sender sends each chunk once and in order; no ICE candidate is lost; \<open>emit\<close> calls each
    listener once.
  \<^item> Requests: the tables of the client agree with the calls in flight, every call is settled once and
    by its timeout at the latest, and exactly which calls an error or a disconnect fails.
  \<^item> Round trips: chunk codec, base-64, key exchange and encryption, JSON transfer, identity.
  \<^item> Membership: the invariants of group rooms and group calls in every state they reach with their
    client.
  \<^item> Hooks: what \<open>useSync\<close> displays is what its replica holds, a file received is displayed with its
    bytes, a stored identity comes back, lists of members refine the sets they stand for.
  \<^item> Defects.  Some theorems state what the code does where it is not what it means to do: purged
    tombstones let deleted keys return, a second accept corrupts a file, the pong check never runs, an
    interrupted peer is orphaned, simultaneous offers never resolve, an undecryptable message turns
    encryption off, a call admits strangers, a hook keeps showing deleted keys, a sent transfer
    is never updated, and a call displayed as muted is live.

  \<^bold>\<open>Parameters.\<close>  Code outside the repository is an argument of the definitions that use it.
  WebCrypto and the text encoder are the record \<open>webcrypto\<close>, with \<open>webcrypto_ok\<close> (both ends derive
  the same secret, decryption undoes encryption, an exported key can be imported) where a theorem
  needs it; Yjs is the record \<open>yjs\<close> with its laws of merging; \<open>JSON.parse\<close> and \<open>JSON.stringify\<close> are
  functions, with the round trip as a hypothesis where it is used.  Witnesses give concrete functions
  that satisfy these hypotheses.  RTCPeerConnection, WebSocket, timers, \<open>getUserMedia\<close> and IndexedDB
  are what the outputs call and the events report; IndexedDB keeps its stores ordered by key.

  \<^bold>\<open>Loops, bounds and widths.\<close>  The slicing loop and the loop of \<open>emit\<close>, which may run for ever, are
  partial functions into option; that the first returns for a positive block size, and the second when
  the listeners leave the emitter alone, is proved.  A flush of the offline queue is bounded by two turns for each
  operation and one more.  Chunk indices are 32-bit: \<open>setUint32\<close> reduces modulo \<open>2 ^ 32\<close> and the
  theorems on files say where they need fewer chunks.  Bytes are 8-bit words.  Numbers that JavaScript
  keeps exactly in its range (clocks, counters, sizes) are integers.  Time in Transport is counted in
  half milliseconds, so that the interval of the pong check is a whole number.

  \<^bold>\<open>Not modelled.\<close>  The Go server, apart from the fact that it stamps the sender on what it forwards;
  the 1.0.0 copies of the classes in packages/peerserver-client (transfer.ts and media.ts are the same
  files, the others earlier versions of what is modelled); the hooks useE2E, useCRDT and usePeer, which pass
  calls on and keep a flag; the React components, which are markup, and the
  provider, which wires a client to a context; files that only re-export; getters that read one field;
  failures of IndexedDB itself; a browser without \<open>localStorage\<close>.  In the encryption and offline
  theories signatures and keys have no adversary: the theorems are about what the two ends compute.
\<close>

end
